(* ===== verification/Larch_Prelude.thy ===== *)
theory Larch_Prelude
  imports Main "HOL-Library.Word"
begin

unbundle bit_operations_syntax

text \<open>
  Shared vocabulary of the development: the machine integers of the i686 target, results
  that record how a C function can fail to return, bounded arrays, the loops of the
  sources as combinators, port input and output, and C string literals. The lemmas are
  collected in \<open>run_simps\<close> (unfolding rules for results), \<open>wp_intros\<close> (rules that
  show a computation runs to completion) and \<open>buf_simps\<close> (array accesses in range).
\<close>

named_theorems run_simps \<open>rewriting rules for results and sequencing\<close>
named_theorems wp_intros \<open>introduction rules for successful runs\<close>
named_theorems buf_simps \<open>rewriting rules for array accesses\<close>

section \<open>Machine integers\<close>

text \<open>
  The target is 32-bit x86: \<open>char\<close> is a signed byte, \<open>int\<close>, \<open>long\<close>, \<open>size_t\<close>
  and pointers have 32 bits. Unsigned types and \<open>char\<close> are words of their width; a
  \<open>char\<close> is compared through \<^term>\<open>sint\<close>. A C \<open>int\<close> that only ever holds small
  values is an \<^typ>\<open>int\<close>; where its overflow matters it is a word.
\<close>

type_synonym u8 = "8 word"
type_synonym u16 = "16 word"
type_synonym u32 = "32 word"
type_synonym u64 = "64 word"

lemma unat_inc: "i < n \<Longrightarrow> unat (i + 1) = Suc (unat i)" for i n :: "'a::len word"
proof -
  assume "i < n"
  then have "i \<noteq> - 1"
    by (auto simp: word_order.extremum_strict)
  then have "1 + i \<noteq> 0"
    by (metis add.commute eq_neg_iff_add_eq_0)
  then show ?thesis
    by (simp add: unatSuc add.commute)
qed

lemma unat_mono_less: "i < n \<longleftrightarrow> unat i < unat n" for i n :: "'a::len word"
  by (rule word_less_nat_alt)

lemma unat_of_nat_u32 [simp]: "n < 2 ^ 32 \<Longrightarrow> unat (of_nat n :: u32) = n"
  by (simp add: unat_of_nat)

text \<open>Masks of low bits are truncations.\<close>

lemma and_mask_simps:
  fixes x :: "'a::len word"
  shows "x AND 0xFF = take_bit 8 x" "x AND 0xFFFF = take_bit 16 x" "x AND 0x0F = take_bit 4 x"
    "x AND 0x07 = take_bit 3 x"
  by (simp_all add: take_bit_eq_mask mask_eq_exp_minus_1)

lemma sint_neg_iff_u8: "sint (c :: u8) < 0 \<longleftrightarrow> bit c 7"
  using bit_last_iff [of c] by simp

section \<open>Results\<close>

text \<open>
  What can keep a C function of the kernel from returning: an access outside its array
  (undefined behaviour in C), a division by zero, an \<open>int\<close> computation outside its
  range or a shift by the whole width (undefined too), a variadic argument that is
  missing or of the wrong kind, a call or access through a null pointer, a
  Rust \<open>unwrap\<close> of \<open>None\<close>, waiting for a device that has not answered yet, or spinning for ever after
  the listed port accesses. \<open>No_Fuel\<close> is not an event of the machine: it marks a loop
  whose step bound in the model was too small, and every loop with a bound comes with a
  lemma that the bound suffices.

  The events are the port accesses and the privileged instructions of the inline
  assembly: the interrupt flag, halting, the descriptor tables (limit and base), the
  task register and the segment registers (data and code selector).
\<close>

datatype io_event =
    In u16 u8
  | Out u16 u8
  | Cli
  | Sti
  | Hlt
  | Lgdt u16 u32
  | Lidt u16 u32
  | Ltr u16
  | Load_Segments u16 u16

datatype trap =
    Out_Of_Bounds
  | Divide_Error
  | Int_Overflow
  | Bad_Shift
  | Bad_Argument
  | Null_Pointer
  | Panic
  | Blocked
  | Spinning "io_event list"
  | No_Fuel

type_synonym 'a res = "trap + 'a"

definition bindR :: "'a res \<Rightarrow> ('a \<Rightarrow> 'b res) \<Rightarrow> 'b res" where
  "bindR m f = (case m of Inl e \<Rightarrow> Inl e | Inr x \<Rightarrow> f x)"

primrec seqR :: "('s \<Rightarrow> 's res) list \<Rightarrow> 's \<Rightarrow> 's res" where
  "seqR [] s = Inr s"
| "seqR (f # fs) s = bindR (f s) (seqR fs)"

primrec foldR :: "('x \<Rightarrow> 's \<Rightarrow> 's res) \<Rightarrow> 'x list \<Rightarrow> 's \<Rightarrow> 's res" where
  "foldR f [] s = Inr s"
| "foldR f (x # xs) s = bindR (f x s) (foldR f xs)"

text \<open>\<open>for (int i = a; i < b; i++) f(i)\<close>\<close>

function forR :: "int \<Rightarrow> int \<Rightarrow> (int \<Rightarrow> 's \<Rightarrow> 's res) \<Rightarrow> 's \<Rightarrow> 's res" where
  "forR a b f s = (if a < b then bindR (f a s) (\<lambda>s'. forR (a + 1) b f s') else Inr s)"
  by pat_completeness auto
termination
  by (relation "measure (\<lambda>(a, b, f, s). nat (b - a))") auto

declare forR.simps [simp del]

text \<open>\<open>succeeds m P\<close>: the computation returns, and its result satisfies \<open>P\<close>.\<close>

definition succeeds :: "'a res \<Rightarrow> ('a \<Rightarrow> bool) \<Rightarrow> bool" where
  "succeeds m P = (case m of Inl e \<Rightarrow> False | Inr x \<Rightarrow> P x)"

lemma bindR_Inl [simp, run_simps]: "bindR (Inl e) f = Inl e"
  by (simp add: bindR_def)

lemma bindR_Inr [simp, run_simps]: "bindR (Inr x) f = f x"
  by (simp add: bindR_def)

lemma bindR_assoc [run_simps]: "bindR (bindR m f) g = bindR m (\<lambda>x. bindR (f x) g)"
  by (simp add: bindR_def split: sum.splits)

lemma bindR_Inr_iff: "bindR m f = Inr y \<longleftrightarrow> (\<exists>x. m = Inr x \<and> f x = Inr y)"
  by (cases m) auto

lemma bindR_return [simp]: "bindR m Inr = m"
  by (cases m) auto

lemma bindR_cong [fundef_cong]:
  "m = m' \<Longrightarrow> (\<And>x. m' = Inr x \<Longrightarrow> f x = g x) \<Longrightarrow> bindR m f = bindR m' g"
  by (cases m') auto

lemma succeeds_Inl [simp]: "\<not> succeeds (Inl e) P"
  by (simp add: succeeds_def)

lemma succeeds_Inr [simp]: "succeeds (Inr x) P = P x"
  by (simp add: succeeds_def)

lemma succeeds_iff: "succeeds m P \<longleftrightarrow> (\<exists>x. m = Inr x \<and> P x)"
  by (cases m) auto

lemma succeedsE:
  assumes "succeeds m P"
  obtains x where "m = Inr x" "P x"
  using assms by (auto simp: succeeds_iff)

lemma succeeds_weaken: "succeeds m P \<Longrightarrow> (\<And>x. P x \<Longrightarrow> Q x) \<Longrightarrow> succeeds m Q"
  by (auto simp: succeeds_iff)

lemma succeeds_bindR [wp_intros]:
  "succeeds m P \<Longrightarrow> (\<And>x. P x \<Longrightarrow> succeeds (f x) Q) \<Longrightarrow> succeeds (bindR m f) Q"
  by (auto simp: succeeds_iff)

lemma succeeds_seqR:
  assumes "\<And>f s. f \<in> set fs \<Longrightarrow> P s \<Longrightarrow> succeeds (f s) P" "P s"
  shows "succeeds (seqR fs s) P"
  using assms by (induction fs arbitrary: s) (auto intro!: succeeds_bindR)

lemma succeeds_foldR:
  assumes "\<And>x s. x \<in> set xs \<Longrightarrow> P s \<Longrightarrow> succeeds (f x s) P" "P s"
  shows "succeeds (foldR f xs s) P"
  using assms by (induction xs arbitrary: s) (auto intro!: succeeds_bindR)

lemma foldR_Nil_fun [simp]: "foldR f [] = Inr"
  by (rule ext) simp

lemma seqR_Nil_fun [simp]: "seqR [] = Inr"
  by (rule ext) simp

lemma seqR_append: "seqR (fs @ gs) s = bindR (seqR fs s) (seqR gs)"
  by (induction fs arbitrary: s) (auto simp: bindR_def split: sum.splits)

lemma foldR_append: "foldR f (xs @ ys) s = bindR (foldR f xs s) (foldR f ys)"
  by (induction xs arbitrary: s) (auto simp: bindR_def split: sum.splits)

lemma forR_done [simp]: "\<not> a < b \<Longrightarrow> forR a b f s = Inr s"
  by (simp add: forR.simps [of a b f s])

lemma forR_step: "a < b \<Longrightarrow> forR a b f s = bindR (f a s) (forR (a + 1) b f)"
  by (simp add: forR.simps [of a b f s])

text \<open>
  \<open>safe m P\<close>: the computation returns with \<open>P\<close>, or it waits for a device or spins on
  purpose. It never leaves an array, divides by zero, overflows or runs out of its bound.
\<close>

fun waits :: "trap \<Rightarrow> bool" where
  "waits Blocked = True"
| "waits (Spinning log) = True"
| "waits _ = False"

definition safe :: "'a res \<Rightarrow> ('a \<Rightarrow> bool) \<Rightarrow> bool" where
  "safe m P = (case m of Inl e \<Rightarrow> waits e | Inr x \<Rightarrow> P x)"

lemma safe_Inl [simp]: "safe (Inl e) P = waits e"
  by (simp add: safe_def)

lemma safe_Inr [simp]: "safe (Inr x) P = P x"
  by (simp add: safe_def)

lemma safe_weaken: "safe m P \<Longrightarrow> (\<And>x. P x \<Longrightarrow> Q x) \<Longrightarrow> safe m Q"
  by (cases m) auto

lemma safe_bindR [wp_intros]: "safe m P \<Longrightarrow> (\<And>x. P x \<Longrightarrow> safe (f x) Q) \<Longrightarrow> safe (bindR m f) Q"
  by (cases m) auto

lemma safe_bind_pair:
  "safe m (\<lambda>(v, s). Q s) \<Longrightarrow> (\<And>v s. Q s \<Longrightarrow> safe (f v s) R) \<Longrightarrow> safe (bindR m (\<lambda>(v, s). f v s)) R"
  by (cases m) auto

lemma succeeds_safe: "succeeds m P \<Longrightarrow> safe m P"
  by (cases m) auto

lemma safe_foldR:
  assumes "\<And>x s. x \<in> set xs \<Longrightarrow> P s \<Longrightarrow> safe (f x s) P" "P s"
  shows "safe (foldR f xs s) P"
  using assms by (induction xs arbitrary: s) (auto intro!: safe_bindR)

lemma succeeds_conj: "succeeds m P \<Longrightarrow> succeeds m Q \<Longrightarrow> succeeds m (\<lambda>x. P x \<and> Q x)"
  by (cases m) auto

lemma succeeds_safe_conj: "succeeds m P \<Longrightarrow> safe m Q \<Longrightarrow> succeeds m (\<lambda>x. P x \<and> Q x)"
  by (cases m) auto

text \<open>
  Forward simulation. The specification of an operation is a partial function on abstract
  states: where it is defined, the operation returns, and the states stay related. Then a
  whole sequence of operations follows the specification of the sequence.
\<close>

primrec foldO :: "('x \<Rightarrow> 'a \<Rightarrow> 'a option) \<Rightarrow> 'x list \<Rightarrow> 'a \<Rightarrow> 'a option" where
  "foldO f [] a = Some a"
| "foldO f (x # xs) a = (case f x a of None \<Rightarrow> None | Some a' \<Rightarrow> foldO f xs a')"

lemma foldO_append: "foldO f (xs @ ys) a = (case foldO f xs a of None \<Rightarrow> None | Some a' \<Rightarrow> foldO f ys a')"
  by (induction xs arbitrary: a) (auto split: option.split)

lemma foldO_Some: "foldO (\<lambda>x a. Some (f x a)) xs a = Some (fold f xs a)"
  by (induction xs arbitrary: a) simp_all

locale simulation =
  fixes step :: "'x \<Rightarrow> 's \<Rightarrow> 's res"
    and spec :: "'x \<Rightarrow> 'a \<Rightarrow> 'a option"
    and rel :: "'a \<Rightarrow> 's \<Rightarrow> bool"
  assumes step_sim: "rel a s \<Longrightarrow> spec x a = Some a' \<Longrightarrow> succeeds (step x s) (rel a')"
begin

lemma run_sim: "rel a s \<Longrightarrow> foldO spec xs a = Some a' \<Longrightarrow> succeeds (foldR step xs s) (rel a')"
proof (induction xs arbitrary: a s)
  case (Cons x xs)
  then obtain b where b: "spec x a = Some b" "foldO spec xs b = Some a'" by (auto split: option.splits)
  show ?case using succeeds_bindR [OF step_sim [OF Cons.prems(1) b(1)] Cons.IH [OF _ b(2)]] by simp
qed simp

end

text \<open>The loop rule: an invariant indexed by the loop counter.\<close>

lemma succeeds_forR:
  assumes "\<And>i s. a \<le> i \<Longrightarrow> i < b \<Longrightarrow> I i s \<Longrightarrow> succeeds (f i s) (I (i + 1))"
    and "a \<le> b" and "I a s"
  shows "succeeds (forR a b f s) (I b)"
  using assms
proof (induction a b f s rule: forR.induct)
  case (1 a b f s)
  show ?case
  proof (cases "a < b")
    case True
    have "succeeds (f a s) (I (a + 1))"
      using "1.prems" True by auto
    moreover have "succeeds (forR (a + 1) b f s') (I b)" if "I (a + 1) s'" for s'
      using "1.IH" [OF True, of s'] "1.prems"(1) True that by auto
    ultimately show ?thesis
      using True by (auto simp: forR_step intro: succeeds_bindR)
  next
    case False
    then show ?thesis using "1.prems" by auto
  qed
qed

text \<open>A loop whose steps can only fail with \<open>e\<close>, one of which always does, fails with \<open>e\<close>.\<close>

lemma forR_fails:
  assumes "\<And>i s. f i s = Inl e \<or> (\<exists>s'. f i s = Inr s')"
    and "a \<le> k" "k < b" "\<And>s. f k s = Inl e"
  shows "forR a b f s = Inl e"
  using assms(2)
proof (induction "nat (k - a)" arbitrary: a s)
  case 0
  then show ?case using assms(3,4) by (simp add: forR_step)
next
  case (Suc n)
  have "forR (a + 1) b f s' = Inl e" for s'
    using Suc by (intro Suc.hyps(1)) auto
  moreover have "f a s = Inl e \<or> (\<exists>s'. f a s = Inr s')" by (rule assms(1))
  ultimately show ?case
    using Suc assms(3) by (auto simp: forR_step)
qed

section \<open>Arrays\<close>

text \<open>A fixed-size C array; an index outside it is a trap, as the access is undefined.\<close>

definition buf_read :: "'a list \<Rightarrow> int \<Rightarrow> 'a res" where
  "buf_read xs i = (if 0 \<le> i \<and> i < int (length xs) then Inr (xs ! nat i) else Inl Out_Of_Bounds)"

definition buf_write :: "'a list \<Rightarrow> int \<Rightarrow> 'a \<Rightarrow> 'a list res" where
  "buf_write xs i v =
     (if 0 \<le> i \<and> i < int (length xs) then Inr (xs[nat i := v]) else Inl Out_Of_Bounds)"

lemma buf_read_in [buf_simps]:
  "0 \<le> i \<Longrightarrow> i < int (length xs) \<Longrightarrow> buf_read xs i = Inr (xs ! nat i)"
  by (simp add: buf_read_def)

lemma buf_write_in [buf_simps]:
  "0 \<le> i \<Longrightarrow> i < int (length xs) \<Longrightarrow> buf_write xs i v = Inr (xs[nat i := v])"
  by (simp add: buf_write_def)

lemma buf_read_unat:
  assumes "unat i < length xs"
  shows "buf_read xs (uint i) = Inr (xs ! unat i)"
proof -
  have "uint i < int (length xs)"
    using assms by (metis of_nat_less_iff of_nat_unat)
  then show ?thesis by (simp add: buf_read_def)
qed

lemma buf_read_Inr_iff:
  "buf_read xs i = Inr v \<longleftrightarrow> 0 \<le> i \<and> i < int (length xs) \<and> v = xs ! nat i"
  by (auto simp: buf_read_def)

text \<open>An array shifted down by \<open>w\<close> places, of which the first \<open>n\<close> cells are already copied.\<close>

definition shifted :: "nat \<Rightarrow> 'c list \<Rightarrow> nat \<Rightarrow> 'c list" where
  "shifted w old n = take n (drop w old) @ drop n old"

lemma shifted_step:
  assumes "n + w < length old"
  shows "(shifted w old n)[n := shifted w old n ! (n + w)] = shifted w old (Suc n)"
proof -
  have "shifted w old n ! (n + w) = old ! (n + w)"
    using assms by (simp add: shifted_def nth_append)
  moreover have "take (Suc n) (drop w old) = take n (drop w old) @ [old ! (n + w)]"
    using assms by (simp add: take_Suc_conv_app_nth add.commute)
  moreover have "(drop n old)[0 := old ! (n + w)] = old ! (n + w) # drop (Suc n) old"
    using assms by (cases "drop n old") (simp_all add: drop_Suc drop_tl flip: tl_drop)
  ultimately show ?thesis
    using assms by (simp add: shifted_def list_update_append)
qed

lemma length_shifted [simp]: "n + w \<le> length old \<Longrightarrow> length (shifted w old n) = length old"
  by (simp add: shifted_def)

lemma shifted_0 [simp]: "shifted w old 0 = old"
  by (simp add: shifted_def)

text \<open>
  A local array filled from the front with \<open>buf[i++] = v\<close> is the list of the values
  stored so far; \<open>push_buf\<close> stores the next one in an array of \<open>cap\<close> elements.
\<close>

definition push_buf :: "nat \<Rightarrow> 'a list \<Rightarrow> 'a \<Rightarrow> 'a list res" where
  "push_buf cap buf v = (if length buf < cap then Inr (buf @ [v]) else Inl Out_Of_Bounds)"

lemma push_buf_in [buf_simps]: "length buf < cap \<Longrightarrow> push_buf cap buf v = Inr (buf @ [v])"
  by (simp add: push_buf_def)

section \<open>Signed arithmetic\<close>

definition chk32 :: "int \<Rightarrow> int res" where
  "chk32 x = (if - (2 ^ 31) \<le> x \<and> x < 2 ^ 31 then Inr x else Inl Int_Overflow)"

lemma chk32_in [run_simps]: "- (2 ^ 31) \<le> x \<Longrightarrow> x < 2 ^ 31 \<Longrightarrow> chk32 x = Inr x"
  by (simp add: chk32_def)

section \<open>Port input and output\<close>

text \<open>
  \<open>inb\<close> and \<open>outb\<close> talk to devices outside the program. The bytes the devices will
  answer with, in the order the program asks, are the environment's choice: the list
  \<open>ins\<close>. Every access is recorded in \<open>io_log\<close>, oldest first. A read with no answer
  left blocks.
\<close>

record io_state =
  ins :: "u8 list"
  io_log :: "io_event list"

definition outb :: "u16 \<Rightarrow> u8 \<Rightarrow> 'a io_state_scheme \<Rightarrow> 'a io_state_scheme" where
  "outb port v s = s\<lparr>io_log := io_log s @ [Out port v]\<rparr>"

definition privileged :: "io_event \<Rightarrow> 'a io_state_scheme \<Rightarrow> 'a io_state_scheme" where
  "privileged e s = s\<lparr>io_log := io_log s @ [e]\<rparr>"

definition inb :: "u16 \<Rightarrow> 'a io_state_scheme \<Rightarrow> (u8 \<times> 'a io_state_scheme) res" where
  "inb port s =
     (case ins s of
        [] \<Rightarrow> Inl Blocked
      | v # vs \<Rightarrow> Inr (v, s\<lparr>ins := vs, io_log := io_log s @ [In port v]\<rparr>))"

lemma outb_simps [simp]:
  "ins (outb p v s) = ins s"
  "io_log (outb p v s) = io_log s @ [Out p v]"
  by (simp_all add: outb_def)

lemma privileged_simps [simp]:
  "ins (privileged e s) = ins s"
  "io_log (privileged e s) = io_log s @ [e]"
  by (simp_all add: privileged_def)

lemma inb_Cons:
  "ins s = v # vs \<Longrightarrow> inb p s = Inr (v, s\<lparr>ins := vs, io_log := io_log s @ [In p v]\<rparr>)"
  by (simp add: inb_def)

lemma inb_Nil: "ins s = [] \<Longrightarrow> inb p s = Inl Blocked"
  by (simp add: inb_def)

section \<open>C strings\<close>

text \<open>
  A pointer to \<open>char\<close> that is only read is the list of bytes from the byte it points
  to up to the end of the object. \<open>cstr\<close> is the object of a string literal, with its
  terminating zero byte.
\<close>

definition cstr :: "string \<Rightarrow> u8 list" where
  "cstr t = map of_char t @ [0]"

text \<open>The C string a pointer designates, if the object holds a terminator.\<close>

definition cstring :: "u8 list \<Rightarrow> u8 list" where
  "cstring p = takeWhile (\<lambda>c. c \<noteq> 0) p"

definition terminated :: "u8 list \<Rightarrow> bool" where
  "terminated p \<longleftrightarrow> 0 \<in> set p"

lemma terminated_Nil [simp]: "\<not> terminated []"
  by (simp add: terminated_def)

lemma terminated_Cons [simp]: "terminated (c # p) \<longleftrightarrow> c = 0 \<or> terminated p"
  by (auto simp: terminated_def)

lemma cstring_Nil [simp]: "cstring [] = []"
  by (simp add: cstring_def)

lemma cstring_Cons [simp]: "cstring (c # p) = (if c = 0 then [] else c # cstring p)"
  by (simp add: cstring_def)

lemma terminated_cstr [simp]: "terminated (cstr t)"
  by (simp add: cstr_def terminated_def)

lemma zero_notin_cstring [simp]: "0 \<notin> set (cstring p)"
  by (induction p) auto

lemma cstring_append_zero [simp]: "0 \<notin> set xs \<Longrightarrow> cstring (xs @ 0 # ys) = xs"
  by (induction xs) auto

lemma terminated_append_zero [simp]: "terminated (xs @ 0 # ys)"
  by (simp add: terminated_def)

lemma terminated_split:
  "terminated p \<Longrightarrow> p = cstring p @ 0 # drop (Suc (length (cstring p))) p"
  by (induction p) auto

lemma terminated_length: "terminated p \<Longrightarrow> length (cstring p) < length p"
  by (induction p) auto

lemma cstring_nth_terminated: "terminated p \<Longrightarrow> p ! length (cstring p) = 0"
  by (induction p) auto

lemma of_char_eq_0_iff [simp]: "(of_char c :: u8) = 0 \<longleftrightarrow> c = CHR 0x00"
proof
  assume "(of_char c :: u8) = 0"
  then have "(of_nat (of_char c) :: u8) = 0"
    by (simp add: of_nat_of_char)
  then have "(256::nat) dvd of_char c"
    by (simp add: word_of_nat_eq_0_iff)
  moreover have "(of_char c :: nat) < 256"
    by (rule nat_of_char_less_256)
  ultimately have "(of_char c :: nat) = 0"
    by (metis nat_dvd_not_less gr0I)
  then have "(of_char c :: nat) = of_char (CHR 0x00)"
    by simp
  then show "c = CHR 0x00"
    by (simp only: of_char_eq_iff)
qed simp

lemma cstring_cstr: "CHR 0x00 \<notin> set t \<Longrightarrow> cstring (cstr t) = map of_char t"
  by (induction t) (auto simp: cstr_def)

end
