(* ===== verification/Libc.thy ===== *)
theory Libc
  imports Larch_Prelude "HOL-Library.Signed_Division"
begin

text \<open>
  The freestanding C library: \<^verbatim>\<open>lib/libc/string.c\<close> and \<^verbatim>\<open>lib/math/math.c\<close>. The string
  functions work on objects (lists of bytes from the pointer to the end of the object)
  and trap when they would leave one; \<open>memcpy\<close> and \<open>memset\<close> work on the flat 32-bit
  address space, where source and destination may overlap.
\<close>

section \<open>Strings\<close>

fun strlen :: "u8 list \<Rightarrow> nat res" where
  "strlen [] = Inl Out_Of_Bounds"
| "strlen (c # s) = (if c \<noteq> 0 then bindR (strlen s) (\<lambda>len. Inr (Suc len)) else Inr 0)"

fun strcmp :: "u8 list \<Rightarrow> u8 list \<Rightarrow> int res" where
  "strcmp (a # s1) (b # s2) =
     (if a \<noteq> 0 \<and> a = b then strcmp s1 s2 else Inr (uint a - uint b))"
| "strcmp s1 s2 = Inl Out_Of_Bounds"

text \<open>\<open>strcpy dest src\<close> is the destination object after the copy.\<close>

fun strcpy :: "u8 list \<Rightarrow> u8 list \<Rightarrow> u8 list res" where
  "strcpy (d # dest) (c # src) =
     (if c \<noteq> 0 then bindR (strcpy dest src) (\<lambda>dest'. Inr (c # dest')) else Inr (c # dest))"
| "strcpy dest src = Inl Out_Of_Bounds"

lemma strlen_spec: "strlen p = (if terminated p then Inr (length (cstring p)) else Inl Out_Of_Bounds)"
  by (induction p) auto

lemma strlen_terminated [run_simps]: "terminated p \<Longrightarrow> strlen p = Inr (length (cstring p))"
  by (simp add: strlen_spec)

lemma strcmp_defined: "terminated p \<Longrightarrow> terminated q \<Longrightarrow> \<exists>d. strcmp p q = Inr d"
  by (induction p q rule: strcmp.induct) auto

lemma strcmp_eq_0_iff:
  "terminated p \<Longrightarrow> terminated q \<Longrightarrow> strcmp p q = Inr 0 \<longleftrightarrow> cstring p = cstring q"
  by (induction p q rule: strcmp.induct) (auto split: if_splits simp: word_uint_eq_iff)

lemma strcpy_spec:
  assumes "terminated src" "length (cstring src) < length dest"
  shows "strcpy dest src = Inr (cstring src @ 0 # drop (Suc (length (cstring src))) dest)"
  using assms by (induction dest src rule: strcpy.induct) auto

lemma strcpy_overflow:
  "length dest \<le> length (cstring src) \<Longrightarrow> strcpy dest src = Inl Out_Of_Bounds"
  by (induction dest src rule: strcpy.induct) auto

lemma strcpy_ok:
  assumes "terminated src" "length (cstring src) < length dest"
  shows "succeeds (strcpy dest src)
           (\<lambda>d. length d = length dest \<and> terminated d \<and> cstring d = cstring src)"
  using assms by (simp add: strcpy_spec)

section \<open>Memory blocks\<close>

type_synonym mem = "u32 \<Rightarrow> u8"

definition copy_byte :: "u32 \<Rightarrow> u32 \<Rightarrow> nat \<Rightarrow> mem \<Rightarrow> mem" where
  "copy_byte d s i m = m(d + of_nat i := m (s + of_nat i))"

lemma copy_byte_apply:
  "copy_byte d s i m a = (if a = d + of_nat i then m (s + of_nat i) else m a)"
  by (simp add: copy_byte_def)

definition memcpy :: "mem \<Rightarrow> u32 \<Rightarrow> u32 \<Rightarrow> u32 \<Rightarrow> mem" where
  "memcpy m dest src n = fold (copy_byte dest src) [0..<unat n] m"

text \<open>The \<open>int\<close> argument is converted to \<open>unsigned char\<close>.\<close>

definition set_byte :: "u32 \<Rightarrow> u8 \<Rightarrow> nat \<Rightarrow> mem \<Rightarrow> mem" where
  "set_byte p v i m = m(p + of_nat i := v)"

lemma set_byte_apply: "set_byte p v i m a = (if a = p + of_nat i then v else m a)"
  by (simp add: set_byte_def)

definition memset :: "mem \<Rightarrow> u32 \<Rightarrow> u32 \<Rightarrow> u32 \<Rightarrow> mem" where
  "memset m s c n = fold (set_byte s (ucast c)) [0..<unat n] m"

text \<open>Unsigned integers in memory, little endian.\<close>

definition read16 :: "mem \<Rightarrow> u32 \<Rightarrow> u16" where
  "read16 m a = ucast (m a) OR push_bit 8 (ucast (m (a + 1)))"

definition read32 :: "mem \<Rightarrow> u32 \<Rightarrow> u32" where
  "read32 m a = ucast (m a) OR push_bit 8 (ucast (m (a + 1))) OR
     push_bit 16 (ucast (m (a + 2))) OR push_bit 24 (ucast (m (a + 3)))"

definition read64 :: "mem \<Rightarrow> u32 \<Rightarrow> u64" where
  "read64 m a = ucast (read32 m a) OR push_bit 32 (ucast (read32 m (a + 4)))"

definition write32 :: "u32 \<Rightarrow> u32 \<Rightarrow> mem \<Rightarrow> mem" where
  "write32 a v m = m(a := ucast v, a + 1 := ucast (drop_bit 8 v), a + 2 := ucast (drop_bit 16 v),
     a + 3 := ucast (drop_bit 24 v))"

lemma write32_apply:
  "write32 a v m b = (if b = a + 3 then ucast (drop_bit 24 v) else if b = a + 2 then ucast (drop_bit 16 v)
     else if b = a + 1 then ucast (drop_bit 8 v) else if b = a then ucast v else m b)"
  by (simp add: write32_def)

lemma read32_write32_same [simp]: "read32 (write32 a v m) a = v"
proof -
  let ?w = "(ucast (ucast v :: u8) OR push_bit 8 (ucast (ucast (drop_bit 8 v) :: u8)) OR
    push_bit 16 (ucast (ucast (drop_bit 16 v) :: u8)) OR push_bit 24 (ucast (ucast (drop_bit 24 v) :: u8))) :: u32"
  have "?w = v"
  proof (rule bit_word_eqI)
    fix n
    assume "n < LENGTH(32)"
    then consider "n < 8" | "8 \<le> n" "n < 16" | "16 \<le> n" "n < 24" | "24 \<le> n" "n < 32" by fastforce
    then show "bit ?w n = bit v n" by cases (auto simp: bit_simps)
  qed
  then show ?thesis by (simp add: read32_def write32_apply)
qed

text \<open>The addresses of a block; it may wrap around the top of the address space.\<close>

definition block :: "u32 \<Rightarrow> nat \<Rightarrow> u32 set" where
  "block a n = (\<lambda>i. a + of_nat i) ` {..<n}"

lemma of_nat_inj_u32:
  "i < 2 ^ 32 \<Longrightarrow> j < 2 ^ 32 \<Longrightarrow> (of_nat i :: u32) = of_nat j \<Longrightarrow> i = j"
  by (simp add: word_of_nat_eq_iff take_bit_nat_eq_self)

lemma in_block_Suc: "a \<in> block p (Suc n) \<longleftrightarrow> a \<in> block p n \<or> a = p + of_nat n"
  by (auto simp: block_def lessThan_Suc)

lemma not_in_block: "n < 2 ^ 32 \<Longrightarrow> p + of_nat n \<notin> block p n"
  by (auto simp: block_def dest!: of_nat_inj_u32 [rotated 2])

lemma nth_in_block: "j < n \<Longrightarrow> p + of_nat j \<in> block p n"
  by (auto simp: block_def)

lemma unat_u32_less: "unat (n :: u32) < 2 ^ 32"
  using unsigned_less [of n, where 'a = nat] by simp

lemma write32_frame: "x \<notin> block a 4 \<Longrightarrow> write32 a v m x = m x"
  using nth_in_block [of 0 4 a] nth_in_block [of 1 4 a] nth_in_block [of 2 4 a] nth_in_block [of 3 4 a]
  by (auto simp: write32_apply)

lemma read32_cong:
  assumes "\<And>x. x \<in> block a 4 \<Longrightarrow> m x = m' x"
  shows "read32 m a = read32 m' a"
  using assms [OF nth_in_block [of 0 4 a]] assms [OF nth_in_block [of 1 4 a]]
    assms [OF nth_in_block [of 2 4 a]] assms [OF nth_in_block [of 3 4 a]]
  by (simp add: read32_def)

lemma read32_write32_other: "block a 4 \<inter> block b 4 = {} \<Longrightarrow> read32 (write32 a v m) b = read32 m b"
  by (rule read32_cong) (auto intro: write32_frame)

lemma copy_fold_frame:
  "a \<notin> block d n \<Longrightarrow> fold (copy_byte d s) [0..<n] m a = m a"
  by (induction n) (auto simp: in_block_Suc copy_byte_apply)

lemma copy_fold_inside:
  assumes "block d n \<inter> block s n = {}" "n \<le> 2 ^ 32" "j < n"
  shows "fold (copy_byte d s) [0..<n] m (d + of_nat j) = m (s + of_nat j)"
  using assms
proof (induction n)
  case (Suc n)
  have IH: "fold (copy_byte d s) [0..<n] m (d + of_nat j) = m (s + of_nat j)"
    if "j < n"
    using Suc that by (auto simp: disjoint_iff in_block_Suc)
  have "s + of_nat n \<notin> block d n"
    using Suc.prems(1) by (auto simp: disjoint_iff in_block_Suc)
  moreover have "d + of_nat j \<noteq> d + of_nat n" if "j < n"
    using not_in_block [of n d] nth_in_block [OF that, of d] Suc.prems(2) by auto
  ultimately show ?case
    using IH Suc.prems(3) by (cases "j = n") (auto simp: copy_fold_frame copy_byte_apply [of d s n])
qed simp

lemma memcpy_frame: "a \<notin> block d (unat n) \<Longrightarrow> memcpy m d s n a = m a"
  by (simp add: memcpy_def copy_fold_frame)

lemma memcpy_inside:
  assumes "block d (unat n) \<inter> block s (unat n) = {}" "j < unat n"
  shows "memcpy m d s n (d + of_nat j) = m (s + of_nat j)"
  using copy_fold_inside [OF assms(1) _ assms(2)] unat_u32_less [of n] by (simp add: memcpy_def)

lemma set_fold_spec:
  "fold (set_byte p v) [0..<n] m a = (if a \<in> block p n then v else m a)"
  by (induction n) (auto simp: in_block_Suc set_byte_apply, simp add: block_def)

lemma memset_spec: "memset m p c n a = (if a \<in> block p (unat n) then ucast c else m a)"
  by (simp add: memset_def set_fold_spec)

section \<open>Arithmetic helpers\<close>

text \<open>Signed \<open>int\<close> and \<open>long\<close> arguments are integers in the 32-bit range.\<close>

definition abs_c :: "int \<Rightarrow> int res" where
  "abs_c x = (if x < 0 then chk32 (- x) else Inr x)"

definition labs :: "int \<Rightarrow> int res" where
  "labs x = (if x < 0 then chk32 (- x) else Inr x)"

definition min_c :: "int \<Rightarrow> int \<Rightarrow> int" where
  "min_c a b = (if a < b then a else b)"

definition max_c :: "int \<Rightarrow> int \<Rightarrow> int" where
  "max_c a b = (if a > b then a else b)"

function pow_loop :: "u32 \<Rightarrow> u32 \<Rightarrow> u32 \<Rightarrow> u32" where
  "pow_loop result base ex =
     (if ex \<noteq> 0
      then pow_loop (if ex AND 1 \<noteq> 0 then result * base else result) (base * base) (drop_bit 1 ex)
      else result)"
  by pat_completeness auto
termination
  by (relation "measure (\<lambda>(result, base, ex). unat ex)")
     (simp_all add: drop_bit_eq_div unat_div_distrib unat_gt_0)

declare pow_loop.simps [simp del]

definition pow_u32 :: "u32 \<Rightarrow> u32 \<Rightarrow> u32" where
  "pow_u32 base ex = pow_loop 1 base ex"

definition div_round_up :: "int \<Rightarrow> int \<Rightarrow> int res" where
  "div_round_up a b =
     bindR (chk32 (a + b)) (\<lambda>t.
     bindR (chk32 (t - 1)) (\<lambda>u.
     if b = 0 then Inl Divide_Error else chk32 (u sdiv b)))"

definition is_power_of_two :: "u32 \<Rightarrow> bool" where
  "is_power_of_two x \<longleftrightarrow> x \<noteq> 0 \<and> x AND (x - 1) = 0"

lemma pow_loop_eq: "pow_loop r b e = r * b ^ unat e"
proof (induction r b e rule: pow_loop.induct)
  case (1 r b e)
  show ?case
  proof (cases "e = 0")
    case False
    have half: "unat (drop_bit 1 e) = unat e div 2"
      by (simp add: drop_bit_eq_div unat_div_distrib)
    have odd: "e AND 1 \<noteq> 0 \<longleftrightarrow> odd (unat e)"
      by (simp add: and_one_eq odd_iff_mod_2_eq_one unat_mod_distrib word_unat_eq_iff)
    have "pow_loop r b e = (if odd (unat e) then r * b else r) * (b * b) ^ (unat e div 2)"
      using "1.IH" [OF False] False odd half by (simp add: pow_loop.simps [of r b e])
    also have "\<dots> = r * b ^ unat e"
    proof (cases "odd (unat e)")
      case True
      then have "b ^ unat e = b * (b * b) ^ (unat e div 2)"
        by (metis odd_two_times_div_two_succ power2_eq_square power_Suc power_mult add.commute plus_1_eq_Suc)
      with True show ?thesis by (simp add: algebra_simps)
    next
      case even: False
      then have "b ^ unat e = (b * b) ^ (unat e div 2)"
        by (metis even_two_times_div_two power2_eq_square power_mult)
      with even show ?thesis by simp
    qed
    finally show ?thesis .
  qed (simp add: pow_loop.simps [of r b 0])
qed

lemma and_pred_eq_0_iff_nat: "0 < n \<Longrightarrow> n AND (n - 1) = 0 \<longleftrightarrow> (\<exists>k. n = 2 ^ k)" for n :: nat
proof (induction n rule: less_induct)
  case (less n)
  show ?case
  proof (cases "odd n")
    case True
    then have "n AND (n - 1) = 2 * (n div 2)"
      by (subst and_rec) (auto simp: elim!: oddE)
    moreover have "(\<exists>k. n = 2 ^ k) \<longleftrightarrow> n = 1"
      using True by (metis even_power odd_one power_0 even_numeral gr0I dvd_refl)
    ultimately show ?thesis
      using True by (auto elim!: oddE)
  next
    case False
    then obtain m where m: "n = 2 * m" by (auto elim: evenE)
    with less.prems have "0 < m" "m < n" by auto
    have "(2 * m - 1) div 2 = m - 1"
      using \<open>0 < m\<close> by arith
    then have "n AND (n - 1) = 2 * (m AND (m - 1))"
      using m \<open>0 < m\<close> by (subst and_rec) auto
    moreover have "(\<exists>k. n = 2 ^ k) \<longleftrightarrow> (\<exists>k. m = 2 ^ k)"
    proof
      assume "\<exists>k. n = 2 ^ k"
      then obtain k where k: "2 * m = 2 ^ k" using m by auto
      then have "k \<noteq> 0" by (intro notI) auto
      with k show "\<exists>k. m = 2 ^ k" by (cases k) auto
    next
      assume "\<exists>k. m = 2 ^ k"
      then show "\<exists>k. n = 2 ^ k" using m by (metis power_Suc)
    qed
    ultimately show ?thesis
      using less.IH [OF \<open>m < n\<close> \<open>0 < m\<close>] by simp
  qed
qed

lemma is_power_of_two_unat: "is_power_of_two x \<longleftrightarrow> (\<exists>k. unat x = 2 ^ k)"
proof (cases "x = 0")
  case False
  have "x AND (x - 1) = 0 \<longleftrightarrow> unat x AND (unat x - 1) = 0"
    using False by (simp add: word_unat_eq_iff unsigned_and_eq unat_minus_one)
  then show ?thesis
    using False and_pred_eq_0_iff_nat [of "unat x"] by (simp add: is_power_of_two_def unat_gt_0)
qed (simp add: is_power_of_two_def)

lemma sdiv_nonneg: "0 \<le> a \<Longrightarrow> 0 < b \<Longrightarrow> a sdiv b = a div b" for a b :: int
  by (simp add: signed_divide_int_def sgn_if)

section \<open>Properties\<close>

text \<open>
  \<open>strcpy\<close> is exactly as safe as the destination is long: on a terminated source it
  returns if and only if the destination has room for the string and its terminator;
  then the destination holds the source's string and the bytes behind the terminator
  are untouched, and otherwise it writes outside the destination.
\<close>

theorem strcpy_correct:
  assumes "terminated src"
  shows "strcpy dest src =
    (if length (cstring src) < length dest
     then Inr (cstring src @ 0 # drop (Suc (length (cstring src))) dest)
     else Inl Out_Of_Bounds)"
  using assms by (simp add: strcpy_spec strcpy_overflow)

theorem strcpy_correct_witness:
  "strcpy [7, 7, 7, 7] (cstr ''ls'') =
    (if length (cstring (cstr ''ls'')) < length ([7, 7, 7, 7] :: u8 list)
     then Inr (cstring (cstr ''ls'') @ 0 # drop (Suc (length (cstring (cstr ''ls'')))) [7, 7, 7, 7])
     else Inl Out_Of_Bounds)"
  by (rule strcpy_correct) simp

text \<open>
  \<open>strcmp\<close> on two terminated strings always returns, and it returns zero exactly
  when the strings are equal.
\<close>

theorem strcmp_correct:
  assumes "terminated p" "terminated q"
  shows "\<exists>d. strcmp p q = Inr d \<and> (d = 0 \<longleftrightarrow> cstring p = cstring q)"
  using strcmp_defined [OF assms] strcmp_eq_0_iff [OF assms] by auto

theorem strcmp_correct_witness:
  "\<exists>d. strcmp (cstr ''mem'') (cstr ''me'') = Inr d \<and>
     (d = 0 \<longleftrightarrow> cstring (cstr ''mem'') = cstring (cstr ''me''))"
  by (rule strcmp_correct) simp_all

text \<open>
  \<open>memcpy\<close> between blocks that do not overlap: every byte of the destination block
  becomes the source's byte, every other byte of the address space is unchanged.
\<close>

theorem memcpy_correct:
  assumes "block dest (unat n) \<inter> block src (unat n) = {}"
  shows "memcpy m dest src n a = (if a \<in> block dest (unat n) then m (src + (a - dest)) else m a)"
proof (cases "a \<in> block dest (unat n)")
  case True
  then obtain j where "j < unat n" "a = dest + of_nat j" by (auto simp: block_def)
  then show ?thesis
    using memcpy_inside [OF assms] True by simp
qed (simp add: memcpy_frame)

theorem memcpy_correct_witness:
  "memcpy (\<lambda>a. ucast a) 0x2000 0x1000 2 0x2001 =
     (if (0x2001 :: u32) \<in> block 0x2000 (unat (2 :: u32)) then ucast ((0x1000 :: u32) + (0x2001 - 0x2000)) else ucast (0x2001 :: u32))"
  by (rule memcpy_correct) (simp add: block_def lessThan_nat_numeral lessThan_Suc)

text \<open>
  \<open>pow_u32\<close>, square and multiply, computes the power modulo \<open>2 ^ 32\<close> for every
  base and exponent.
\<close>

theorem pow_u32_correct: "unat (pow_u32 base ex) = unat base ^ unat ex mod 2 ^ 32"
proof -
  have "pow_u32 base ex = of_nat (unat base ^ unat ex)"
    by (simp add: pow_u32_def pow_loop_eq)
  then show ?thesis
    by (simp add: unat_of_nat del: of_nat_power)
qed

text \<open>\<open>is_power_of_two\<close> recognises exactly the thirty-two powers of two of a word.\<close>

theorem is_power_of_two_correct: "is_power_of_two x \<longleftrightarrow> (\<exists>k < 32. x = 2 ^ k)"
proof
  assume "is_power_of_two x"
  then obtain k where k: "unat x = 2 ^ k" by (auto simp: is_power_of_two_unat)
  then have "(2 :: nat) ^ k < 2 ^ 32" using unat_u32_less [of x] by simp
  then have "k < 32" by (rule power_less_imp_less_exp [rotated]) simp
  moreover have "x = 2 ^ k" using k by (metis of_nat_unat ucast_id of_nat_power of_nat_numeral)
  ultimately show "\<exists>k < 32. x = 2 ^ k" by blast
next
  assume "\<exists>k < 32. x = 2 ^ k"
  then obtain k where k: "k < 32" "x = 2 ^ k" by blast
  have "unat (of_nat (2 ^ k) :: u32) = 2 ^ k"
    using k(1) by (intro unat_of_nat_u32 power_strict_increasing) simp_all
  then have "unat x = 2 ^ k" using k(2) by simp
  then show "is_power_of_two x" by (auto simp: is_power_of_two_unat)
qed

text \<open>
  \<open>div_round_up\<close> rounds up for a non-negative dividend and a positive divisor: it
  returns when the intermediate sum fits an \<open>int\<close>, and then its result is the
  least number of pieces of size \<open>b\<close> that cover \<open>a\<close>.
\<close>

theorem div_round_up_correct:
  assumes "0 \<le> a" "0 < b" "a + b < 2 ^ 31"
  shows "\<exists>q. div_round_up a b = Inr q \<and> a \<le> q * b \<and> (\<forall>q'. a \<le> q' * b \<longrightarrow> q \<le> q')"
proof -
  let ?q = "(a + b - 1) div b"
  have "0 \<le> ?q" using assms by (simp add: pos_imp_zdiv_nonneg_iff)
  moreover have "?q \<le> a + b - 1"
    using assms zdiv_mono2 [of "a + b - 1" 1 b] by simp
  ultimately have "div_round_up a b = Inr ?q"
    using assms by (simp add: div_round_up_def chk32_def sdiv_nonneg)
  moreover have "a \<le> ?q * b"
    using assms(2) pos_mod_bound [of b "a + b - 1"] minus_mod_eq_div_mult [of "a + b - 1" b] by linarith
  moreover have "?q \<le> q'" if "a \<le> q' * b" for q'
  proof -
    have "?q * b \<le> a + b - 1"
      using assms(2) pos_mod_sign [of b "a + b - 1"] minus_mod_eq_div_mult [of "a + b - 1" b] by linarith
    then have "?q * b < (q' + 1) * b" using that by (simp add: algebra_simps)
    then show ?thesis using assms(2) by (simp add: mult_less_cancel_right_pos)
  qed
  ultimately show ?thesis by blast
qed

theorem div_round_up_correct_witness:
  "\<exists>q. div_round_up 4097 4096 = Inr q \<and> 4097 \<le> q * 4096 \<and> (\<forall>q'. 4097 \<le> q' * 4096 \<longrightarrow> q \<le> q')"
  by (rule div_round_up_correct) simp_all

end
