(* ===== verification/Cells.thy ===== *)
theory Cells
  imports Larch_Prelude
begin

text \<open>
  The loops that text drivers run over their array of cells, for any state that has such an
  array: filling a range with one value and moving every row up by one. The interface is a
  field that can be read and replaced; the drivers \<^verbatim>\<open>vga_scroll.c\<close> and \<^verbatim>\<open>terminal.rs\<close> provide it.
\<close>

locale cell_array =
  fixes cells :: "'s \<Rightarrow> 'c list"
    and put :: "'c list \<Rightarrow> 's \<Rightarrow> 's"
  assumes cells_put [simp]: "cells (put b s) = b"
    and put_put [simp]: "put b (put b' s) = put b s"
    and put_cells [simp]: "put (cells s) s = s"
begin

lemma fill_step:
  assumes "a + i < length b"
  shows "(take a b @ replicate i v @ drop (a + i) b)[a + i := v] =
         take a b @ replicate (Suc i) v @ drop (Suc (a + i)) b"
  using assms
  by (subst upd_conv_take_nth_drop) (simp_all add: replicate_append_same)

text \<open>A loop that stores the same value in consecutive cells.\<close>

lemma fill_loop:
  assumes "0 \<le> a" "0 \<le> n" "a + n \<le> int (length (cells s))" and v: "\<And>b. v (put b s) = v s"
  shows "forR 0 n (\<lambda>i s. bindR (buf_write (cells s) (a + i) (v s)) (\<lambda>b. Inr (put b s))) s =
    Inr (put (take (nat a) (cells s) @ replicate (nat n) (v s) @ drop (nat (a + n)) (cells s)) s)"
proof -
  let ?b = "\<lambda>i. take (nat a) (cells s) @ replicate (nat i) (v s) @ drop (nat (a + i)) (cells s)"
  have step: "(?b i)[nat (a + i) := v s] = ?b (i + 1)" if "0 \<le> i" "i < n" for i
    using that assms fill_step [of "nat a" "nat i" "cells s" "v s"] by (simp add: nat_add_distrib)
  have "succeeds (forR 0 n (\<lambda>i s. bindR (buf_write (cells s) (a + i) (v s)) (\<lambda>b. Inr (put b s))) s)
          (\<lambda>s'. s' = put (?b n) s)"
  proof (rule succeeds_forR [where I = "\<lambda>i s'. s' = put (?b i) s"])
    fix i s' assume "0 \<le> i" "i < n" "s' = put (?b i) s"
    then show "succeeds (bindR (buf_write (cells s') (a + i) (v s')) (\<lambda>b. Inr (put b s'))) (\<lambda>s'. s' = put (?b (i + 1)) s)"
      using assms step [of i] by (simp add: buf_simps)
  qed (use assms in auto)
  then show ?thesis by (auto simp: succeeds_iff)
qed

lemma shift_row:
  assumes "length old = nat (h * w)" "1 \<le> y" "y < h" "0 < w" and s': "s' = put (shifted (nat w) old (nat ((y - 1) * w))) s"
  shows "succeeds (forR 0 w (\<lambda>x s. bindR (buf_read (cells s) (y * w + x)) (\<lambda>v.
              bindR (buf_write (cells s) ((y - 1) * w + x) v) (\<lambda>b. Inr (put b s)))) s')
           (\<lambda>s'. s' = put (shifted (nat w) old (nat (y * w))) s)"
proof -
  let ?I = "\<lambda>x s'. s' = put (shifted (nat w) old (nat ((y - 1) * w + x))) s"
  have "succeeds (bindR (buf_read (cells t) (y * w + x)) (\<lambda>v.
              bindR (buf_write (cells t) ((y - 1) * w + x) v) (\<lambda>b. Inr (put b t)))) (?I (x + 1))"
    if x: "0 \<le> x" "x < w" "?I x t" for x t
  proof -
    define a where "a = (y - 1) * w"
    have "(y + 1) * w \<le> h * w" using assms by (intro mult_right_mono) simp_all
    then have a: "0 \<le> a" "a + w + w \<le> h * w" "y * w = a + w"
      using assms by (simp_all add: algebra_simps a_def)
    then have i: "0 \<le> (y - 1) * w + x" "y * w + x < h * w" "y * w + x = (y - 1) * w + x + w"
      using x unfolding a_def by linarith+
    have n: "nat ((y - 1) * w + x) + nat w < length old" "nat (y * w + x) = nat ((y - 1) * w + x) + nat w"
      "nat ((y - 1) * w + (x + 1)) = Suc (nat ((y - 1) * w + x))"
      using i(1) x a assms(1,4) unfolding a(3) a_def [symmetric] by linarith+
    then have "length (shifted (nat w) old (nat ((y - 1) * w + x))) = nat (h * w)" using assms(1) by simp
    then show ?thesis
      using x i n shifted_step [OF n(1)] assms(1) by (simp add: buf_simps)
  qed
  then have "succeeds (forR 0 w (\<lambda>x s. bindR (buf_read (cells s) (y * w + x)) (\<lambda>v.
              bindR (buf_write (cells s) ((y - 1) * w + x) v) (\<lambda>b. Inr (put b s)))) s') (?I w)"
    using s' assms(4) by (intro succeeds_forR) auto
  then show ?thesis by (simp add: algebra_simps)
qed

text \<open>Moving the rows \<open>1, \<dots>, h - 1\<close> up by one.\<close>

lemma shift_loop:
  assumes "length (cells s) = nat (h * w)" "1 \<le> h" "0 < w"
  shows "forR 1 h (\<lambda>y. forR 0 w (\<lambda>x s. bindR (buf_read (cells s) (y * w + x)) (\<lambda>v.
              bindR (buf_write (cells s) ((y - 1) * w + x) v) (\<lambda>b. Inr (put b s))))) s =
    Inr (put (shifted (nat w) (cells s) (nat ((h - 1) * w))) s)"
proof -
  let ?I = "\<lambda>y s'. s' = put (shifted (nat w) (cells s) (nat ((y - 1) * w))) s"
  have "succeeds (forR 1 h (\<lambda>y. forR 0 w (\<lambda>x s. bindR (buf_read (cells s) (y * w + x)) (\<lambda>v.
              bindR (buf_write (cells s) ((y - 1) * w + x) v) (\<lambda>b. Inr (put b s))))) s) (?I h)"
  proof (rule succeeds_forR [where I = ?I])
    fix y s' assume "1 \<le> y" "y < h" "?I y s'"
    then show "succeeds (forR 0 w (\<lambda>x s. bindR (buf_read (cells s) (y * w + x)) (\<lambda>v.
              bindR (buf_write (cells s) ((y - 1) * w + x) v) (\<lambda>b. Inr (put b s)))) s') (?I (y + 1))"
      using shift_row [OF assms(1), of y s' s] assms(3) by simp
  qed (use assms in simp_all)
  then show ?thesis by (auto simp: succeeds_iff)
qed

text \<open>Together they scroll by one row.\<close>

lemma scroll_rows:
  assumes "length (cells s) = nat (h * w)" "1 \<le> h" "0 < w" and v: "\<And>b. v (put b s) = v s"
  shows "bindR (forR 1 h (\<lambda>y. forR 0 w (\<lambda>x s. bindR (buf_read (cells s) (y * w + x)) (\<lambda>v.
              bindR (buf_write (cells s) ((y - 1) * w + x) v) (\<lambda>b. Inr (put b s))))) s)
           (forR 0 w (\<lambda>x s. bindR (buf_write (cells s) ((h - 1) * w + x) (v s)) (\<lambda>b. Inr (put b s)))) =
    Inr (put (drop (nat w) (cells s) @ replicate (nat w) (v s)) s)"
proof -
  let ?m = "nat ((h - 1) * w)"
  have m: "0 \<le> (h - 1) * w" "(h - 1) * w + w = h * w" using assms by (simp_all add: algebra_simps)
  have n: "?m + nat w = nat (h * w)" unfolding m(2) [symmetric] using m(1) assms(3) by (intro nat_add_distrib [symmetric]) simp_all
  let ?c = "shifted (nat w) (cells s) ?m"
  have len: "length ?c = nat (h * w)" "?m + nat w = length (cells s)" using assms(1) n by simp_all
  have c: "take ?m ?c = drop (nat w) (cells s)" using len(2) by (simp add: shifted_def)
  have d: "drop (nat (h * w)) ?c = []" using len(1) by simp
  have "(h - 1) * w + w \<le> int (length ?c)" using m assms(3) unfolding len(1) by simp
  then show ?thesis
    unfolding shift_loop [OF assms(1-3)]
    using fill_loop [of "(h - 1) * w" w "put ?c s" v] m(1) assms(3) v unfolding m(2) by (simp add: c d)
qed

lemma scroll_rows_then:
  assumes "length (cells s) = nat (h * w)" "1 \<le> h" "0 < w" "\<And>b. v (put b s) = v s"
  shows "bindR (forR 1 h (\<lambda>y. forR 0 w (\<lambda>x s. bindR (buf_read (cells s) (y * w + x)) (\<lambda>v.
              bindR (buf_write (cells s) ((y - 1) * w + x) v) (\<lambda>b. Inr (put b s))))) s) (\<lambda>s.
         bindR (forR 0 w (\<lambda>x s. bindR (buf_write (cells s) ((h - 1) * w + x) (v s)) (\<lambda>b. Inr (put b s))) s) g) =
    g (put (drop (nat w) (cells s) @ replicate (nat w) (v s)) s)"
  by (subst bindR_assoc [symmetric]) (simp only: scroll_rows [OF assms] bindR_Inr)

end

end
