(* ===== verification/Vga.thy ===== *)
theory Vga
  imports Cells
begin

text \<open>
  The VGA text console of \<^verbatim>\<open>kernel/drivers/vga_scroll.c\<close>: the 80x25 cell buffer, the
  software cursor, the current colour and the port writes that move the hardware cursor.
  The console refines an unbounded document of rows (\<open>tty\<close>) of which the screen shows
  the last twenty-five.
\<close>

section \<open>State and operations\<close>

abbreviation VGA_WIDTH :: int where "VGA_WIDTH \<equiv> 80"
abbreviation VGA_HEIGHT :: int where "VGA_HEIGHT \<equiv> 25"

record vga_state = io_state +
  vga_buffer :: "u16 list"
  cursor_x :: int
  cursor_y :: int
  current_color :: u8

definition vga_set_color :: "u8 \<Rightarrow> u8 \<Rightarrow> 'a vga_state_scheme \<Rightarrow> 'a vga_state_scheme" where
  "vga_set_color fg bg s = s\<lparr>current_color := push_bit 4 bg OR fg\<rparr>"

text \<open>\<open>' ' | (current_color << 8)\<close> and \<open>c | (current_color << 8)\<close>, stored in 16 bits; the
  \<open>char\<close> operand is promoted with its sign.\<close>

definition blank_cell :: "u8 \<Rightarrow> u16" where
  "blank_cell color = 0x20 OR push_bit 8 (ucast color)"

definition char_cell :: "u8 \<Rightarrow> u8 \<Rightarrow> u16" where
  "char_cell c color = scast c OR push_bit 8 (ucast color)"

definition vga_set_cell :: "int \<Rightarrow> u16 \<Rightarrow> 'a vga_state_scheme \<Rightarrow> 'a vga_state_scheme res" where
  "vga_set_cell i v s = bindR (buf_write (vga_buffer s) i v) (\<lambda>b. Inr (s\<lparr>vga_buffer := b\<rparr>))"

definition vga_scroll :: "'a vga_state_scheme \<Rightarrow> 'a vga_state_scheme res" where
  "vga_scroll s =
     bindR (forR 1 VGA_HEIGHT (\<lambda>y. forR 0 VGA_WIDTH (\<lambda>x s.
              bindR (buf_read (vga_buffer s) (y * VGA_WIDTH + x)) (\<lambda>v.
              vga_set_cell ((y - 1) * VGA_WIDTH + x) v s))) s) (\<lambda>s.
     bindR (forR 0 VGA_WIDTH (\<lambda>x s.
              vga_set_cell ((VGA_HEIGHT - 1) * VGA_WIDTH + x) (blank_cell (current_color s)) s) s) (\<lambda>s.
     Inr (s\<lparr>cursor_y := VGA_HEIGHT - 1\<rparr>)))"

text \<open>The three parts of \<open>vga_putchar\<close>: the character, the wrap and scroll, the cursor ports.\<close>

definition vga_put_glyph :: "u8 \<Rightarrow> 'a vga_state_scheme \<Rightarrow> 'a vga_state_scheme res" where
  "vga_put_glyph c s =
     (if c = 10 then Inr (s\<lparr>cursor_x := 0, cursor_y := cursor_y s + 1\<rparr>)
      else if c = 13 then Inr (s\<lparr>cursor_x := 0\<rparr>)
      else if c = 8 then
        (if cursor_x s > 0
         then let s = s\<lparr>cursor_x := cursor_x s - 1\<rparr> in
              vga_set_cell (cursor_y s * VGA_WIDTH + cursor_x s) (blank_cell (current_color s)) s
         else Inr s)
      else bindR (vga_set_cell (cursor_y s * VGA_WIDTH + cursor_x s) (char_cell c (current_color s)) s)
             (\<lambda>s. Inr (s\<lparr>cursor_x := cursor_x s + 1\<rparr>)))"

definition vga_wrap :: "'a vga_state_scheme \<Rightarrow> 'a vga_state_scheme" where
  "vga_wrap s =
     (if cursor_x s \<ge> VGA_WIDTH then s\<lparr>cursor_x := 0, cursor_y := cursor_y s + 1\<rparr> else s)"

definition vga_move_cursor :: "'a vga_state_scheme \<Rightarrow> 'a vga_state_scheme" where
  "vga_move_cursor s =
     (let pos = (word_of_int (cursor_y s * VGA_WIDTH + cursor_x s) :: u16) in
      outb 0x3D5 (ucast (drop_bit 8 pos)) (outb 0x3D4 0x0E
        (outb 0x3D5 (ucast (pos AND 0xFF)) (outb 0x3D4 0x0F s))))"

definition vga_putchar :: "u8 \<Rightarrow> 'a vga_state_scheme \<Rightarrow> 'a vga_state_scheme res" where
  "vga_putchar c s =
     bindR (vga_put_glyph c s) (\<lambda>s.
     let s = vga_wrap s in
     bindR (if cursor_y s \<ge> VGA_HEIGHT then vga_scroll s else Inr s) (\<lambda>s.
     Inr (vga_move_cursor s)))"

fun vga_writestring :: "u8 list \<Rightarrow> 'a vga_state_scheme \<Rightarrow> 'a vga_state_scheme res" where
  "vga_writestring [] s = Inl Out_Of_Bounds"
| "vga_writestring (c # str) s =
     (if c \<noteq> 0 then bindR (vga_putchar c s) (vga_writestring str) else Inr s)"

definition vga_clear :: "'a vga_state_scheme \<Rightarrow> 'a vga_state_scheme res" where
  "vga_clear s =
     bindR (forR 0 (VGA_WIDTH * VGA_HEIGHT) (\<lambda>i s.
              vga_set_cell i (blank_cell (current_color s)) s) s) (\<lambda>s.
     Inr (s\<lparr>cursor_x := 0, cursor_y := 0\<rparr>))"

definition vga_init :: "'a vga_state_scheme \<Rightarrow> 'a vga_state_scheme res" where
  "vga_init s = bindR (vga_clear s) (\<lambda>s. Inr (vga_set_color 0x0F 0x00 s))"

section \<open>Well-formed states\<close>

definition vga_wf :: "'a vga_state_scheme \<Rightarrow> bool" where
  "vga_wf s \<longleftrightarrow> length (vga_buffer s) = 2000 \<and>
     0 \<le> cursor_x s \<and> cursor_x s < VGA_WIDTH \<and> 0 \<le> cursor_y s \<and> cursor_y s < VGA_HEIGHT"

lemma vga_set_cell_in [run_simps]:
  "0 \<le> i \<Longrightarrow> i < int (length (vga_buffer s)) \<Longrightarrow>
   vga_set_cell i v s = Inr (s\<lparr>vga_buffer := (vga_buffer s)[nat i := v]\<rparr>)"
  by (simp add: vga_set_cell_def buf_simps)

lemma vga_move_cursor_simps [simp]:
  "vga_buffer (vga_move_cursor s) = vga_buffer s"
  "cursor_x (vga_move_cursor s) = cursor_x s"
  "cursor_y (vga_move_cursor s) = cursor_y s"
  "current_color (vga_move_cursor s) = current_color s"
  "ins (vga_move_cursor s) = ins s"
  "vga_state.more (vga_move_cursor s) = vga_state.more s"
  by (simp_all add: vga_move_cursor_def outb_def Let_def)

subsection \<open>Scrolling and clearing in closed form\<close>

interpretation screen: cell_array vga_buffer "\<lambda>b s. s\<lparr>vga_buffer := b\<rparr>"
  by unfold_locales simp_all

lemma vga_scroll_eq:
  assumes "length (vga_buffer s) = 2000"
  shows "vga_scroll s = Inr (s\<lparr>vga_buffer := drop 80 (vga_buffer s) @ replicate 80 (blank_cell (current_color s)),
                               cursor_y := 24\<rparr>)"
  unfolding vga_scroll_def vga_set_cell_def
  using assms by (subst screen.scroll_rows_then) simp_all

lemma vga_clear_eq:
  assumes "length (vga_buffer s) = 2000"
  shows "vga_clear s = Inr (s\<lparr>vga_buffer := replicate 2000 (blank_cell (current_color s)),
                              cursor_x := 0, cursor_y := 0\<rparr>)"
  using assms screen.fill_loop [of 0 2000 s "\<lambda>s. blank_cell (current_color s)"]
  by (simp add: vga_clear_def vga_set_cell_def)


subsection \<open>Safety\<close>

definition vga_settle :: "'a vga_state_scheme \<Rightarrow> 'a vga_state_scheme" where
  "vga_settle s =
     (let s = vga_wrap s in
      if cursor_y s \<ge> VGA_HEIGHT
      then s\<lparr>vga_buffer := drop 80 (vga_buffer s) @ replicate 80 (blank_cell (current_color s)),
             cursor_y := 24\<rparr>
      else s)"

lemma vga_wrap_buffer [simp]:
  "vga_buffer (vga_wrap s) = vga_buffer s" "current_color (vga_wrap s) = current_color s"
  by (simp_all add: vga_wrap_def)

lemma vga_putchar_settle:
  assumes "vga_put_glyph c s = Inr s1" "length (vga_buffer s1) = 2000"
  shows "vga_putchar c s = Inr (vga_move_cursor (vga_settle s1))"
  using assms by (simp add: vga_putchar_def vga_settle_def Let_def vga_scroll_eq)

lemma cell_index:
  assumes "vga_wf s"
  shows "0 \<le> cursor_y s * VGA_WIDTH + cursor_x s"
    and "cursor_y s * VGA_WIDTH + cursor_x s < int (length (vga_buffer s))"
  using assms by (auto simp: vga_wf_def)

lemma vga_put_glyph_wf:
  assumes "vga_wf s"
  obtains s1 where "vga_put_glyph c s = Inr s1" "length (vga_buffer s1) = 2000"
    "0 \<le> cursor_x s1" "cursor_x s1 \<le> 80" "0 \<le> cursor_y s1" "cursor_y s1 \<le> 25"
    "cursor_y s1 = 25 \<Longrightarrow> cursor_x s1 = 0"
    "current_color s1 = current_color s" "ins s1 = ins s" "io_log s1 = io_log s"
    "vga_state.more s1 = vga_state.more s"
proof -
  have "succeeds (vga_put_glyph c s) (\<lambda>s1. length (vga_buffer s1) = 2000 \<and>
    0 \<le> cursor_x s1 \<and> cursor_x s1 \<le> 80 \<and> 0 \<le> cursor_y s1 \<and> cursor_y s1 \<le> 25 \<and>
    (cursor_y s1 = 25 \<longrightarrow> cursor_x s1 = 0) \<and>
    current_color s1 = current_color s \<and> ins s1 = ins s \<and> io_log s1 = io_log s \<and>
    vga_state.more s1 = vga_state.more s)"
    using assms cell_index [OF assms]
    by (auto simp: vga_put_glyph_def Let_def run_simps vga_wf_def)
  then show ?thesis
    using that by (auto simp: succeeds_iff)
qed

lemma vga_settle_simps [simp]:
  "current_color (vga_settle s) = current_color s" "ins (vga_settle s) = ins s"
  "io_log (vga_settle s) = io_log s" "vga_state.more (vga_settle s) = vga_state.more s"
  by (simp_all add: vga_settle_def vga_wrap_def Let_def)

lemma vga_settle_wf:
  assumes "length (vga_buffer s) = 2000" "0 \<le> cursor_x s" "cursor_x s \<le> 80"
    and "0 \<le> cursor_y s" "cursor_y s \<le> 25"
  shows "vga_wf (vga_settle s)"
  using assms by (auto simp: vga_settle_def vga_wrap_def vga_wf_def Let_def)

lemma vga_wf_move_cursor [simp]: "vga_wf (vga_move_cursor s) = vga_wf s"
  by (simp add: vga_wf_def)

lemma vga_putchar_wf:
  assumes "vga_wf s"
  shows "succeeds (vga_putchar c s) (\<lambda>s'. vga_wf s' \<and> current_color s' = current_color s \<and>
           ins s' = ins s \<and> vga_state.more s' = vga_state.more s)"
proof (rule vga_put_glyph_wf [OF assms, of c])
  fix s1
  assume s1: "vga_put_glyph c s = Inr s1" "length (vga_buffer s1) = 2000"
    "0 \<le> cursor_x s1" "cursor_x s1 \<le> 80" "0 \<le> cursor_y s1" "cursor_y s1 \<le> 25"
    "current_color s1 = current_color s" "ins s1 = ins s" "vga_state.more s1 = vga_state.more s"
  have "vga_wf (vga_settle s1)"
    using s1 by (intro vga_settle_wf)
  with s1 show ?thesis
    by (simp add: vga_putchar_settle)
qed

lemma vga_writestring_foldR:
  "terminated str \<Longrightarrow> vga_writestring str s = foldR vga_putchar (cstring str) s"
proof (induction str arbitrary: s)
  case (Cons c str)
  then show ?case by (auto intro!: bindR_cong)
qed simp

lemma vga_set_color_wf [simp]: "vga_wf (vga_set_color fg bg s) = vga_wf s"
  by (simp add: vga_wf_def vga_set_color_def)

lemma vga_clear_wf: "length (vga_buffer s) = 2000 \<Longrightarrow> succeeds (vga_clear s) vga_wf"
  by (simp add: vga_clear_eq vga_wf_def)

section \<open>Consoles\<close>

text \<open>
  What the rest of the kernel relies on when it prints: a character sink that never
  fails on its well-formed states and keeps them well-formed. Whole strings and
  sequences of prints then never fail either.
\<close>

locale console =
  fixes put :: "u8 \<Rightarrow> 's \<Rightarrow> 's res"
    and wf :: "'s \<Rightarrow> bool"
  assumes put_wf: "wf s \<Longrightarrow> succeeds (put c s) wf"
begin

lemma fold_put_wf: "wf s \<Longrightarrow> succeeds (foldR put cs s) wf"
  by (intro succeeds_foldR put_wf)

lemma puts_defined: "wf s \<Longrightarrow> \<exists>s'. foldR put cs s = Inr s' \<and> wf s'"
  using fold_put_wf by (auto simp: succeeds_iff)

lemma puts_append:
  "wf s \<Longrightarrow> \<exists>s'. foldR put cs s = Inr s' \<and> wf s' \<and> foldR put (cs @ ds) s = foldR put ds s'"
  using puts_defined [of s cs] by (auto simp: foldR_append)

end

interpretation vga_console: console vga_putchar vga_wf
  by unfold_locales (rule succeeds_weaken [OF vga_putchar_wf], auto)

lemma vga_writestring_wf: "vga_wf s \<Longrightarrow> terminated str \<Longrightarrow> succeeds (vga_writestring str s) vga_wf"
  by (simp add: vga_writestring_foldR vga_console.fold_put_wf)

section \<open>Printed text\<close>

text \<open>
  The rest of the kernel prints literals. \<open>emit\<close> prints a list of characters; a
  sequence of prints is one \<open>emit\<close> of the concatenation. \<open>on_screen s s'\<close>: a run that
  only used the console took the state from \<open>s\<close> to \<open>s'\<close>.
\<close>

abbreviation NL :: char where "NL \<equiv> CHR 0x0A"

definition emit :: "u8 list \<Rightarrow> 'a vga_state_scheme \<Rightarrow> 'a vga_state_scheme res" where
  "emit cs s = foldR vga_putchar cs s"

definition on_screen :: "'a vga_state_scheme \<Rightarrow> 'a vga_state_scheme \<Rightarrow> bool" where
  "on_screen s s' \<longleftrightarrow> vga_wf s' \<and> ins s' = ins s \<and> vga_state.more s' = vga_state.more s"

lemma emit_Nil [simp]: "emit [] s = Inr s"
  by (simp add: emit_def)

lemma emit_Nil_fun [simp]: "emit [] = Inr"
  by (rule ext) simp

lemma vga_putchar_emit: "vga_putchar c s = emit [c] s"
  by (simp add: emit_def)

lemma emit_emit [run_simps]: "bindR (emit a s) (emit b) = emit (a @ b) s"
  by (simp add: emit_def foldR_append [of _ a b, symmetric])
     (simp add: emit_def [abs_def] foldR_append)

lemma emit_emit_bind [run_simps]:
  "bindR (emit a s) (\<lambda>s. bindR (emit b s) f) = bindR (emit (a @ b) s) f"
  by (simp add: bindR_assoc [symmetric] emit_emit)

lemma emit_seqR [run_simps]:
  "bindR (emit a s) (seqR (f # fs)) = bindR (emit a s) (\<lambda>s. bindR (f s) (seqR fs))"
  by (rule bindR_cong) simp_all

lemma emit_writestring: "terminated p \<Longrightarrow> vga_writestring p s = emit (cstring p) s"
  by (simp add: emit_def vga_writestring_foldR)

lemma emit_literal [run_simps]:
  "CHR 0x00 \<notin> set t \<Longrightarrow> vga_writestring (cstr t) = emit (map of_char t)"
  by (rule ext) (simp add: emit_writestring cstring_cstr)

lemma on_screen_trans: "on_screen s s' \<Longrightarrow> on_screen s' s'' \<Longrightarrow> on_screen s s''"
  by (simp add: on_screen_def)

lemma on_screen_refl: "vga_wf s \<Longrightarrow> on_screen s s"
  by (simp add: on_screen_def)

lemma vga_set_color_on_screen: "vga_wf s \<Longrightarrow> on_screen s (vga_set_color fg bg s)"
  by (simp add: on_screen_def) (simp add: vga_set_color_def)

lemma emit_on_screen:
  assumes "vga_wf s"
  shows "succeeds (emit cs s) (\<lambda>s'. on_screen s s' \<and> current_color s' = current_color s)"
proof -
  have "succeeds (foldR vga_putchar cs s) (\<lambda>s'. on_screen s s' \<and> current_color s' = current_color s)"
  proof (rule succeeds_foldR)
    fix c s' assume "on_screen s s' \<and> current_color s' = current_color s"
    then show "succeeds (vga_putchar c s') (\<lambda>s'. on_screen s s' \<and> current_color s' = current_color s)"
      using vga_putchar_wf [of s' c] by (auto simp: on_screen_def elim!: succeeds_weaken)
  qed (use assms in \<open>simp add: on_screen_def\<close>)
  then show ?thesis by (simp add: emit_def)
qed

lemma emitE:
  assumes "vga_wf s"
  obtains s' where "emit cs s = Inr s'" "on_screen s s'" "vga_wf s'" "current_color s' = current_color s"
  using emit_on_screen [OF assms, of cs] by (auto simp: succeeds_iff on_screen_def)

text \<open>A sequence of console steps stays on the screen.\<close>

lemma seqR_on_screen:
  assumes "\<And>f s. f \<in> set fs \<Longrightarrow> vga_wf s \<Longrightarrow> succeeds (f s) (on_screen s)" "vga_wf s"
  shows "succeeds (seqR fs s) (on_screen s)"
proof (rule succeeds_seqR)
  fix f s' assume f: "f \<in> set fs" and s': "on_screen s s'"
  then have "succeeds (f s') (on_screen s')" using assms(1) by (simp add: on_screen_def)
  then show "succeeds (f s') (on_screen s)"
    by (rule succeeds_weaken) (rule on_screen_trans [OF s'])
qed (simp add: assms(2) on_screen_refl)

lemma vga_writestring_on_screen:
  "vga_wf s \<Longrightarrow> terminated p \<Longrightarrow> succeeds (vga_writestring p s) (on_screen s)"
  by (simp add: emit_writestring) (rule succeeds_weaken [OF emit_on_screen], simp_all)

lemma set_color_step_on_screen:
  "vga_wf s \<Longrightarrow> succeeds ((Inr \<circ> vga_set_color fg bg) s) (on_screen s)"
  by (simp add: vga_set_color_on_screen)

lemma vga_putchar_on_screen: "vga_wf s \<Longrightarrow> succeeds (vga_putchar c s) (on_screen s)"
  by (simp only: vga_putchar_emit) (rule succeeds_weaken [OF emit_on_screen], simp_all)

lemmas console_steps = vga_writestring_on_screen set_color_step_on_screen vga_putchar_on_screen

section \<open>The console as a document\<close>

text \<open>
  The abstract terminal: all the rows printed so far (at least one screenful), the row
  and column of the cursor and the colour. It has no height: a new row is appended when
  the cursor leaves the last one. The screen is a view of its last twenty-five rows.
\<close>

record tty =
  tty_rows :: "u16 list list"
  tty_row :: nat
  tty_col :: nat
  tty_color :: u8

definition tty_store :: "u16 \<Rightarrow> tty \<Rightarrow> tty" where
  "tty_store v t = t\<lparr>tty_rows := (tty_rows t)[tty_row t := (tty_rows t ! tty_row t)[tty_col t := v]]\<rparr>"

definition tty_down :: "tty \<Rightarrow> tty" where
  "tty_down t =
     (let t = t\<lparr>tty_col := 0, tty_row := Suc (tty_row t)\<rparr> in
      if tty_row t < length (tty_rows t) then t
      else t\<lparr>tty_rows := tty_rows t @ [replicate 80 (blank_cell (tty_color t))]\<rparr>)"

definition tty_put :: "u8 \<Rightarrow> tty \<Rightarrow> tty" where
  "tty_put c t =
     (if c = 10 then tty_down t
      else if c = 13 then t\<lparr>tty_col := 0\<rparr>
      else if c = 8 then
        (if tty_col t > 0
         then tty_store (blank_cell (tty_color t)) (t\<lparr>tty_col := tty_col t - 1\<rparr>) else t)
      else
        let t = tty_store (char_cell c (tty_color t)) t in
        if Suc (tty_col t) < 80 then t\<lparr>tty_col := Suc (tty_col t)\<rparr> else tty_down t)"

text \<open>\<open>shows t s\<close>: the screen state \<open>s\<close> shows the end of the document \<open>t\<close>.\<close>

definition shows_tty :: "tty \<Rightarrow> 'a vga_state_scheme \<Rightarrow> bool" where
  "shows_tty t s \<longleftrightarrow>
     25 \<le> length (tty_rows t) \<and> (\<forall>r \<in> set (tty_rows t). length r = 80) \<and>
     length (tty_rows t) - 25 \<le> tty_row t \<and> tty_row t < length (tty_rows t) \<and> tty_col t < 80 \<and>
     vga_buffer s = concat (drop (length (tty_rows t) - 25) (tty_rows t)) \<and>
     cursor_x s = int (tty_col t) \<and>
     cursor_y s = int (tty_row t - (length (tty_rows t) - 25)) \<and>
     current_color s = tty_color t"

lemma length_concat_rows:
  "(\<forall>r \<in> set rs. length r = w) \<Longrightarrow> length (concat rs) = length rs * w"
  by (induction rs) auto

lemma concat_update:
  assumes "\<forall>r \<in> set rs. length r = w" "i < length rs" "j < w"
  shows "(concat rs)[i * w + j := v] = concat (rs[i := (rs ! i)[j := v]])"
  using assms
proof (induction rs arbitrary: i)
  case (Cons r rs)
  then show ?case
    by (cases i) (auto simp: list_update_append)
qed simp

lemma shows_tty_wf: "shows_tty t s \<Longrightarrow> vga_wf s"
proof -
  assume a: "shows_tty t s"
  then have "\<forall>r \<in> set (drop (length (tty_rows t) - 25) (tty_rows t)). length r = 80"
    by (auto simp: shows_tty_def dest: in_set_dropD)
  from length_concat_rows [OF this] a show "vga_wf s"
    by (auto simp: vga_wf_def shows_tty_def)
qed

text \<open>Storing a cell under the cursor.\<close>

lemma shows_tty_store:
  assumes "shows_tty t s"
  shows "shows_tty (tty_store v t) (s\<lparr>vga_buffer := (vga_buffer s)[nat (cursor_y s * VGA_WIDTH + cursor_x s) := v]\<rparr>)"
proof -
  let ?k = "length (tty_rows t) - 25"
  let ?r = "tty_row t - ?k"
  let ?view = "drop ?k (tty_rows t)"
  have rows: "\<forall>r \<in> set (tty_rows t). length r = 80"
    and r: "?r < length ?view" and c: "tty_col t < 80" and k: "?k \<le> tty_row t"
    using assms by (auto simp: shows_tty_def)
  have view: "\<forall>r \<in> set ?view. length r = 80"
    using rows by (auto dest: in_set_dropD)
  have "cursor_y s = int ?r" "cursor_x s = int (tty_col t)"
    using assms by (auto simp: shows_tty_def)
  then have "nat (cursor_y s * VGA_WIDTH + cursor_x s) = ?r * 80 + tty_col t"
    by (simp only: nat_add_distrib nat_mult_distrib of_nat_0_le_iff nat_int zero_le_numeral
        mult_nonneg_nonneg nat_numeral)
  then have "(vga_buffer s)[nat (cursor_y s * VGA_WIDTH + cursor_x s) := v] =
             concat (?view[?r := (?view ! ?r)[tty_col t := v]])"
    using assms concat_update [OF view r c] by (simp add: shows_tty_def)
  also have "?view[?r := (?view ! ?r)[tty_col t := v]] =
             drop ?k ((tty_rows t)[tty_row t := (tty_rows t ! tty_row t)[tty_col t := v]])"
    using k by (simp add: drop_update_swap)
  finally have "(vga_buffer s)[nat (cursor_y s * VGA_WIDTH + cursor_x s) := v] =
             concat (drop ?k ((tty_rows t)[tty_row t := (tty_rows t ! tty_row t)[tty_col t := v]]))" .
  moreover have "\<forall>r \<in> set ((tty_rows t)[tty_row t := (tty_rows t ! tty_row t)[tty_col t := v]]). length r = 80"
    using assms by (auto simp: shows_tty_def dest!: set_update_subset_insert [THEN subsetD])
  ultimately show ?thesis
    using assms by (simp add: shows_tty_def tty_store_def)
qed

text \<open>Moving the cursor to the start of the next row.\<close>

lemma shows_tty_down:
  assumes "shows_tty t s"
  shows "shows_tty (tty_down t) (vga_settle (s\<lparr>cursor_x := 0, cursor_y := cursor_y s + 1\<rparr>))"
proof (cases "Suc (tty_row t) < length (tty_rows t)")
  case True
  then show ?thesis
    using assms by (auto simp: shows_tty_def tty_down_def vga_settle_def vga_wrap_def Let_def)
next
  case False
  then have last: "Suc (tty_row t) = length (tty_rows t)"
    using assms by (auto simp: shows_tty_def)
  let ?k = "length (tty_rows t) - 25"
  have len: "length (drop ?k (tty_rows t)) = Suc 24"
    using assms by (auto simp: shows_tty_def)
  then obtain r rs where view: "drop ?k (tty_rows t) = r # rs"
    by (cases "drop ?k (tty_rows t)") auto
  then have "r \<in> set (tty_rows t)"
    by (metis in_set_dropD list.set_intros(1))
  then have "length r = 80"
    using assms by (auto simp: shows_tty_def)
  moreover have "drop (Suc ?k) (tty_rows t) = rs"
    using view by (metis drop_Suc list.sel(3) tl_drop)
  moreover have "length rs = 24"
    using len view by simp
  ultimately have rs: "length r = 80" "drop (Suc ?k) (tty_rows t) = rs" "length rs = 24"
    by blast+
  have "Suc (length (tty_rows t)) - 25 = Suc ?k"
    using assms by (auto simp: shows_tty_def)
  then show ?thesis
    using assms last view rs
    by (auto simp: shows_tty_def tty_down_def vga_settle_def vga_wrap_def Let_def)
qed

lemma shows_tty_move_cursor [simp]: "shows_tty t (vga_move_cursor s) = shows_tty t s"
  by (simp add: shows_tty_def)

lemma vga_settle_id: "vga_wf s \<Longrightarrow> vga_settle s = s"
  by (simp add: vga_settle_def vga_wrap_def vga_wf_def Let_def)

lemma vga_settle_wrap:
  "vga_settle (s\<lparr>cursor_x := 80\<rparr>) = vga_settle (s\<lparr>cursor_x := 0, cursor_y := cursor_y s + 1\<rparr>)"
  by (simp add: vga_settle_def vga_wrap_def Let_def)

lemma shows_tty_col:
  "shows_tty t s \<Longrightarrow> n < 80 \<Longrightarrow> shows_tty (t\<lparr>tty_col := n\<rparr>) (s\<lparr>cursor_x := int n\<rparr>)"
  by (simp add: shows_tty_def)

lemma shows_ttyD:
  assumes "shows_tty t s"
  shows "cursor_x s = int (tty_col t)" "tty_col t < 80" "current_color s = tty_color t"
    "length (vga_buffer s) = 2000"
  using assms shows_tty_wf [OF assms] by (simp_all add: shows_tty_def vga_wf_def)

abbreviation vga_store :: "u16 \<Rightarrow> 'a vga_state_scheme \<Rightarrow> 'a vga_state_scheme" where
  "vga_store v s \<equiv> s\<lparr>vga_buffer := (vga_buffer s)[nat (cursor_y s * VGA_WIDTH + cursor_x s) := v]\<rparr>"

lemma vga_set_cell_cursor:
  "vga_wf s \<Longrightarrow> vga_set_cell (cursor_y s * VGA_WIDTH + cursor_x s) v s = Inr (vga_store v s)"
  using cell_index [of s] by (simp add: run_simps)

lemma vga_putchar_shows_settled:
  assumes "vga_put_glyph c s = Inr s1" "length (vga_buffer s1) = 2000"
    and "shows_tty t (vga_settle s1)"
  shows "succeeds (vga_putchar c s) (shows_tty t)"
  using assms by (simp add: vga_putchar_settle)

lemma vga_putchar_shows_direct:
  assumes "vga_put_glyph c s = Inr s1" "shows_tty t s1"
  shows "succeeds (vga_putchar c s) (shows_tty t)"
  using assms vga_settle_id [OF shows_tty_wf [OF assms(2)]] shows_ttyD [OF assms(2)]
  by (auto intro: vga_putchar_shows_settled)

lemma vga_putchar_shows_control:
  assumes t: "shows_tty t s" and c: "c = 10 \<or> c = 13 \<or> c = 8"
  shows "succeeds (vga_putchar c s) (shows_tty (tty_put c t))"
proof -
  note d = shows_ttyD [OF t]
  consider "c = 10" | "c = 13" | "c = 8" "tty_col t = 0" | "c = 8" "tty_col t > 0"
    using c by blast
  then show ?thesis
  proof cases
    case 1
    then show ?thesis
      using shows_tty_down [OF t] d(4)
      by (intro vga_putchar_shows_settled) (simp_all add: vga_put_glyph_def tty_put_def)
  next
    case 2
    then show ?thesis
      using shows_tty_col [OF t, of 0]
      by (intro vga_putchar_shows_direct) (simp_all add: vga_put_glyph_def tty_put_def)
  next
    case 3
    then show ?thesis
      using t d by (intro vga_putchar_shows_direct) (simp_all add: vga_put_glyph_def tty_put_def)
  next
    case 4
    let ?s = "s\<lparr>cursor_x := cursor_x s - 1\<rparr>"
    have t': "shows_tty (t\<lparr>tty_col := tty_col t - 1\<rparr>) ?s"
      using shows_tty_col [OF t, of "tty_col t - 1"] 4 d by (simp add: of_nat_diff)
    have "vga_put_glyph c s = Inr (vga_store (blank_cell (tty_color t)) ?s)"
      using 4 d vga_set_cell_cursor [OF shows_tty_wf [OF t']] by (simp add: vga_put_glyph_def Let_def)
    then show ?thesis
      using shows_tty_store [OF t', of "blank_cell (tty_color t)"] 4
      by (intro vga_putchar_shows_direct) (simp_all add: tty_put_def)
  qed
qed

lemma vga_putchar_shows_glyph:
  assumes t: "shows_tty t s" and c: "\<not> (c = 10 \<or> c = 13 \<or> c = 8)"
  shows "succeeds (vga_putchar c s) (shows_tty (tty_put c t))"
proof -
  note d = shows_ttyD [OF t]
  let ?v = "char_cell c (tty_color t)"
  have g: "vga_put_glyph c s = Inr ((vga_store ?v s)\<lparr>cursor_x := cursor_x s + 1\<rparr>)"
    using c d vga_set_cell_cursor [OF shows_tty_wf [OF t]] by (simp add: vga_put_glyph_def)
  note st = shows_tty_store [OF t, of ?v]
  show ?thesis
  proof (cases "Suc (tty_col t) < 80")
    case True
    have "shows_tty (tty_put c t) ((vga_store ?v s)\<lparr>cursor_x := cursor_x s + 1\<rparr>)"
      using shows_tty_col [OF st True] c d True
      by (simp add: tty_put_def tty_store_def Let_def add.commute)
    with g show ?thesis by (rule vga_putchar_shows_direct)
  next
    case False
    with d have "cursor_x s + 1 = 80" by simp
    moreover have "shows_tty (tty_put c t) (vga_settle ((vga_store ?v s)\<lparr>cursor_x := 80\<rparr>))"
      using shows_tty_down [OF st] c False
      by (simp add: tty_put_def tty_store_def Let_def vga_settle_wrap)
    ultimately show ?thesis
      using g d by (intro vga_putchar_shows_settled) simp_all
  qed
qed

lemma vga_putchar_shows:
  "shows_tty t s \<Longrightarrow> succeeds (vga_putchar c s) (shows_tty (tty_put c t))"
  using vga_putchar_shows_control vga_putchar_shows_glyph by blast

text \<open>Rows that have left the screen are never touched again.\<close>

lemma tty_put_scrolled_off:
  assumes "length (tty_rows t) - 25 \<le> tty_row t"
  shows "take (length (tty_rows t) - 25) (tty_rows (tty_put c t)) =
         take (length (tty_rows t) - 25) (tty_rows t)"
  using assms by (auto simp: tty_put_def tty_down_def tty_store_def Let_def)

section \<open>Properties\<close>

interpretation document: simulation vga_putchar "\<lambda>c t. Some (tty_put c t)" shows_tty
  by unfold_locales (auto dest: vga_putchar_shows)

lemma foldR_shows:
  assumes "shows_tty t s"
  shows "succeeds (foldR vga_putchar cs s) (shows_tty (fold tty_put cs t))"
  by (rule document.run_sim [OF assms]) (rule foldO_Some)

lemma concat_replicate_replicate: "concat (replicate n (replicate m v)) = replicate (n * m) v"
  by (induction n) (simp_all add: replicate_add)

text \<open>The document of a cleared screen.\<close>

definition blank_tty :: "u8 \<Rightarrow> tty" where
  "blank_tty color =
     \<lparr>tty_rows = replicate 25 (replicate 80 (blank_cell color)), tty_row = 0, tty_col = 0, tty_color = color\<rparr>"

definition vga_blank :: "u8 \<Rightarrow> vga_state" where
  "vga_blank color = \<lparr>ins = [], io_log = [], vga_buffer = replicate 2000 (blank_cell color),
     cursor_x = 0, cursor_y = 0, current_color = color\<rparr>"

lemma shows_blank: "shows_tty (blank_tty color) (vga_blank color)"
  by (simp add: shows_tty_def blank_tty_def vga_blank_def concat_replicate_replicate)

lemma vga_blank_wf: "vga_wf (vga_blank color)"
  by (rule shows_tty_wf [OF shows_blank])

text \<open>
  C5. Printing a terminated string never fails on a screen that shows a document, and
  afterwards the screen shows the last twenty-five rows of the document extended
  character by character: line feed, carriage return, backspace, wrapping at column 80
  and scrolling included. Rows already scrolled off are not part of the state any more.
\<close>

theorem vga_writestring_refines_document:
  assumes "shows_tty t s" "terminated str"
  shows "\<exists>s'. vga_writestring str s = Inr s' \<and> shows_tty (fold tty_put (cstring str) t) s'"
  using foldR_shows [OF assms(1), of "cstring str"] assms(2)
  by (simp add: vga_writestring_foldR succeeds_iff)

theorem vga_writestring_refines_document_witness:
  "\<exists>s'. vga_writestring (cstr ''larch'') (vga_blank 0x0F) = Inr s' \<and>
     shows_tty (fold tty_put (cstring (cstr ''larch'')) (blank_tty 0x0F)) s'"
  by (rule vga_writestring_refines_document [OF shows_blank]) simp

text \<open>
  Memory safety of the console: from a well-formed state \<open>vga_putchar\<close> returns for
  every character, never touches a cell outside the 80x25 buffer, leaves the cursor on
  the screen, and changes neither the colour, the pending device input nor anything
  beyond the console's own variables.
\<close>

theorem vga_putchar_safe:
  assumes "vga_wf s"
  shows "\<exists>s'. vga_putchar c s = Inr s' \<and> vga_wf s' \<and> current_color s' = current_color s \<and>
           ins s' = ins s \<and> vga_state.more s' = vga_state.more s"
  using vga_putchar_wf [OF assms, of c] by (simp add: succeeds_iff)

theorem vga_putchar_safe_witness:
  "\<exists>s'. vga_putchar 0x41 (vga_blank 7) = Inr s' \<and> vga_wf s' \<and>
     current_color s' = current_color (vga_blank 7) \<and> ins s' = ins (vga_blank 7) \<and>
     vga_state.more s' = vga_state.more (vga_blank 7)"
  by (rule vga_putchar_safe [OF vga_blank_wf])

text \<open>
  Every call of \<open>vga_putchar\<close> performs exactly four port writes: registers 0x0F and
  0x0E of the CRT controller receive the low and the high byte of the new linear cursor
  position, so the hardware cursor follows the software cursor.
\<close>

theorem vga_putchar_cursor_ports:
  assumes "vga_wf s" "vga_putchar c s = Inr s'"
  shows "\<exists>lo hi. io_log s' = io_log s @ [Out 0x3D4 0x0F, Out 0x3D5 lo, Out 0x3D4 0x0E, Out 0x3D5 hi] \<and>
           uint hi * 256 + uint lo = cursor_y s' * VGA_WIDTH + cursor_x s'"
proof -
  obtain s1 where s1: "vga_put_glyph c s = Inr s1" "length (vga_buffer s1) = 2000" "io_log s1 = io_log s"
    "0 \<le> cursor_x s1" "cursor_x s1 \<le> 80" "0 \<le> cursor_y s1" "cursor_y s1 \<le> 25"
    by (rule vga_put_glyph_wf [OF assms(1), of c])
  define s2 where "s2 = vga_settle s1"
  define n where "n = cursor_y s2 * VGA_WIDTH + cursor_x s2"
  have "vga_wf s2"
    unfolding s2_def using s1 by (intro vga_settle_wf)
  then have n: "0 \<le> n" "n < 2000"
    using cell_index [of s2] by (simp_all add: n_def vga_wf_def)
  have "uint (ucast (drop_bit 8 (word_of_int n :: u16)) :: u8) = n div 256"
    and "uint (ucast ((word_of_int n :: u16) AND 0xFF) :: u8) = n mod 256"
    using n
    by (simp_all add: and_mask_simps unsigned_ucast_eq unsigned_drop_bit_eq unsigned_take_bit_eq
        uint_div_distrib uint_mod_distrib unsigned_of_int take_bit_eq_mod drop_bit_eq_div)
  moreover have "s' = vga_move_cursor s2"
    using assms(2) s1 by (simp add: vga_putchar_settle s2_def)
  ultimately show ?thesis
    using s1 s2_def by (simp add: vga_move_cursor_def Let_def n_def outb_def)
qed

theorem vga_putchar_cursor_ports_witness:
  "\<exists>s'. vga_putchar 0x41 (vga_blank 7) = Inr s' \<and>
     (\<exists>lo hi. io_log s' = io_log (vga_blank 7) @
        [Out 0x3D4 0x0F, Out 0x3D5 lo, Out 0x3D4 0x0E, Out 0x3D5 hi] \<and>
        uint hi * 256 + uint lo = cursor_y s' * VGA_WIDTH + cursor_x s')"
proof -
  obtain s' where s': "vga_putchar 0x41 (vga_blank 7) = Inr s'"
    using vga_putchar_wf [OF vga_blank_wf] by (auto simp: succeeds_iff)
  with vga_putchar_cursor_ports [OF vga_blank_wf s'] show ?thesis by blast
qed

text \<open>
  What a cell holds: its low byte is the character, and its attribute byte is the
  current colour only for the characters below 0x80. For the others the promotion of the
  signed \<open>char\<close> sets all attribute bits, whatever the colour.
\<close>

theorem char_cell_attribute:
  "(ucast (char_cell c color) :: u8) = c \<and>
   (ucast (drop_bit 8 (char_cell c color)) :: u8) = (if sint c < 0 then 0xFF else color)"
proof -
  have "(ucast (char_cell c color) :: u8) = c"
    by (rule bit_word_eqI) (auto simp: char_cell_def bit_simps)
  moreover have "(ucast (drop_bit 8 (char_cell c color)) :: u8) = (if bit c 7 then - 1 else color)"
    by (rule bit_word_eqI) (auto simp: char_cell_def bit_simps)
  ultimately show ?thesis
    by (simp add: sint_neg_iff_u8)
qed

end
