(* ===== verification/History.thy ===== *)
theory History
  imports Libc
begin

text \<open>
  The command history of \<^verbatim>\<open>kernel/shell/command_history.c\<close>: twenty rows of 256 bytes, a
  count and a recall index. It implements a bounded list of strings with a cursor; the
  interface the line editors rely on is the locale \<open>recall_list\<close>.
\<close>

section \<open>State and operations\<close>

abbreviation MAX_HISTORY :: int where "MAX_HISTORY \<equiv> 20"
abbreviation MAX_CMD_LEN :: nat where "MAX_CMD_LEN \<equiv> 256"

record hist_state =
  history :: "u8 list list"
  history_count :: int
  history_position :: int
  current_history_index :: int

definition hist_init :: hist_state where
  "hist_init = \<lparr>history = replicate 20 (replicate MAX_CMD_LEN 0), history_count = 0,
     history_position = 0, current_history_index = -1\<rparr>"

text \<open>\<open>strcpy(history[i], src)\<close>\<close>

definition history_store :: "int \<Rightarrow> u8 list \<Rightarrow> hist_state \<Rightarrow> hist_state res" where
  "history_store i src h =
     bindR (buf_read (history h) i) (\<lambda>row.
     bindR (strcpy row src) (\<lambda>row'.
     bindR (buf_write (history h) i row') (\<lambda>rows.
     Inr (h\<lparr>history := rows\<rparr>))))"

definition history_add :: "u8 list \<Rightarrow> hist_state \<Rightarrow> hist_state res" where
  "history_add cmd h =
     bindR
       (if history_count h < MAX_HISTORY
        then bindR (history_store (history_count h) cmd h) (\<lambda>h.
             Inr (h\<lparr>history_count := history_count h + 1\<rparr>))
        else bindR (forR 1 MAX_HISTORY (\<lambda>i h.
                      bindR (buf_read (history h) i) (\<lambda>row. history_store (i - 1) row h)) h) (\<lambda>h.
             history_store (MAX_HISTORY - 1) cmd h)) (\<lambda>h.
     let h = h\<lparr>current_history_index := history_count h\<rparr> in
     Inr (if history_count h > MAX_HISTORY then h\<lparr>current_history_index := MAX_HISTORY\<rparr> else h))"

definition history_prev :: "hist_state \<Rightarrow> (u8 list \<times> hist_state) res" where
  "history_prev h =
     (if history_count h = 0 then Inr (cstr '''', h)
      else
        let h = (if current_history_index h > 0
                 then h\<lparr>current_history_index := current_history_index h - 1\<rparr> else h) in
        bindR (buf_read (history h) (current_history_index h)) (\<lambda>row. Inr (row, h)))"

definition history_next :: "hist_state \<Rightarrow> (u8 list \<times> hist_state) res" where
  "history_next h =
     (if history_count h = 0 then Inr (cstr '''', h)
      else if current_history_index h < history_count h - 1
      then let h = h\<lparr>current_history_index := current_history_index h + 1\<rparr> in
           bindR (buf_read (history h) (current_history_index h)) (\<lambda>row. Inr (row, h))
      else Inr (cstr '''', h\<lparr>current_history_index := history_count h\<rparr>))"

section \<open>The interface\<close>

text \<open>The last \<open>n\<close> elements of a list.\<close>

definition last_n :: "nat \<Rightarrow> 'a list \<Rightarrow> 'a list" where
  "last_n n xs = drop (length xs - n) xs"

lemma length_last_n [simp]: "length (last_n n xs) = min n (length xs)"
  by (simp add: last_n_def)

lemma last_last_n_snoc: "0 < n \<Longrightarrow> last_n n (xs @ [x]) = last_n (n - 1) xs @ [x]"
  by (cases n) (auto simp: last_n_def Suc_diff_le)

text \<open>Several steps back; the result is the last pointer handed out.\<close>

primrec steps_back :: "('h \<Rightarrow> (u8 list \<times> 'h) res) \<Rightarrow> nat \<Rightarrow> 'h \<Rightarrow> (u8 list \<times> 'h) res" where
  "steps_back prev 0 h = prev h"
| "steps_back prev (Suc n) h = bindR (prev h) (\<lambda>(p, h'). steps_back prev n h')"

text \<open>
  A bounded list of command lines with a recall cursor: adding appends (dropping the
  oldest entry when full) and puts the cursor behind the newest entry; \<open>prev\<close> moves
  towards the oldest entry and stays there, \<open>next\<close> moves towards the newest and then
  behind it, where it answers with the empty string.
\<close>

locale recall_list =
  fixes add :: "u8 list \<Rightarrow> 'h \<Rightarrow> 'h res"
    and prev :: "'h \<Rightarrow> (u8 list \<times> 'h) res"
    and "next" :: "'h \<Rightarrow> (u8 list \<times> 'h) res"
    and wf :: "'h \<Rightarrow> bool"
    and entries :: "'h \<Rightarrow> u8 list list"
    and cursor :: "'h \<Rightarrow> nat"
    and cap :: nat
    and width :: nat
  assumes cap_pos: "0 < cap"
    and add_ok: "wf h \<Longrightarrow> terminated cmd \<Longrightarrow> length (cstring cmd) < width \<Longrightarrow>
      succeeds (add cmd h) (\<lambda>h'. wf h' \<and> entries h' = last_n cap (entries h @ [cstring cmd]) \<and>
        cursor h' = length (entries h'))"
    and prev_ok: "wf h \<Longrightarrow> succeeds (prev h) (\<lambda>(p, h'). wf h' \<and> entries h' = entries h \<and>
        terminated p \<and> length (cstring p) < width \<and> cursor h' = cursor h - 1 \<and>
        cstring p = (if entries h = [] then [] else entries h ! (cursor h - 1)))"
    and next_ok: "wf h \<Longrightarrow> succeeds (next h) (\<lambda>(p, h'). wf h' \<and> entries h' = entries h \<and>
        terminated p \<and> length (cstring p) < width \<and>
        (if Suc (cursor h) < length (entries h)
         then cursor h' = Suc (cursor h) \<and> cstring p = entries h ! Suc (cursor h)
         else cursor h' = length (entries h) \<and> cstring p = []))"
begin

lemma prevs_ok:
  "wf h \<Longrightarrow> succeeds (steps_back prev n h) (\<lambda>(p, h'). wf h' \<and> entries h' = entries h \<and>
     cursor h' = cursor h - Suc n \<and>
     cstring p = (if entries h = [] then [] else entries h ! (cursor h - Suc n)))"
proof (induction n arbitrary: h)
  case 0
  then show ?case
    using prev_ok [of h] by (auto elim!: succeeds_weaken)
next
  case (Suc n)
  obtain p h' where h': "prev h = Inr (p, h')" "wf h'" "entries h' = entries h" "cursor h' = cursor h - 1"
    using prev_ok [OF Suc.prems] by (auto elim!: succeedsE)
  then show ?case
    using Suc.IH [OF h'(2)] by (auto elim!: succeeds_weaken split: if_splits)
qed

lemma add_prevs:
  assumes "wf h" "terminated cmd" "length (cstring cmd) < width"
    and k: "k < length (last_n cap (entries h @ [cstring cmd]))"
  shows "succeeds (bindR (add cmd h) (steps_back prev k))
           (\<lambda>(p, h'). cstring p = rev (last_n cap (entries h @ [cstring cmd])) ! k)"
proof -
  obtain h1 where h1: "add cmd h = Inr h1" "wf h1"
    "entries h1 = last_n cap (entries h @ [cstring cmd])" "cursor h1 = length (entries h1)"
    using add_ok [OF assms(1-3)] by (auto elim!: succeedsE)
  have "entries h1 \<noteq> []"
    using h1(3) k by (metis list.size(3) not_less_zero)
  then show ?thesis
    using prevs_ok [OF h1(2), of k] h1 k
    by (auto elim!: succeeds_weaken simp: rev_nth)
qed

end

section \<open>The implementation meets the interface\<close>

definition rows_ok :: "u8 list list \<Rightarrow> bool" where
  "rows_ok rows \<longleftrightarrow> length rows = 20 \<and> (\<forall>row \<in> set rows. length row = MAX_CMD_LEN \<and> terminated row)"

definition hist_wf :: "hist_state \<Rightarrow> bool" where
  "hist_wf h \<longleftrightarrow> rows_ok (history h) \<and> 0 \<le> history_count h \<and> history_count h \<le> MAX_HISTORY \<and>
     (if history_count h = 0 then current_history_index h = -1
      else 0 \<le> current_history_index h \<and> current_history_index h \<le> history_count h)"

definition hist_entries :: "hist_state \<Rightarrow> u8 list list" where
  "hist_entries h = map cstring (take (nat (history_count h)) (history h))"

definition hist_cursor :: "hist_state \<Rightarrow> nat" where
  "hist_cursor h = nat (current_history_index h)"

lemma hist_init_wf: "hist_wf hist_init"
  by (simp add: hist_wf_def hist_init_def rows_ok_def terminated_def)

lemma rows_ok_nth: "rows_ok rows \<Longrightarrow> i < 20 \<Longrightarrow> length (rows ! i) = MAX_CMD_LEN \<and> terminated (rows ! i)"
  by (simp add: rows_ok_def)

lemma history_store_ok:
  assumes "rows_ok (history h)" "0 \<le> i" "i < 20" "terminated src" "length (cstring src) < MAX_CMD_LEN"
  shows "succeeds (history_store i src h) (\<lambda>h'. \<exists>rows. h' = h\<lparr>history := rows\<rparr> \<and> rows_ok rows \<and>
           map cstring rows = (map cstring (history h))[nat i := cstring src])"
proof -
  have i: "nat i < 20" using assms by simp
  obtain row' where row': "strcpy (history h ! nat i) src = Inr row'"
    "length row' = MAX_CMD_LEN" "terminated row'" "cstring row' = cstring src"
    using strcpy_ok [of src "history h ! nat i"] rows_ok_nth [OF assms(1) i] assms(4,5)
    by (auto elim!: succeedsE)
  have "rows_ok ((history h)[nat i := row'])"
    using assms(1) row'(2,3) by (auto simp: rows_ok_def dest!: set_update_subset_insert [THEN subsetD])
  moreover have "length (history h) = 20"
    using assms(1) by (simp add: rows_ok_def)
  ultimately show ?thesis
    using assms(2,3) row' by (auto simp: history_store_def buf_simps map_update)
qed

lemma history_shift_ok:
  assumes "rows_ok (history h)"
  shows "succeeds (forR 1 MAX_HISTORY (\<lambda>i h.
            bindR (buf_read (history h) i) (\<lambda>row. history_store (i - 1) row h)) h)
          (\<lambda>h'. \<exists>rows. h' = h\<lparr>history := rows\<rparr> \<and> rows_ok rows \<and>
             map cstring rows = shifted 1 (map cstring (history h)) 19)"
proof -
  let ?old = "map cstring (history h)"
  let ?I = "\<lambda>i h'. \<exists>rows. h' = h\<lparr>history := rows\<rparr> \<and> rows_ok rows \<and>
              map cstring rows = shifted 1 ?old (nat (i - 1))"
  have len: "length ?old = 20" using assms by (simp add: rows_ok_def)
  have "succeeds (forR 1 MAX_HISTORY (\<lambda>i h.
            bindR (buf_read (history h) i) (\<lambda>row. history_store (i - 1) row h)) h) (?I MAX_HISTORY)"
  proof (rule succeeds_forR [where I = ?I])
    fix i h' assume i: "1 \<le> i" "i < MAX_HISTORY" and "?I i h'"
    then obtain rows where rows: "h' = h\<lparr>history := rows\<rparr>" "rows_ok rows"
      "map cstring rows = shifted 1 ?old (nat (i - 1))" by auto
    have read: "buf_read (history h') i = Inr (rows ! nat i)"
      using rows i by (simp add: buf_simps rows_ok_def)
    have src: "terminated (rows ! nat i)" "length (cstring (rows ! nat i)) < MAX_CMD_LEN"
      using rows_ok_nth [OF rows(2), of "nat i"] i terminated_length [of "rows ! nat i"] by auto
    have "nat i < 20" using i by simp
    moreover have "length rows = 20" using rows(2) by (simp add: rows_ok_def)
    ultimately have nth: "cstring (rows ! nat i) = map cstring rows ! (nat (i - 1) + 1)"
      using i by (simp add: nat_diff_distrib)
    have shift: "(shifted 1 ?old (nat (i - 1)))[nat (i - 1) := shifted 1 ?old (nat (i - 1)) ! (nat (i - 1) + 1)]
                 = shifted 1 ?old (nat i)"
      using shifted_step [of "nat (i - 1)" 1 ?old] i len by (simp add: Suc_nat_eq_nat_zadd1)
    show "succeeds (bindR (buf_read (history h') i) (\<lambda>row. history_store (i - 1) row h')) (?I (i + 1))"
      using history_store_ok [of h' "i - 1" "rows ! nat i"] i rows src read nth shift
      by (auto elim!: succeeds_weaken)
  qed (use assms in \<open>auto intro!: exI [of _ "history h"]\<close>)
  then show ?thesis by simp
qed

lemma last_n_20:
  "length xs < 20 \<Longrightarrow> last_n 20 (xs @ [x]) = xs @ [x]"
  "length xs = 20 \<Longrightarrow> last_n 20 (xs @ [x]) = tl xs @ [x]"
  by (auto simp: last_n_def drop_Suc)

lemma history_add_ok:
  assumes "hist_wf h" "terminated cmd" "length (cstring cmd) < MAX_CMD_LEN"
  shows "succeeds (history_add cmd h) (\<lambda>h'. hist_wf h' \<and>
           hist_entries h' = last_n 20 (hist_entries h @ [cstring cmd]) \<and>
           hist_cursor h' = length (hist_entries h'))"
proof (cases "history_count h < MAX_HISTORY")
  case True
  let ?n = "nat (history_count h)"
  have wf: "rows_ok (history h)" "0 \<le> history_count h" using assms(1) by (auto simp: hist_wf_def)
  obtain rows where rows: "history_store (history_count h) cmd h = Inr (h\<lparr>history := rows\<rparr>)" "rows_ok rows"
    "map cstring rows = (map cstring (history h))[?n := cstring cmd]"
    using history_store_ok [of h "history_count h" cmd] wf True assms(2,3) by (auto elim!: succeedsE)
  have n: "?n < 20" "length (history h) = 20" "length rows = 20"
    using True wf rows(2) by (auto simp: rows_ok_def)
  have "map cstring (take (Suc ?n) rows) = map cstring (take ?n (history h)) @ [cstring cmd]"
    using n by (simp only: take_map [symmetric] rows(3)) (simp add: take_Suc_conv_app_nth)
  then show ?thesis
    using True wf rows n
    by (auto simp: history_add_def hist_wf_def hist_entries_def hist_cursor_def last_n_20 Let_def
        nat_add_distrib)
next
  case False
  then have wf: "rows_ok (history h)" "history_count h = 20" using assms(1) by (auto simp: hist_wf_def)
  let ?old = "map cstring (history h)"
  obtain rows where rows: "forR 1 MAX_HISTORY (\<lambda>i h.
       bindR (buf_read (history h) i) (\<lambda>row. history_store (i - 1) row h)) h = Inr (h\<lparr>history := rows\<rparr>)"
     "rows_ok rows" "map cstring rows = shifted 1 ?old 19"
    using history_shift_ok [OF wf(1)] by (auto elim!: succeedsE)
  obtain rows' where rows': "history_store 19 cmd (h\<lparr>history := rows\<rparr>) = Inr (h\<lparr>history := rows'\<rparr>)"
     "rows_ok rows'" "map cstring rows' = (map cstring rows)[19 := cstring cmd]"
    using history_store_ok [of "h\<lparr>history := rows\<rparr>" 19 cmd] rows(2) assms(2,3) by (auto elim!: succeedsE)
  have len: "length ?old = 20" "length rows' = 20" using wf rows'(2) by (auto simp: rows_ok_def)
  have "map cstring rows' = tl ?old @ [cstring cmd]"
    using len by (simp add: rows' rows shifted_def list_update_append drop_Suc
        upd_conv_take_nth_drop flip: map_tl)
  then show ?thesis
    using False wf rows rows' len
    by (simp add: history_add_def hist_wf_def hist_entries_def hist_cursor_def last_n_20 Let_def)
qed

text \<open>Reading a stored entry.\<close>

lemma history_row:
  assumes "hist_wf h" "0 \<le> i" "i < history_count h"
  shows "succeeds (buf_read (history h) i) (\<lambda>row. terminated row \<and>
           length (cstring row) < MAX_CMD_LEN \<and> cstring row = hist_entries h ! nat i)"
proof -
  have "rows_ok (history h)" "nat i < 20" using assms by (auto simp: hist_wf_def)
  then show ?thesis
    using assms rows_ok_nth [of "history h" "nat i"] terminated_length [of "history h ! nat i"]
    by (auto simp: buf_simps hist_entries_def rows_ok_def)
qed

lemma hist_length: "hist_wf h \<Longrightarrow> length (hist_entries h) = nat (history_count h)"
  by (auto simp: hist_wf_def hist_entries_def rows_ok_def)

lemma hist_index_simps [simp]:
  "hist_entries (h\<lparr>current_history_index := i\<rparr>) = hist_entries h"
  "hist_cursor (h\<lparr>current_history_index := i\<rparr>) = nat i"
  by (simp_all add: hist_entries_def hist_cursor_def)

lemma hist_wf_index:
  "hist_wf h \<Longrightarrow> history_count h \<noteq> 0 \<Longrightarrow> 0 \<le> i \<Longrightarrow> i \<le> history_count h \<Longrightarrow>
   hist_wf (h\<lparr>current_history_index := i\<rparr>)"
  by (simp add: hist_wf_def)

lemma hist_empty_iff: "hist_wf h \<Longrightarrow> hist_entries h = [] \<longleftrightarrow> history_count h = 0"
  by (auto simp: hist_entries_def hist_wf_def rows_ok_def)

lemma history_prev_ok:
  assumes "hist_wf h"
  shows "succeeds (history_prev h) (\<lambda>(p, h'). hist_wf h' \<and> hist_entries h' = hist_entries h \<and>
     terminated p \<and> length (cstring p) < MAX_CMD_LEN \<and> hist_cursor h' = hist_cursor h - 1 \<and>
     cstring p = (if hist_entries h = [] then [] else hist_entries h ! (hist_cursor h - 1)))"
proof (cases "history_count h = 0")
  case True
  then show ?thesis
    using assms hist_empty_iff [OF assms] by (simp add: history_prev_def hist_cursor_def hist_wf_def cstr_def)
next
  case False
  define h1 where "h1 = (if current_history_index h > 0
    then h\<lparr>current_history_index := current_history_index h - 1\<rparr> else h)"
  define i where "i = current_history_index h1"
  have h1: "hist_entries h1 = hist_entries h" "hist_cursor h1 = hist_cursor h - 1"
    "history_count h1 = history_count h"
    by (auto simp: h1_def hist_cursor_def nat_diff_distrib)
  have wf: "hist_wf h1"
    using assms False by (auto simp: h1_def hist_wf_def)
  have i: "0 \<le> i" "i < history_count h1" "nat i = hist_cursor h1"
    using assms False by (auto simp: i_def h1_def hist_wf_def hist_cursor_def)
  have prev: "history_prev h = bindR (buf_read (history h1) i) (\<lambda>row. Inr (row, h1))"
    using False by (simp only: history_prev_def h1_def i_def Let_def if_False)
  obtain row where "buf_read (history h1) i = Inr row" "terminated row"
    "length (cstring row) < MAX_CMD_LEN" "cstring row = hist_entries h1 ! nat i"
    using history_row [OF wf i(1,2)] by (auto elim: succeedsE)
  then show ?thesis
    using prev wf i(3) h1 False hist_empty_iff [OF assms] by simp
qed

lemma history_next_ok:
  assumes "hist_wf h"
  shows "succeeds (history_next h) (\<lambda>(p, h'). hist_wf h' \<and> hist_entries h' = hist_entries h \<and>
     terminated p \<and> length (cstring p) < MAX_CMD_LEN \<and>
     (if Suc (hist_cursor h) < length (hist_entries h)
      then hist_cursor h' = Suc (hist_cursor h) \<and> cstring p = hist_entries h ! Suc (hist_cursor h)
      else hist_cursor h' = length (hist_entries h) \<and> cstring p = []))"
proof (cases "history_count h = 0")
  case True
  then show ?thesis
    using assms hist_empty_iff [OF assms] by (simp add: history_next_def hist_cursor_def hist_wf_def cstr_def)
next
  case False
  let ?i = "current_history_index h"
  have i: "0 \<le> ?i" "?i \<le> history_count h" "0 < history_count h"
    using assms False by (auto simp: hist_wf_def)
  have more: "Suc (hist_cursor h) < length (hist_entries h) \<longleftrightarrow> ?i < history_count h - 1"
    using i hist_length [OF assms] by (auto simp: hist_cursor_def)
  show ?thesis
  proof (cases "?i < history_count h - 1")
    case True
    have wf: "hist_wf (h\<lparr>current_history_index := ?i + 1\<rparr>)"
      using assms False i True by (intro hist_wf_index) auto
    have "nat (?i + 1) = Suc (hist_cursor h)" using i by (simp add: hist_cursor_def nat_add_distrib)
    then show ?thesis
      using history_row [OF wf, of "?i + 1"] i True False more wf
      by (auto simp: history_next_def Let_def succeeds_iff)
  next
    case last: False
    have "hist_wf (h\<lparr>current_history_index := history_count h\<rparr>)"
      using assms False i by (intro hist_wf_index) auto
    then show ?thesis
      using last False more hist_length [OF assms]
      by (auto simp: history_next_def cstr_def)
  qed
qed

interpretation hist: recall_list history_add history_prev history_next hist_wf hist_entries hist_cursor 20 256
  by unfold_locales (simp, (rule history_add_ok history_prev_ok history_next_ok; assumption)+)

section \<open>Reachable states\<close>

text \<open>
  The states the history can be in: from the static initialisers by adding commands that
  fit a row, as the shell's 256-byte line always does, and by moving up and down.
\<close>

inductive hist_reachable :: "hist_state \<Rightarrow> bool" where
  start: "hist_reachable hist_init"
| add: "hist_reachable h \<Longrightarrow> terminated cmd \<Longrightarrow> length (cstring cmd) < MAX_CMD_LEN \<Longrightarrow>
    history_add cmd h = Inr h' \<Longrightarrow> hist_reachable h'"
| up: "hist_reachable h \<Longrightarrow> history_prev h = Inr (p, h') \<Longrightarrow> hist_reachable h'"
| down: "hist_reachable h \<Longrightarrow> history_next h = Inr (p, h') \<Longrightarrow> hist_reachable h'"

lemma hist_reachable_wf: "hist_reachable h \<Longrightarrow> hist_wf h"
proof (induction rule: hist_reachable.induct)
  case start
  show ?case by (rule hist_init_wf)
next
  case (add h cmd h')
  then show ?case using hist.add_ok [of h cmd] by simp
next
  case (up h p h')
  then show ?case using hist.prev_ok [of h] by simp
next
  case (down h p h')
  then show ?case using hist.next_ok [of h] by simp
qed

section \<open>Properties\<close>



text \<open>
  Recall: after a command has been added, pressing \<open>up\<close> \<open>k + 1\<close> times yields the
  \<open>k\<close>-th most recent command (the added one for \<open>k = 0\<close>), as long as that many are stored.
\<close>

theorem history_recall:
  assumes "hist_wf h" "terminated cmd" "length (cstring cmd) < MAX_CMD_LEN"
    and "k < length (last_n 20 (hist_entries h @ [cstring cmd]))"
  shows "\<exists>p h'. bindR (history_add cmd h) (steps_back history_prev k) = Inr (p, h') \<and>
           cstring p = rev (last_n 20 (hist_entries h @ [cstring cmd])) ! k"
  using hist.add_prevs [OF assms] by (auto simp: succeeds_iff)

theorem history_recall_witness:
  "\<exists>p h'. bindR (history_add (cstr ''mem'') hist_init) (steps_back history_prev 0) = Inr (p, h') \<and>
     cstring p = rev (last_n 20 (hist_entries hist_init @ [cstring (cstr ''mem'')])) ! 0"
  by (rule history_recall [OF hist_init_wf]) (simp_all add: cstring_cstr)

text \<open>
  Recall never leaves the array: in every state reached from the initial one by
  adding commands that fit and by moving up and down, \<open>history_prev\<close> and \<open>history_next\<close>
  read an existing row (or answer with the empty literal) and the state stays
  well-formed.
\<close>

theorem history_navigation_safe:
  assumes "hist_reachable h"
  shows "(\<exists>p h'. history_prev h = Inr (p, h') \<and> terminated p \<and> hist_reachable h') \<and>
         (\<exists>p h'. history_next h = Inr (p, h') \<and> terminated p \<and> hist_reachable h')"
  using hist.prev_ok [OF hist_reachable_wf [OF assms]] hist.next_ok [OF hist_reachable_wf [OF assms]]
    hist_reachable.up [OF assms] hist_reachable.down [OF assms]
  by (auto simp: succeeds_iff)

theorem history_navigation_safe_witness:
  "(\<exists>p h'. history_prev hist_init = Inr (p, h') \<and> terminated p \<and> hist_reachable h') \<and>
   (\<exists>p h'. history_next hist_init = Inr (p, h') \<and> terminated p \<and> hist_reachable h')"
  by (rule history_navigation_safe [OF hist_reachable.start])

end
