(* ===== verification/Initramfs.thy ===== *)
theory Initramfs
  imports Libc
begin

text \<open>
  The file table of \<^verbatim>\<open>kernel/fs/initramfs.c\<close>: thirty-two entries with a name, a size and
  a pointer to the data. File handles are entry numbers plus one, zero means "no such
  file". The locale \<open>file_store\<close> is the interface the shell commands read files through.
\<close>

section \<open>State and operations\<close>

record file_t =
  fname :: "u8 list"
  fsize :: u32
  fdata :: "u8 list"
  ftype :: u32

record fs_state =
  files :: "file_t list"
  file_count :: u32

text \<open>The inner comparison of \<open>fs_open\<close>: both names are read up to their first difference or end.\<close>

fun fs_name_eq :: "u8 list \<Rightarrow> u8 list \<Rightarrow> bool res" where
  "fs_name_eq (a # fn) (b # name) =
     (if a \<noteq> 0 \<and> b \<noteq> 0 \<and> a = b then fs_name_eq fn name else Inr (a = 0 \<and> b = 0))"
| "fs_name_eq fn name = Inl Out_Of_Bounds"

function fs_open_loop :: "u8 list \<Rightarrow> fs_state \<Rightarrow> u32 \<Rightarrow> u32 res" where
  "fs_open_loop name st i =
     (if i < file_count st
      then bindR (buf_read (files st) (uint i)) (\<lambda>f.
           bindR (fs_name_eq (fname f) name) (\<lambda>same.
           if same then Inr (i + 1) else fs_open_loop name st (i + 1)))
      else Inr 0)"
  by pat_completeness auto
termination
  by (relation "measure (\<lambda>(name, st, i). unat (file_count st) - unat i)")
     (auto simp: unat_inc unat_mono_less)

declare fs_open_loop.simps [simp del]

definition fs_open :: "u8 list \<Rightarrow> fs_state \<Rightarrow> u32 res" where
  "fs_open name st = fs_open_loop name st 0"

text \<open>\<open>fs_read\<close> answers with the number of bytes and the caller's buffer after the copy.\<close>

definition fs_read :: "u32 \<Rightarrow> u32 \<Rightarrow> u8 list \<Rightarrow> u32 \<Rightarrow> fs_state \<Rightarrow> (u32 \<times> u8 list) res" where
  "fs_read file offset buf len st =
     (let idx = file - 1 in
      if idx \<ge> file_count st then Inr (0, buf)
      else
        bindR (buf_read (files st) (uint idx)) (\<lambda>f.
        if offset \<ge> fsize f then Inr (0, buf)
        else
          let to_read = (if offset + len > fsize f then fsize f - offset else len) in
          bindR (forR 0 (uint to_read) (\<lambda>i buf.
                   bindR (buf_read (fdata f) (uint (offset + word_of_int i))) (\<lambda>v.
                   buf_write buf i v)) buf) (\<lambda>buf.
          Inr (to_read, buf))))"

definition fs_size :: "u32 \<Rightarrow> fs_state \<Rightarrow> u32 res" where
  "fs_size file st =
     (let idx = file - 1 in
      if idx \<ge> file_count st then Inr 0
      else bindR (buf_read (files st) (uint idx)) (\<lambda>f. Inr (fsize f)))"

text \<open>The static initial value of the table: no file is ever added by the sources.\<close>

definition fs_init :: fs_state where
  "fs_init = \<lparr>files = replicate 32 \<lparr>fname = replicate 64 0, fsize = 0, fdata = [], ftype = 0\<rparr>, file_count = 0\<rparr>"

section \<open>Well-formed tables\<close>

definition file_wf :: "file_t \<Rightarrow> bool" where
  "file_wf f \<longleftrightarrow> length (fname f) = 64 \<and> terminated (fname f) \<and> length (fdata f) = unat (fsize f)"

definition fs_wf :: "fs_state \<Rightarrow> bool" where
  "fs_wf st \<longleftrightarrow> length (files st) = 32 \<and> file_count st \<le> 32 \<and>
     (\<forall>i < unat (file_count st). file_wf (files st ! i))"

text \<open>The table as an association of names and contents, in table order.\<close>

definition fs_dir :: "fs_state \<Rightarrow> (u8 list \<times> u8 list) list" where
  "fs_dir st = map (\<lambda>f. (cstring (fname f), fdata f)) (take (unat (file_count st)) (files st))"

lemma fs_count_le: "fs_wf st \<Longrightarrow> unat (file_count st) \<le> 32"
  by (simp add: fs_wf_def word_le_nat_alt)

lemma length_fs_dir: "fs_wf st \<Longrightarrow> length (fs_dir st) = unat (file_count st)"
  using fs_count_le [of st] by (simp add: fs_dir_def fs_wf_def)

lemma fs_dir_nth:
  "fs_wf st \<Longrightarrow> i < unat (file_count st) \<Longrightarrow>
   fs_dir st ! i = (cstring (fname (files st ! i)), fdata (files st ! i))"
  using fs_count_le [of st] by (simp add: fs_dir_def fs_wf_def)

lemma fs_file:
  assumes "fs_wf st" "i < file_count st"
  shows "buf_read (files st) (uint i) = Inr (files st ! unat i)" "file_wf (files st ! unat i)"
proof -
  have count: "unat i < unat (file_count st)"
    using assms(2) by (simp only: word_less_nat_alt)
  then show "file_wf (files st ! unat i)"
    using assms(1) by (simp add: fs_wf_def)
  have "unat i < length (files st)"
    using fs_count_le [OF assms(1)] count assms(1) by (simp add: fs_wf_def)
  then show "buf_read (files st) (uint i) = Inr (files st ! unat i)"
    by (rule buf_read_unat)
qed

lemma fs_name_eq_spec:
  "terminated fn \<Longrightarrow> terminated name \<Longrightarrow> fs_name_eq fn name = Inr (cstring fn = cstring name)"
  by (induction fn name rule: fs_name_eq.induct) auto

lemma fs_init_wf: "fs_wf fs_init"
  by (simp add: fs_wf_def fs_init_def)

section \<open>Opening\<close>

text \<open>The first entry from \<open>i\<close> on whose name is \<open>name\<close>.\<close>

fun first_named :: "u8 list \<Rightarrow> (u8 list \<times> 'd) list \<Rightarrow> nat option" where
  "first_named name [] = None"
| "first_named name (e # es) = (if fst e = name then Some 0 else map_option Suc (first_named name es))"

lemma first_named_Some:
  "first_named name es = Some k \<Longrightarrow>
   k < length es \<and> fst (es ! k) = name \<and> (\<forall>j < k. fst (es ! j) \<noteq> name)"
  by (induction es arbitrary: k) (auto split: if_splits simp: less_Suc_eq_0_disj, blast)

lemma first_named_None: "first_named name es = None \<longleftrightarrow> name \<notin> fst ` set es"
  by (induction es) (auto split: if_splits)

lemma first_named_map_of:
  "map_of es name = map_option (\<lambda>k. snd (es ! k)) (first_named name es)"
  by (induction es) (auto simp: option.map_comp comp_def)

lemma fs_open_loop_spec:
  assumes "fs_wf st" "terminated name" "i \<le> file_count st"
  shows "fs_open_loop name st i =
    Inr (case first_named (cstring name) (drop (unat i) (fs_dir st)) of
           None \<Rightarrow> 0 | Some k \<Rightarrow> of_nat (unat i + k + 1))"
  using assms
proof (induction name st i rule: fs_open_loop.induct)
  case (1 name st i)
  show ?case
  proof (cases "i < file_count st")
    case True
    let ?f = "files st ! unat i"
    have i: "unat i < length (fs_dir st)"
      using True "1.prems" by (simp add: length_fs_dir unat_mono_less)
    then have hd: "drop (unat i) (fs_dir st) = (cstring (fname ?f), fdata ?f) # drop (Suc (unat i)) (fs_dir st)"
      using fs_dir_nth [OF "1.prems"(1), of "unat i"] "1.prems"(1)
      by (simp add: Cons_nth_drop_Suc [symmetric] length_fs_dir)
    have inc: "unat (i + 1) = Suc (unat i)" using True by (rule unat_inc)
    have le: "i + 1 \<le> file_count st" using True inc by (simp add: word_le_nat_alt unat_mono_less)
    have eq: "fs_name_eq (fname ?f) name = Inr (cstring (fname ?f) = cstring name)"
      using fs_file(2) [OF "1.prems"(1) True] "1.prems"(2) by (simp add: fs_name_eq_spec file_wf_def)
    have i1: "of_nat (Suc (unat i)) = i + 1" by simp
    show ?thesis
      using True fs_file(1) [OF "1.prems"(1) True] eq hd inc
        "1.IH" [OF True fs_file(1) [OF "1.prems"(1) True] eq _ "1.prems"(1,2) le]
      by (auto simp: fs_open_loop.simps [of name st i] add_ac split: option.splits)
  next
    case False
    then have "file_count st \<le> i" by simp
    then show ?thesis
      using False "1.prems"(1) word_le_nat_alt [of "file_count st" i]
      by (simp only: fs_open_loop.simps [of name st i]) (simp add: length_fs_dir)
  qed
qed

lemma fs_open_eq:
  "fs_wf st \<Longrightarrow> terminated name \<Longrightarrow>
   fs_open name st = Inr (case first_named (cstring name) (fs_dir st) of None \<Rightarrow> 0 | Some k \<Rightarrow> of_nat (k + 1))"
  by (simp add: fs_open_def fs_open_loop_spec split: option.split)

section \<open>Reading\<close>

text \<open>The bytes a handle gives access to.\<close>

definition fs_content :: "fs_state \<Rightarrow> u32 \<Rightarrow> u8 list" where
  "fs_content st h =
     (if h - 1 < file_count st then fdata (files st ! unat (h - 1)) else [])"

lemma copy_chunk:
  fixes offset :: u32
  assumes "unat offset + n \<le> length data" "n \<le> length buf" "length data < 2 ^ 32"
  shows "forR 0 (int n) (\<lambda>i buf.
           bindR (buf_read data (uint (offset + word_of_int i))) (\<lambda>v. buf_write buf i v)) buf =
         Inr (take n (drop (unat offset) data) @ drop n buf)"
proof -
  let ?b = "\<lambda>i. take (nat i) (drop (unat offset) data) @ drop (nat i) buf"
  have "succeeds (forR 0 (int n) (\<lambda>i buf.
           bindR (buf_read data (uint (offset + word_of_int i))) (\<lambda>v. buf_write buf i v)) buf)
         (\<lambda>b. b = ?b (int n))"
  proof (rule succeeds_forR [where I = "\<lambda>i b. b = ?b i"])
    fix i b assume i: "0 \<le> i" "i < int n" and b: "b = ?b i"
    define k where "k = nat i"
    have k: "i = int k" "k < n" using i by (auto simp: k_def)
    have "unat (offset + of_nat k) = unat offset + k"
      using k assms by (subst unat_add_lem [THEN iffD1]) (auto simp: unat_of_nat)
    then have "buf_read data (uint (offset + word_of_int i)) = Inr (data ! (unat offset + k))"
      using k assms buf_read_unat [of "offset + of_nat k" data] by simp
    moreover have "take (Suc k) (drop (unat offset) data) = take k (drop (unat offset) data) @ [data ! (unat offset + k)]"
      using k assms by (simp add: take_Suc_conv_app_nth)
    moreover have "(drop k buf)[0 := v] = v # drop (Suc k) buf" for v
      using k assms by (cases "drop k buf") (simp_all add: drop_Suc drop_tl flip: tl_drop)
    ultimately show "succeeds (bindR (buf_read data (uint (offset + word_of_int i))) (\<lambda>v. buf_write b i v))
                       (\<lambda>b. b = ?b (i + 1))"
      using b k assms by (simp add: buf_simps list_update_append nat_add_distrib)
  qed auto
  then show ?thesis by (auto simp: succeeds_iff)
qed

lemma unat_add_no_wrap: "unat a + unat b < 2 ^ 32 \<Longrightarrow> unat (a + b) = unat a + unat b" for a b :: u32
  by (simp add: unat_add_lem [symmetric])

lemma fs_read_eq:
  fixes h :: u32
  assumes wf: "fs_wf st" and len: "unat len \<le> length buf" and nowrap: "unat offset + unat len < 2 ^ 32"
  defines "n \<equiv> min (unat len) (length (fs_content st h) - unat offset)"
  shows "fs_read h offset buf len st =
         Inr (of_nat n, take n (drop (unat offset) (fs_content st h)) @ drop n buf)"
proof (cases "h - 1 < file_count st")
  case True
  let ?f = "files st ! unat (h - 1)"
  have f: "buf_read (files st) (uint (h - 1)) = Inr ?f" "length (fdata ?f) = unat (fsize ?f)"
    using fs_file [OF wf True] by (auto simp: file_wf_def)
  have data: "fs_content st h = fdata ?f" using True by (simp add: fs_content_def)
  show ?thesis
  proof (cases "offset < fsize ?f")
    case below: True
    define to_read where "to_read = (if offset + len > fsize ?f then fsize ?f - offset else len)"
    have off: "unat offset < unat (fsize ?f)" using below by (simp only: word_less_nat_alt)
    have n: "unat to_read = n"
      using off f(2) data unat_add_no_wrap [OF nowrap]
      by (auto simp: to_read_def n_def word_less_nat_alt unat_sub word_le_nat_alt)
    then have "to_read = of_nat n" by (metis of_nat_unat ucast_id)
    moreover have "uint to_read = int n" using n by (metis of_nat_unat)
    moreover have "length (fdata ?f) < 2 ^ 32" using f(2) unat_u32_less by simp
    ultimately show ?thesis
      using True below f data copy_chunk [of offset n "fdata ?f" buf] len off
      by (simp add: fs_read_def Let_def to_read_def [symmetric] n_def)
  next
    case False
    then have "unat (fsize ?f) \<le> unat offset" by (simp add: not_less word_le_nat_alt)
    moreover have "fsize ?f \<le> offset" "\<not> file_count st \<le> h - 1"
      using True False by (simp_all add: not_less not_le)
    ultimately show ?thesis
      using f data by (simp add: fs_read_def Let_def n_def)
  qed
next
  case False
  then have "file_count st \<le> h - 1" by (simp add: not_less)
  then show ?thesis using False by (simp add: fs_read_def Let_def n_def fs_content_def)
qed

text \<open>
  The contract of a file reader: a read below the end of the address space copies the
  bytes of the content from the offset on, as many as are left and fit, and leaves the
  rest of the buffer alone.
\<close>

locale file_store =
  fixes rd :: "u32 \<Rightarrow> u32 \<Rightarrow> u8 list \<Rightarrow> u32 \<Rightarrow> 'st \<Rightarrow> (u32 \<times> u8 list) res"
    and content :: "'st \<Rightarrow> u32 \<Rightarrow> u8 list"
    and wf :: "'st \<Rightarrow> bool"
  assumes content_bound: "wf st \<Longrightarrow> length (content st h) < 2 ^ 32"
    and read_law: "wf st \<Longrightarrow> unat len \<le> length buf \<Longrightarrow> unat offset + unat len < 2 ^ 32 \<Longrightarrow>
      rd h offset buf len st =
        Inr (of_nat (min (unat len) (length (content st h) - unat offset)),
             take (min (unat len) (length (content st h) - unat offset)) (drop (unat offset) (content st h))
             @ drop (min (unat len) (length (content st h) - unat offset)) buf)"
begin

lemma read_bytes:
  assumes "wf st" "unat len \<le> length buf" "unat offset + unat len < 2 ^ 32"
  shows "\<exists>n buf'. rd h offset buf len st = Inr (n, buf') \<and> unat n = min (unat len) (length (content st h) - unat offset) \<and>
           length buf' = length buf \<and> take (unat n) buf' = take (unat n) (drop (unat offset) (content st h)) \<and>
           drop (unat n) buf' = drop (unat n) buf"
proof -
  let ?n = "min (unat len) (length (content st h) - unat offset)"
  have "unat (of_nat ?n :: u32) = ?n"
    using unat_u32_less [of len] by (intro unat_of_nat_u32) simp
  then show ?thesis
    using assms by (auto simp: read_law)
qed

text \<open>A read answers zero exactly at the end of the content.\<close>

lemma read_end:
  assumes "wf st" "unat len \<le> length buf" "unat offset + unat len < 2 ^ 32" "0 < unat len"
  shows "rd h offset buf len st = Inr (0, buf) \<longleftrightarrow> length (content st h) \<le> unat offset"
proof -
  obtain n buf' where r: "rd h offset buf len st = Inr (n, buf')"
    "unat n = min (unat len) (length (content st h) - unat offset)"
    using read_bytes [OF assms(1-3)] by blast
  show ?thesis
    using r assms(4) read_law [OF assms(1-3), of h] by auto
qed

end

lemma fs_content_bound: "fs_wf st \<Longrightarrow> length (fs_content st h) < 2 ^ 32"
  using fs_file(2) [of st "h - 1"] unat_u32_less by (auto simp: fs_content_def file_wf_def)

interpretation initramfs: file_store fs_read fs_content fs_wf
  by unfold_locales (rule fs_content_bound, assumption, rule fs_read_eq)

lemma fs_open_found:
  assumes "fs_wf st" "terminated name" "first_named (cstring name) (fs_dir st) = Some k"
  shows "\<exists>h. fs_open name st = Inr h \<and> h \<noteq> 0 \<and>
           map_of (fs_dir st) (cstring name) = Some (fs_content st h)"
proof -
  have k: "k < unat (file_count st)"
    using first_named_Some [OF assms(3)] assms(1) by (simp add: length_fs_dir)
  then have k32: "k < 32" using fs_count_le [OF assms(1)] by simp
  have "unat (of_nat (Suc k) :: u32) = Suc k"
    using k32 by (intro unat_of_nat_u32) simp
  then have nz: "(of_nat (Suc k) :: u32) \<noteq> 0" by (metis Zero_neq_Suc unsigned_0)
  have "(of_nat (Suc k) :: u32) - 1 = of_nat k" "unat (of_nat k :: u32) = k"
    using k32 by simp_all
  then have "fs_content st (of_nat (Suc k)) = snd (fs_dir st ! k)"
    using k assms(1) by (simp add: fs_content_def fs_dir_nth word_less_nat_alt)
  then show ?thesis
    using assms nz by (auto simp: fs_open_eq first_named_map_of)
qed

text \<open>A table with one file, for concrete instances.\<close>

definition hello_fs :: fs_state where
  "hello_fs = \<lparr>files = \<lparr>fname = cstr ''bin/hello'' @ replicate 54 0, fsize = 2, fdata = [0x68, 0x69], ftype = 0\<rparr>
       # replicate 31 \<lparr>fname = replicate 64 0, fsize = 0, fdata = [], ftype = 0\<rparr>, file_count = 1\<rparr>"

lemma hello_fs_wf: "fs_wf hello_fs"
  by (simp add: fs_wf_def hello_fs_def file_wf_def terminated_def cstr_def)

section \<open>Properties\<close>

text \<open>
  \<open>fs_open\<close> returns for every terminated name; its handle is zero exactly when no
  entry has that name, and otherwise it designates the first entry with the name, whose
  content is what the table as a whole associates with the name.
\<close>

theorem fs_open_correct:
  assumes "fs_wf st" "terminated name"
  shows "\<exists>h. fs_open name st = Inr h \<and>
           (h = 0 \<longleftrightarrow> cstring name \<notin> fst ` set (fs_dir st)) \<and>
           (h \<noteq> 0 \<longrightarrow> map_of (fs_dir st) (cstring name) = Some (fs_content st h))"
proof (cases "first_named (cstring name) (fs_dir st)")
  case None
  then have "cstring name \<notin> fst ` set (fs_dir st)" by (simp add: first_named_None)
  then show ?thesis
    using assms None by (simp add: fs_open_eq)
next
  case (Some k)
  then show ?thesis
    using fs_open_found [OF assms Some] first_named_None [of "cstring name" "fs_dir st"] by auto
qed

theorem fs_open_correct_witness:
  "\<exists>h. fs_open (cstr ''bin/hello'') hello_fs = Inr h \<and>
     (h = 0 \<longleftrightarrow> cstring (cstr ''bin/hello'') \<notin> fst ` set (fs_dir hello_fs)) \<and>
     (h \<noteq> 0 \<longrightarrow> map_of (fs_dir hello_fs) (cstring (cstr ''bin/hello'')) = Some (fs_content hello_fs h))"
  by (rule fs_open_correct [OF hello_fs_wf]) simp

text \<open>
  \<open>fs_read\<close> copies exactly the requested part of the file, cut at its end, leaves the
  rest of the caller's buffer alone and touches no byte outside it or outside the file,
  for every handle and every offset, as long as offset plus length does not wrap around.
\<close>

theorem fs_read_correct:
  assumes "fs_wf st" "unat len \<le> length buf" "unat offset + unat len < 2 ^ 32"
  shows "\<exists>n buf'. fs_read h offset buf len st = Inr (n, buf') \<and>
           unat n = min (unat len) (length (fs_content st h) - unat offset) \<and>
           length buf' = length buf \<and>
           take (unat n) buf' = take (unat n) (drop (unat offset) (fs_content st h)) \<and>
           drop (unat n) buf' = drop (unat n) buf"
  by (rule initramfs.read_bytes [OF assms])

theorem fs_read_correct_witness:
  "\<exists>n buf'. fs_read 1 1 [0, 0, 0] 3 hello_fs = Inr (n, buf') \<and>
     unat n = min (unat (3::u32)) (length (fs_content hello_fs 1) - unat (1::u32)) \<and>
     length buf' = length [0, 0, 0 :: u8] \<and>
     take (unat n) buf' = take (unat n) (drop (unat (1::u32)) (fs_content hello_fs 1)) \<and>
     drop (unat n) buf' = drop (unat n) [0, 0, 0 :: u8]"
  by (rule fs_read_correct [OF hello_fs_wf]) simp_all

text \<open>
  C27. The wrap-around of \<open>offset + to_read\<close>: a read that starts inside the file with a
  length that carries the sum past 2 to the 32 is not cut, and the copy runs out of the
  file (or of the caller's buffer).
\<close>

theorem fs_read_wrap_overruns:
  assumes "fs_wf st" "unat offset < length (fs_content st h)" "2 ^ 32 \<le> unat offset + unat len"
  shows "fs_read h offset buf len st = Inl Out_Of_Bounds"
proof -
  let ?f = "files st ! unat (h - 1)"
  have h: "h - 1 < file_count st"
    using assms(2) by (auto simp: fs_content_def split: if_splits)
  have f: "buf_read (files st) (uint (h - 1)) = Inr ?f" "length (fdata ?f) = unat (fsize ?f)"
    using fs_file [OF assms(1) h] by (auto simp: file_wf_def)
  have off: "unat offset < unat (fsize ?f)" using assms(2) h f by (simp add: fs_content_def)
  have "unat (offset + len) = unat offset + unat len - 2 ^ 32"
    using assms(3) unat_plus_if' [of offset len] by simp
  then have "\<not> fsize ?f < offset + len" "\<not> fsize ?f \<le> offset"
    using off unat_u32_less [of len] by (auto simp: word_less_nat_alt word_le_nat_alt)
  moreover have "forR 0 (uint len) (\<lambda>i buf.
       bindR (buf_read (fdata ?f) (uint (offset + word_of_int i))) (\<lambda>v. buf_write buf i v)) buf =
     Inl Out_Of_Bounds"
  proof (rule forR_fails [where k = "int (unat (fsize ?f) - unat offset)"])
    have "offset + of_nat (unat (fsize ?f) - unat offset) = fsize ?f"
      using off by (simp add: of_nat_diff)
    then show "bindR (buf_read (fdata ?f) (uint (offset + word_of_int (int (unat (fsize ?f) - unat offset)))))
        (\<lambda>v. buf_write buf (int (unat (fsize ?f) - unat offset)) v) = Inl Out_Of_Bounds" for buf
      using f(2) by (simp add: buf_read_def)
    have "unat (fsize ?f) - unat offset < unat len"
      using assms(3) unat_u32_less [of "fsize ?f"] off by linarith
    then show "int (unat (fsize ?f) - unat offset) < uint len"
      by (metis of_nat_less_iff of_nat_unat)
  qed (auto simp: buf_read_def buf_write_def)
  ultimately show ?thesis
    using h f(1) by (simp add: fs_read_def Let_def)
qed

theorem fs_read_wrap_overruns_witness:
  "fs_read 1 1 [] 0xFFFFFFFF hello_fs = Inl Out_Of_Bounds"
  by (rule fs_read_wrap_overruns [OF hello_fs_wf]) (simp_all add: fs_content_def hello_fs_def)

text \<open>
  Nothing in the sources ever enters a file into the table, so in the only state the
  kernel can be in every \<open>fs_open\<close> answers "no such file" and every read is empty.
\<close>

theorem fs_init_is_empty:
  "fs_open name fs_init = Inr 0 \<and> fs_read h offset buf len fs_init = Inr (0, buf)"
proof
  have "file_count fs_init = 0" by (simp add: fs_init_def)
  then show "fs_open name fs_init = Inr 0" "fs_read h offset buf len fs_init = Inr (0, buf)"
    by (simp_all add: fs_open_def fs_open_loop.simps [of name fs_init 0] fs_read_def)
qed

end
