(* ===== verification/Kprintf.thy ===== *)
theory Kprintf
  imports Vga
begin

text \<open>
  Formatted output, \<^verbatim>\<open>kernel/printf/kprintf.c\<close>, and the decimal conversion loop that the
  shell commands repeat with arrays of other sizes. What is printed is compared with the
  reference strings \<open>dec_string\<close> and \<open>hex_string\<close>, which read back as the number.
\<close>

section \<open>Operations\<close>

text \<open>The literal \<open>"0123456789ABCDEF"\<close> indexed by a nibble.\<close>

definition hex_char :: "u32 \<Rightarrow> u8 res" where
  "hex_char n = buf_read (cstr ''0123456789ABCDEF'') (uint n)"

function print_hex_loop :: "u32 \<Rightarrow> int \<Rightarrow> u8 list \<Rightarrow> u8 list res" where
  "print_hex_loop num j buf =
     (if j \<ge> 0
      then if j * 4 \<ge> 32 then Inl Bad_Shift
           else bindR (hex_char (drop_bit (nat (j * 4)) num AND 0xF)) (\<lambda>c.
                bindR (push_buf 11 buf c) (\<lambda>buf.
                print_hex_loop num (j - 1) buf))
      else Inr buf)"
  by pat_completeness auto
termination
  by (relation "measure (\<lambda>(num, j, buf). nat (j + 1))") auto

declare print_hex_loop.simps [simp del]

definition print_hex :: "u32 \<Rightarrow> int \<Rightarrow> 'a vga_state_scheme \<Rightarrow> 'a vga_state_scheme res" where
  "print_hex num digits s =
     bindR (print_hex_loop num (digits - 1) []) (\<lambda>buf.
     bindR (push_buf 11 buf 0) (\<lambda>buf.
     vga_writestring buf s))"

text \<open>\<open>while (num) { buf[i++] = '0' + (num % 10); num /= 10; }\<close> on an array of \<open>cap\<close> bytes.\<close>

function dec_loop :: "nat \<Rightarrow> u32 \<Rightarrow> u8 list \<Rightarrow> u8 list res" where
  "dec_loop cap num buf =
     (if num > 0
      then bindR (push_buf cap buf (ucast (0x30 + num mod 10))) (\<lambda>buf.
           dec_loop cap (num div 10) buf)
      else Inr buf)"
  by pat_completeness auto
termination
proof (relation "measure (\<lambda>(cap, num, buf). unat num)")
  fix num :: u32
  assume "0 < num"
  then have "0 < unat num" by (simp add: word_less_nat_alt)
  then have "unat (num div 10) < unat num" by (simp add: unat_div_distrib)
  then show "((cap, num div 10, buf), cap, num, buf') \<in> measure (\<lambda>(cap, num, buf). unat num)"
    for cap and buf buf' :: "u8 list" by simp
qed simp

declare dec_loop.simps [simp del]

definition print_dec :: "u32 \<Rightarrow> 'a vga_state_scheme \<Rightarrow> 'a vga_state_scheme res" where
  "print_dec num s =
     (if num = 0 then vga_putchar 0x30 s
      else bindR (dec_loop 12 num []) (\<lambda>buf. foldR vga_putchar (rev buf) s))"

datatype vararg = Str_Arg "u8 list" | Word_Arg u32

definition va_str :: "vararg list \<Rightarrow> (u8 list \<times> vararg list) res" where
  "va_str args = (case args of Str_Arg p # rest \<Rightarrow> Inr (p, rest) | _ \<Rightarrow> Inl Bad_Argument)"

definition va_word :: "vararg list \<Rightarrow> (u32 \<times> vararg list) res" where
  "va_word args = (case args of Word_Arg w # rest \<Rightarrow> Inr (w, rest) | _ \<Rightarrow> Inl Bad_Argument)"

text \<open>One conversion: the character after the percent sign.\<close>

definition kprintf_conv ::
  "u8 \<Rightarrow> vararg list \<Rightarrow> 'a vga_state_scheme \<Rightarrow> (vararg list \<times> 'a vga_state_scheme) res" where
  "kprintf_conv d args s =
     (if d = of_char (CHR ''s'') then
        bindR (va_str args) (\<lambda>(p, args). bindR (vga_writestring p s) (\<lambda>s. Inr (args, s)))
      else if d = of_char (CHR ''d'') \<or> d = of_char (CHR ''i'') then
        bindR (va_word args) (\<lambda>(w, args). bindR (print_dec w s) (\<lambda>s. Inr (args, s)))
      else if d = of_char (CHR ''x'') \<or> d = of_char (CHR ''X'') then
        bindR (va_word args) (\<lambda>(w, args). bindR (print_hex w 8 s) (\<lambda>s. Inr (args, s)))
      else if d = of_char (CHR ''c'') then
        bindR (va_word args) (\<lambda>(w, args). bindR (vga_putchar (ucast w) s) (\<lambda>s. Inr (args, s)))
      else if d = of_char (CHR ''%'') then
        bindR (vga_putchar (of_char (CHR ''%'')) s) (\<lambda>s. Inr (args, s))
      else
        bindR (vga_putchar (of_char (CHR ''%'')) s) (\<lambda>s.
        bindR (vga_putchar d s) (\<lambda>s. Inr (args, s))))"

text \<open>After a conversion the scan goes on behind the conversion character, whatever it is.\<close>

fun kprintf :: "u8 list \<Rightarrow> vararg list \<Rightarrow> 'a vga_state_scheme \<Rightarrow> 'a vga_state_scheme res" where
  "kprintf [] args s = Inl Out_Of_Bounds"
| "kprintf (c # fmt) args s =
     (if c = 0 then Inr s
      else if c = of_char (CHR ''%'')
      then (case fmt of
              [] \<Rightarrow> Inl Out_Of_Bounds
            | d # fmt' \<Rightarrow> bindR (kprintf_conv d args s) (\<lambda>(args, s). kprintf fmt' args s))
      else bindR (vga_putchar c s) (\<lambda>s. kprintf fmt args s))"

definition printf_init :: "'a vga_state_scheme \<Rightarrow> 'a vga_state_scheme res" where
  "printf_init s = kprintf (cstr (''[INFO] printf initialized'' @ [CHR 0x0A])) [] s"

section \<open>Decimal numbers\<close>

fun dec_string :: "nat \<Rightarrow> u8 list" where
  "dec_string n =
     (if n < 10 then [of_nat (0x30 + n)] else dec_string (n div 10) @ [of_nat (0x30 + n mod 10)])"

declare dec_string.simps [simp del]

text \<open>Reading a decimal string back.\<close>

definition dec_value :: "u8 list \<Rightarrow> nat" where
  "dec_value cs = foldl (\<lambda>v c. 10 * v + (unat c - 0x30)) 0 cs"

definition is_digit :: "u8 \<Rightarrow> bool" where
  "is_digit c \<longleftrightarrow> 0x30 \<le> unat c \<and> unat c \<le> 0x39"

lemma dec_value_snoc: "dec_value (cs @ [c]) = 10 * dec_value cs + (unat c - 0x30)"
  by (simp add: dec_value_def)

lemma unat_digit: "d < 10 \<Longrightarrow> unat (of_nat (0x30 + d) :: u8) = 0x30 + d"
  by (simp add: unat_of_nat del: of_nat_add)

lemma dec_string_value: "dec_value (dec_string n) = n"
proof (induction n rule: dec_string.induct)
  case (1 n)
  have "unat (of_nat (0x30 + n mod 10) :: u8) = 0x30 + n mod 10" by (rule unat_digit) simp
  then show ?case
    using 1 unat_digit [of n]
    by (subst dec_string.simps) (auto simp: dec_value_snoc dec_value_def [of "[_]"] simp del: of_nat_add)
qed

lemma dec_string_digits: "c \<in> set (dec_string n) \<Longrightarrow> is_digit c"
proof (induction n arbitrary: c rule: dec_string.induct)
  case (1 n)
  have "is_digit (of_nat (0x30 + n mod 10) :: u8)" "n < 10 \<Longrightarrow> is_digit (of_nat (0x30 + n) :: u8)"
    using unat_digit [of "n mod 10"] unat_digit [of n] by (auto simp: is_digit_def simp del: of_nat_add)
  then show ?case
    using 1 by (subst (asm) (2) dec_string.simps) (auto split: if_splits simp del: of_nat_add)
qed

lemma dec_string_nonempty [simp]: "dec_string n \<noteq> []"
  by (subst dec_string.simps) simp

lemma length_dec_string: "0 < k \<Longrightarrow> length (dec_string n) \<le> k \<longleftrightarrow> n < 10 ^ k"
proof (induction k arbitrary: n)
  case (Suc k)
  show ?case
  proof (cases "k = 0")
    case True
    have "length (dec_string n) \<le> 1 \<longleftrightarrow> n < 10"
      by (subst dec_string.simps) (auto simp: Suc_le_eq)
    with True show ?thesis by simp
  next
    case False
    then have IH: "length (dec_string (n div 10)) \<le> k \<longleftrightarrow> n div 10 < 10 ^ k" using Suc.IH by simp
    have "n div 10 < 10 ^ k \<longleftrightarrow> n < 10 ^ Suc k"
      by (simp add: div_less_iff_less_mult mult.commute)
    moreover have "n < 10 \<Longrightarrow> n < 10 ^ Suc k"
      by (rule less_le_trans [of _ 10]) simp_all
    ultimately show ?thesis
      using IH by (subst dec_string.simps) auto
  qed
qed simp

text \<open>The conversion loop stores the digits in reverse, if the array has room for them.\<close>

lemma dec_loop_spec:
  "dec_loop cap num buf =
     (if num = 0 then Inr buf
      else if length buf + length (dec_string (unat num)) \<le> cap
      then Inr (buf @ rev (dec_string (unat num))) else Inl Out_Of_Bounds)"
proof (induction cap num buf rule: dec_loop.induct)
  case (1 cap num buf)
  show ?case
  proof (cases "num = 0")
    case False
    let ?d = "ucast (0x30 + num mod 10) :: u8"
    have d: "?d = of_nat (0x30 + unat num mod 10)"
    proof -
      have "unat (num mod 10) = unat num mod 10" by (simp add: unat_mod_distrib)
      then have "unat (0x30 + num mod 10) = 0x30 + unat num mod 10"
        by (simp add: unat_plus_if')
      then show ?thesis by (metis of_nat_unat)
    qed
    have q: "unat (num div 10) = unat num div 10" by (simp add: unat_div_distrib)
    have q0: "num div 10 = 0 \<longleftrightarrow> unat num < 10"
      by (simp add: word_unat_eq_iff q div_eq_0_iff)
    show ?thesis
      using False "1.IH" [of "buf @ [?d]"] q q0
      by (subst dec_loop.simps, subst (1 2) dec_string.simps) (auto simp: push_buf_def d word_gt_0)
  qed (simp add: dec_loop.simps [of cap 0 buf])
qed

lemma print_dec_eq: "print_dec num s = foldR vga_putchar (dec_string (unat num)) s"
proof (cases "num = 0")
  case True
  then show ?thesis by (simp add: print_dec_def dec_string.simps [of 0])
next
  case False
  have "length (dec_string (unat num)) \<le> 12"
    using length_dec_string [of 12 "unat num"] unsigned_less [of num, where 'a = nat] by simp
  then show ?thesis using False by (simp add: print_dec_def dec_loop_spec)
qed

section \<open>Hexadecimal numbers\<close>

definition hex_digit :: "u32 \<Rightarrow> u8" where
  "hex_digit n = cstr ''0123456789ABCDEF'' ! unat n"

definition hex_string :: "u32 \<Rightarrow> u8 list" where
  "hex_string num = map (\<lambda>j. hex_digit (drop_bit (j * 4) num AND 0xF)) (rev [0..<8])"

definition hex_digit_value :: "u8 \<Rightarrow> nat" where
  "hex_digit_value c = (if unat c \<le> 0x39 then unat c - 0x30 else unat c - 0x41 + 10)"

definition hex_value :: "u8 list \<Rightarrow> nat" where
  "hex_value cs = foldl (\<lambda>v c. 16 * v + hex_digit_value c) 0 cs"

lemma nibble_less: "unat (w AND 0xF) < 16" for w :: u32
  by (simp add: and_mask_simps unsigned_take_bit_eq take_bit_eq_mod unat_mod_distrib)

lemma hex_char_eq: "unat n < 16 \<Longrightarrow> hex_char n = Inr (hex_digit n)"
  by (simp add: hex_char_def hex_digit_def buf_read_unat cstr_def)

lemma hex_digits_table:
  "\<forall>n \<in> set [0..<16]. hex_digit_value (cstr ''0123456789ABCDEF'' ! n) = n \<and>
     cstr ''0123456789ABCDEF'' ! n \<noteq> 0"
  by code_simp

lemma hex_digit_spec:
  "unat n < 16 \<Longrightarrow> hex_digit_value (hex_digit n) = unat n \<and> hex_digit n \<noteq> 0"
  using hex_digits_table by (simp add: hex_digit_def)

lemma print_hex_loop_eq:
  assumes "k \<le> 8" "length buf + k \<le> 11"
  shows "print_hex_loop num (int k - 1) buf =
         Inr (buf @ map (\<lambda>j. hex_digit (drop_bit (j * 4) num AND 0xF)) (rev [0..<k]))"
  using assms
proof (induction k arbitrary: buf)
  case (Suc k)
  have "nat (int k * 4) = k * 4" by simp
  then show ?case
    using Suc by (subst print_hex_loop.simps) (simp add: hex_char_eq nibble_less buf_simps)
qed (simp add: print_hex_loop.simps)

lemma hex_value_snoc: "hex_value (cs @ [c]) = 16 * hex_value cs + hex_digit_value c"
  by (simp add: hex_value_def)

lemma hex_digits_value:
  "hex_value (map (\<lambda>j. hex_digit (drop_bit (j * 4) num AND 0xF)) (rev [0..<k])) = unat num mod 16 ^ k"
proof (induction k arbitrary: num)
  case (Suc k)
  have "[0..<Suc k] = 0 # map Suc [0..<k]"
    by (simp add: upt_conv_Cons map_Suc_upt del: upt_Suc)
  then have "map (\<lambda>j. hex_digit (drop_bit (j * 4) num AND 0xF)) (rev [0..<Suc k]) =
      map (\<lambda>j. hex_digit (drop_bit (j * 4) (drop_bit 4 num) AND 0xF)) (rev [0..<k])
        @ [hex_digit (num AND 0xF)]"
    by (simp add: rev_map add.commute del: upt_Suc)
  moreover have "hex_digit_value (hex_digit (num AND 0xF)) = unat num mod 16"
    by (simp add: hex_digit_spec nibble_less)
       (simp add: and_mask_simps unsigned_take_bit_eq take_bit_eq_mod unat_mod_distrib)
  moreover have "unat (drop_bit 4 num) = unat num div 16"
    by (simp add: drop_bit_eq_div unat_div_distrib)
  ultimately show ?case
    using Suc [of "drop_bit 4 num"] mod_mult2_eq [of "unat num" 16 "16 ^ k"]
    by (simp add: hex_value_snoc del: upt_Suc)
qed (simp add: hex_value_def)

lemma hex_string_value: "hex_value (hex_string num) = unat num"
  using hex_digits_value [of num 8] unsigned_less [of num, where 'a = nat] by (simp add: hex_string_def)

lemma hex_string_nonzero: "0 \<notin> set (hex_string num)"
  using hex_digit_spec [OF nibble_less] by (auto simp: hex_string_def simp del: upt_Suc)

lemma length_hex_string [simp]: "length (hex_string num) = 8"
  by (simp add: hex_string_def)

lemma print_hex_eq: "print_hex num 8 s = foldR vga_putchar (hex_string num) s"
proof -
  have "print_hex_loop num (8 - 1) [] = Inr (hex_string num)"
    using print_hex_loop_eq [of 8 "[]" num] by (simp add: hex_string_def)
  then show ?thesis
    using hex_string_nonzero [of num]
    by (simp add: print_hex_def buf_simps vga_writestring_foldR)
qed

section \<open>What a format means\<close>

text \<open>
  The characters a format string (without its terminator) stands for, given the
  arguments: \<open>None\<close> when an argument is missing or of the wrong kind, or when the format
  ends in a lone percent sign.
\<close>

definition render_conv :: "u8 \<Rightarrow> vararg list \<Rightarrow> (u8 list \<times> vararg list) option" where
  "render_conv d args =
     (if d = of_char (CHR ''s'') then
        (case args of Str_Arg p # rest \<Rightarrow> if terminated p then Some (cstring p, rest) else None | _ \<Rightarrow> None)
      else if d = of_char (CHR ''d'') \<or> d = of_char (CHR ''i'') then
        (case args of Word_Arg w # rest \<Rightarrow> Some (dec_string (unat w), rest) | _ \<Rightarrow> None)
      else if d = of_char (CHR ''x'') \<or> d = of_char (CHR ''X'') then
        (case args of Word_Arg w # rest \<Rightarrow> Some (hex_string w, rest) | _ \<Rightarrow> None)
      else if d = of_char (CHR ''c'') then
        (case args of Word_Arg w # rest \<Rightarrow> Some ([ucast w], rest) | _ \<Rightarrow> None)
      else if d = of_char (CHR ''%'') then Some ([of_char (CHR ''%'')], args)
      else Some ([of_char (CHR ''%''), d], args))"

fun render :: "u8 list \<Rightarrow> vararg list \<Rightarrow> u8 list option" where
  "render [] args = Some []"
| "render (c # fmt) args =
     (if c = of_char (CHR ''%'')
      then (case fmt of
              [] \<Rightarrow> None
            | d # fmt' \<Rightarrow>
                (case render_conv d args of
                   None \<Rightarrow> None
                 | Some (out, args') \<Rightarrow> map_option (\<lambda>rest. out @ rest) (render fmt' args')))
      else map_option (\<lambda>rest. c # rest) (render fmt args))"

lemma kprintf_conv_eq:
  "render_conv d args = Some (out, args') \<Longrightarrow>
   kprintf_conv d args s = bindR (foldR vga_putchar out s) (\<lambda>s. Inr (args', s))"
  by (auto simp: render_conv_def kprintf_conv_def va_str_def va_word_def print_dec_eq print_hex_eq
      vga_writestring_foldR run_simps split: if_splits list.splits vararg.splits)

lemma kprintf_render:
  fixes s :: "'a vga_state_scheme"
  shows "terminated fmt \<Longrightarrow> render (cstring fmt) args = Some out \<Longrightarrow>
   kprintf fmt args s = foldR vga_putchar out s"
proof (induction "length fmt" arbitrary: fmt args out s rule: less_induct)
  case less
  then obtain c f where f: "fmt = c # f" by (cases fmt) auto
  consider "c = 0" | "c = of_char (CHR ''%'')" "c \<noteq> 0" | "c \<noteq> 0" "c \<noteq> of_char (CHR ''%'')" by blast
  then show ?case
  proof cases
    case 1
    with less.prems f show ?thesis by simp
  next
    case conv: 2
    then obtain d f' where f': "f = d # f'" "d \<noteq> 0"
      using less.prems f by (cases f) (auto split: if_splits)
    then obtain o1 args' o2 where r: "render_conv d args = Some (o1, args')"
      "render (cstring f') args' = Some o2" "out = o1 @ o2"
      using less.prems(2) f conv by (auto split: option.splits)
    have "kprintf f' args' s' = foldR vga_putchar o2 s'" for s' :: "'a vga_state_scheme"
      using less.prems(1) f f' conv r(2) by (intro less.hyps) auto
    then show ?thesis
      using conv f f' r kprintf_conv_eq [OF r(1), of s]
      by (auto simp: run_simps foldR_append intro!: bindR_cong)
  next
    case 3
    then obtain o2 where o2: "render (cstring f) args = Some o2" "out = c # o2"
      using less.prems(2) f by auto
    have "kprintf f args s' = foldR vga_putchar o2 s'" for s' :: "'a vga_state_scheme"
      using less.prems(1) f 3 o2(1) by (intro less.hyps) auto
    then show ?thesis using f 3 o2 by (auto intro!: bindR_cong)
  qed
qed

text \<open>Text without conversions is printed as it stands.\<close>

lemma kprintf_plain_prefix:
  "0 \<notin> set pre \<Longrightarrow> of_char (CHR ''%'') \<notin> set pre \<Longrightarrow>
   kprintf (pre @ fmt) args s = bindR (foldR vga_putchar pre s) (\<lambda>s. kprintf fmt args s)"
  by (induction pre arbitrary: s) (auto simp: run_simps intro!: bindR_cong)

section \<open>Properties\<close>

text \<open>
  Decimal output is exact for all 32-bit numbers: \<open>print_dec\<close> prints a string of at
  most ten digits that reads back as the number (taken as unsigned), and its twelve-byte
  array is never overrun.
\<close>

theorem print_dec_correct:
  "print_dec num s = foldR vga_putchar (dec_string (unat num)) s \<and>
   dec_value (dec_string (unat num)) = unat num \<and> length (dec_string (unat num)) \<le> 10 \<and>
   list_all is_digit (dec_string (unat num))"
proof -
  have "length (dec_string (unat num)) \<le> 10"
    using length_dec_string [of 10 "unat num"] unsigned_less [of num, where 'a = nat] by simp
  then show ?thesis
    by (simp add: print_dec_eq dec_string_value list_all_iff dec_string_digits)
qed

text \<open>
  Hexadecimal output is exact: \<open>print_hex\<close> with eight digits prints eight characters
  that read back as the number.
\<close>

theorem print_hex_correct:
  "print_hex num 8 s = foldR vga_putchar (hex_string num) s \<and>
   length (hex_string num) = 8 \<and> hex_value (hex_string num) = unat num"
  by (simp add: print_hex_eq hex_string_value)

text \<open>
  C28. \<open>kprintf\<close> prints what its format means: whenever the format string renders with the
  given arguments, the effect on the console is that of printing the rendered
  characters one by one, and on a well-formed console it returns.
\<close>

theorem kprintf_prints_rendering:
  assumes "terminated fmt" "render (cstring fmt) args = Some out" "vga_wf s"
  shows "kprintf fmt args s = foldR vga_putchar out s \<and> (\<exists>s'. kprintf fmt args s = Inr s' \<and> vga_wf s')"
  using kprintf_render [OF assms(1,2), of s] vga_console.puts_defined [OF assms(3), of out] by simp

theorem kprintf_prints_rendering_witness:
  "kprintf (cstr ''%d%%'') [Word_Arg 7] (vga_blank 0x0F) =
     foldR vga_putchar (dec_string (unat (7 :: u32)) @ [of_char (CHR ''%'')]) (vga_blank 0x0F) \<and>
   (\<exists>s'. kprintf (cstr ''%d%%'') [Word_Arg 7] (vga_blank 0x0F) = Inr s' \<and> vga_wf s')"
  by (rule kprintf_prints_rendering [OF _ _ vga_blank_wf]) (simp_all add: cstring_cstr render_conv_def)

text \<open>
  A format that ends in a lone percent sign makes \<open>kprintf\<close> step over the terminator
  and read past the string: here with any text in front that needs no argument and the
  terminator as the last byte of the object.
\<close>

theorem kprintf_trailing_percent_overreads:
  assumes "0 \<notin> set pre" "of_char (CHR ''%'') \<notin> set pre" "vga_wf s"
  shows "kprintf (pre @ [of_char (CHR ''%''), 0]) args s = Inl Out_Of_Bounds"
proof -
  obtain s1 where s1: "foldR vga_putchar pre s = Inr s1" "vga_wf s1"
    using vga_console.puts_defined [OF assms(3)] by blast
  obtain s2 where s2: "vga_putchar (of_char (CHR ''%'')) s1 = Inr s2" "vga_wf s2"
    using vga_putchar_wf [OF s1(2)] by (auto simp: succeeds_iff)
  obtain s3 where "vga_putchar 0 s2 = Inr s3"
    using vga_putchar_wf [OF s2(2)] by (auto simp: succeeds_iff)
  then show ?thesis
    using s1(1) s2(1) by (simp add: kprintf_plain_prefix [OF assms(1,2)] kprintf_conv_def)
qed

theorem kprintf_trailing_percent_overreads_witness:
  "kprintf (map of_char ''100'' @ [of_char (CHR ''%''), 0]) [] (vga_blank 0x0F) = Inl Out_Of_Bounds"
  by (rule kprintf_trailing_percent_overreads [OF _ _ vga_blank_wf]) simp_all

end
