(* ===== verification/Rtc.thy ===== *)
theory Rtc
  imports Kprintf
begin

text \<open>
  The real-time clock, \<^verbatim>\<open>kernel/drivers/rtc.c\<close>: register reads through ports 0x70 and
  0x71, the conversion from binary coded decimal and the \<open>date\<close> command. The registers'
  answers are the environment's choice.
\<close>

section \<open>Operations\<close>

definition rtc_read :: "u8 \<Rightarrow> 'a io_state_scheme \<Rightarrow> (u8 \<times> 'a io_state_scheme) res" where
  "rtc_read reg s = inb 0x71 (outb 0x70 reg s)"

definition rtc_bcd_to_bin :: "u8 \<Rightarrow> int" where
  "rtc_bcd_to_bin bcd = uint (bcd AND 0x0F) + uint (drop_bit 4 bcd) * 10"

text \<open>The three result pointers are a triple: hour, minute, second.\<close>

definition rtc_get_time :: "'a io_state_scheme \<Rightarrow> ((int \<times> int \<times> int) \<times> 'a io_state_scheme) res" where
  "rtc_get_time s =
     bindR (rtc_read 0x0B s) (\<lambda>(status, s).
     let is_bcd = (status AND 0x04 = 0) in
     bindR (rtc_read 0x00 s) (\<lambda>(second, s).
     bindR (rtc_read 0x02 s) (\<lambda>(minute, s).
     bindR (rtc_read 0x04 s) (\<lambda>(hour, s).
     Inr (if is_bcd
          then (rtc_bcd_to_bin hour, rtc_bcd_to_bin minute, rtc_bcd_to_bin second)
          else (uint hour, uint minute, uint second), s)))))"

text \<open>The contents of \<open>char buf[3]\<close> for one component of the time, narrowed to \<open>char\<close>.\<close>

definition two_digits :: "int \<Rightarrow> u8 list" where
  "two_digits v = [word_of_int (0x30 + v div 10), word_of_int (0x30 + v mod 10), 0]"

definition cmd_date :: "'a vga_state_scheme \<Rightarrow> 'a vga_state_scheme res" where
  "cmd_date s =
     bindR (rtc_get_time s) (\<lambda>((hour, minute, second), s).
     seqR [vga_writestring (cstr [NL]),
           vga_writestring (two_digits hour), vga_writestring (cstr '':''),
           vga_writestring (two_digits minute), vga_writestring (cstr '':''),
           vga_writestring (two_digits second), vga_writestring (cstr [NL])] s)"

section \<open>Binary coded decimal\<close>

definition bcd :: "nat \<Rightarrow> u8" where
  "bcd n = of_nat (16 * (n div 10) + n mod 10)"

lemma bcd_round_trip: "n < 100 \<Longrightarrow> rtc_bcd_to_bin (bcd n) = int n"
proof -
  assume n: "n < 100"
  let ?k = "16 * (n div 10) + n mod 10"
  have k: "unat (bcd n) = ?k"
    using n unfolding bcd_def by (subst unat_of_nat) (simp; linarith)
  have "unat (take_bit 4 (bcd n)) = n mod 10"
    by (simp only: unsigned_take_bit_eq k) (simp add: take_bit_eq_mod)
  then have "unat (bcd n AND 0x0F) = n mod 10"
    by (simp only: and_mask_simps)
  moreover have "unat (drop_bit 4 (bcd n)) = n div 10"
    by (simp add: drop_bit_eq_div unat_div_distrib k)
  ultimately show ?thesis
    by (simp add: rtc_bcd_to_bin_def uint_nat) (metis of_nat_add of_nat_mult of_nat_numeral mod_mult_div_eq mult.commute)
qed

text \<open>Two decimal digits of a number below one hundred.\<close>

definition dec2 :: "nat \<Rightarrow> u8 list" where
  "dec2 n = [of_nat (0x30 + n div 10), of_nat (0x30 + n mod 10)]"

lemma dec2_value: "n < 100 \<Longrightarrow> dec_value (dec2 n) = n \<and> list_all is_digit (dec2 n)"
proof -
  assume "n < 100"
  then have d: "n div 10 < 10" "n mod 10 < 10" by simp_all
  then show ?thesis
    using unat_digit [OF d(1)] unat_digit [OF d(2)]
    by (simp add: dec2_def dec_value_def is_digit_def del: of_nat_add)
qed

lemma two_digits_dec2: "two_digits (int n) = dec2 n @ [0]"
proof -
  have "0x30 + int n div 10 = int (0x30 + n div 10)" "0x30 + int n mod 10 = int (0x30 + n mod 10)"
    by (simp_all add: zdiv_int zmod_int)
  then show ?thesis
    by (simp only: two_digits_def dec2_def) (simp del: of_nat_add)
qed

lemma dec2_nonzero: "n < 100 \<Longrightarrow> 0 \<notin> set (dec2 n)"
  using dec2_value [of n] by (auto simp: is_digit_def list_all_iff dest: bspec)

lemma print_two_digits: "n < 100 \<Longrightarrow> vga_writestring (two_digits (int n)) s = emit (dec2 n) s"
  by (simp add: two_digits_dec2 emit_writestring dec2_nonzero)

section \<open>Reading the clock\<close>

lemma rtc_read_Cons:
  "ins s = v # vs \<Longrightarrow>
   rtc_read reg s = Inr (v, s\<lparr>ins := vs, io_log := io_log s @ [Out 0x70 reg, In 0x71 v]\<rparr>)"
  by (simp add: rtc_read_def inb_Cons outb_def)

text \<open>The state after the four register reads.\<close>

definition clock_read :: "u8 \<Rightarrow> u8 \<Rightarrow> u8 \<Rightarrow> u8 \<Rightarrow> 'a io_state_scheme \<Rightarrow> 'a io_state_scheme" where
  "clock_read st sec mi hr s = s\<lparr>ins := drop 4 (ins s),
     io_log := io_log s @ [Out 0x70 0x0B, In 0x71 st, Out 0x70 0x00, In 0x71 sec,
                           Out 0x70 0x02, In 0x71 mi, Out 0x70 0x04, In 0x71 hr]\<rparr>"

lemma rtc_get_time_eq:
  assumes "ins s = st # sec # mi # hr # rest"
  shows "rtc_get_time s =
    Inr (if bit st 2 then (uint hr, uint mi, uint sec)
         else (rtc_bcd_to_bin hr, rtc_bcd_to_bin mi, rtc_bcd_to_bin sec), clock_read st sec mi hr s)"
proof -
  have "st AND 4 = 0 \<longleftrightarrow> \<not> bit st 2"
    using and_exp_eq_0_iff_not_bit [of st 2] by simp
  then show ?thesis
    using assms by (simp add: rtc_get_time_def rtc_read_Cons clock_read_def Let_def)
qed

definition time_text :: "nat \<Rightarrow> nat \<Rightarrow> nat \<Rightarrow> u8 list" where
  "time_text h m s = [10] @ dec2 h @ [0x3A] @ dec2 m @ [0x3A] @ dec2 s @ [10]"

lemma clock_read_vga_wf:
  "vga_wf (clock_read st sec mi hr s) = vga_wf s" for s :: "'a vga_state_scheme"
  by (simp add: vga_wf_def clock_read_def)

section \<open>Properties\<close>

text \<open>
  The \<open>date\<close> command prints the time of the clock: if the registers hold the time in
  binary coded decimal (bit 2 of status register B clear) or in binary (bit set), the
  command returns, having printed a line break, \<open>HH:MM:SS\<close> with two decimal digits per
  component, and a line break.
\<close>

theorem cmd_date_prints_time:
  assumes "ins s = st # sec # mi # hr # rest" "vga_wf s"
    and "H < 24" "M < 60" "S < 60"
    and "if bit st 2 then hr = of_nat H \<and> mi = of_nat M \<and> sec = of_nat S
         else hr = bcd H \<and> mi = bcd M \<and> sec = bcd S"
  shows "cmd_date s = emit (time_text H M S) (clock_read st sec mi hr s) \<and>
         (\<exists>s'. cmd_date s = Inr s' \<and> vga_wf s' \<and> ins s' = rest)"
proof -
  have bin: "uint (of_nat n :: u8) = int n" if "n < 60" for n
    using that by (simp add: unsigned_of_nat take_bit_nat_eq_self)
  have "rtc_get_time s = Inr ((int H, int M, int S), clock_read st sec mi hr s)"
    using assms(3-6) bcd_round_trip bin
    by (simp add: rtc_get_time_eq [OF assms(1)] split: if_splits)
  then have eq: "cmd_date s = emit (time_text H M S) (clock_read st sec mi hr s)"
    using assms(3-5) by (simp add: cmd_date_def print_two_digits run_simps time_text_def)
  have "vga_wf (clock_read st sec mi hr s)"
    using assms(2) by (simp add: clock_read_vga_wf)
  then obtain s' where "emit (time_text H M S) (clock_read st sec mi hr s) = Inr s'"
    "on_screen (clock_read st sec mi hr s) s'"
    by (rule emitE)
  then show ?thesis
    by (simp add: eq on_screen_def) (simp add: clock_read_def assms(1))
qed

theorem cmd_date_prints_time_witness:
  "let s = (vga_blank 0x0F)\<lparr>ins := [0x02, 0x45, 0x30, 0x12]\<rparr> in
   cmd_date s = emit (time_text 12 30 45) (clock_read 0x02 0x45 0x30 0x12 s) \<and>
   (\<exists>s'. cmd_date s = Inr s' \<and> vga_wf s' \<and> ins s' = [])"
proof -
  have "vga_wf ((vga_blank 0x0F)\<lparr>ins := [0x02, 0x45, 0x30, 0x12]\<rparr>)"
    using vga_blank_wf by (simp add: vga_wf_def)
  then show ?thesis
    unfolding Let_def by (intro cmd_date_prints_time) (simp_all add: bcd_def bit_numeral_rec)
qed

text \<open>
  Binary coded decimal is decoded correctly: every number below one hundred survives
  encoding and \<open>rtc_bcd_to_bin\<close>.
\<close>

theorem rtc_bcd_round_trip: "list_all (\<lambda>n. rtc_bcd_to_bin (bcd n) = int n) [0..<100]"
  by (simp add: list_all_iff bcd_round_trip)

end
