(* ===== verification/Commands.thy ===== *)
theory Commands
  imports Rtc Initramfs
begin

text \<open>
  The prompt and boot splash (\<^verbatim>\<open>kernel/shell/colored_shell.c\<close>) and the shell commands of
  \<^verbatim>\<open>builtin_commands.c\<close>, \<^verbatim>\<open>cmd_cat.c\<close> and \<^verbatim>\<open>help_updated.c\<close>. They print through the
  console and read the tick counter, the memory sizes found at boot and the files.
\<close>

section \<open>State\<close>

text \<open>The console together with the other modules' variables that the commands read.\<close>

record machine_state = vga_state +
  tick_count :: u32
  multiboot2_memory_lower :: u32
  multiboot2_memory_upper :: u32
  initrd :: fs_state

section \<open>Prompt and splash\<close>

abbreviation BS :: char where "BS \<equiv> CHR 0x5C"
abbreviation QU :: char where "QU \<equiv> CHR 0x27"

definition boot_splash :: "u8 list" where
  "boot_splash = cstr (concat
     [[NL],
      ''  _               _     '' @ [NL],
      '' | |             | |    '' @ [NL],
      '' | |     __ _ ___| |__  '' @ [NL],
      '' | |    / _` / __| '' @ [QU] @ ''_ '' @ [BS] @ '' '' @ [NL],
      '' | |___| (_| '' @ [BS] @ ''__ '' @ [BS] @ '' | | |'' @ [NL],
      '' |______'' @ [BS] @ ''__,_|___/_| |_|'' @ [NL],
      ''                         '' @ [NL],
      ''  Larch OS v1.0'' @ [NL],
      ''  The flexible operating system'' @ [NL],
      [NL]])"

text \<open>The empty delay loop that ends the function has no effect on the state.\<close>

definition show_boot_splash :: "'a vga_state_scheme \<Rightarrow> 'a vga_state_scheme res" where
  "show_boot_splash =
     seqR [Inr \<circ> vga_set_color 0x0A 0x00, vga_writestring boot_splash, Inr \<circ> vga_set_color 0x0F 0x00]"

definition shell_prompt :: "'a vga_state_scheme \<Rightarrow> 'a vga_state_scheme res" where
  "shell_prompt =
     seqR [Inr \<circ> vga_set_color 0x0C 0x00, vga_writestring (cstr ''[''),
           Inr \<circ> vga_set_color 0x0B 0x00, vga_writestring (cstr ''larch''),
           Inr \<circ> vga_set_color 0x0C 0x00, vga_writestring (cstr '']''),
           Inr \<circ> vga_set_color 0x0A 0x00, vga_writestring (cstr '' $> ''),
           Inr \<circ> vga_set_color 0x0F 0x00]"

section \<open>Built-in commands\<close>

definition cmd_ls :: "'a vga_state_scheme \<Rightarrow> 'a vga_state_scheme res" where
  "cmd_ls = seqR [vga_writestring (cstr ([NL] @ ''initramfs files:'' @ [NL])),
                  vga_writestring (cstr (''  bin/hello'' @ [NL])),
                  vga_writestring (cstr [NL])]"

definition cmd_echo :: "u8 list \<Rightarrow> 'a vga_state_scheme \<Rightarrow> 'a vga_state_scheme res" where
  "cmd_echo txtp = seqR [vga_writestring (cstr [NL]), vga_writestring txtp, vga_writestring (cstr [NL])]"

text \<open>
  The digit code that \<open>cmd_mem\<close>, \<open>cmd_uptime\<close> and \<open>cmd_top\<close> repeat: the digits go into a
  local array of \<open>cap\<close> bytes, last digit first, and are printed from its end.
\<close>

definition put_digits :: "nat \<Rightarrow> u32 \<Rightarrow> 'a vga_state_scheme \<Rightarrow> 'a vga_state_scheme res" where
  "put_digits cap num s =
     bindR (if num = 0 then push_buf cap [] 0x30 else dec_loop cap num []) (\<lambda>buf.
     foldR vga_putchar (rev buf) s)"

definition cmd_mem :: "'a machine_state_scheme \<Rightarrow> 'a machine_state_scheme res" where
  "cmd_mem s =
     (let total = multiboot2_memory_lower s + multiboot2_memory_upper s;
          total_mb = total div (1024 * 1024) in
      seqR [vga_writestring (cstr ([NL] @ ''Memory Information:'' @ [NL])),
            vga_writestring (cstr ''  Total: ''),
            put_digits 4 total_mb,
            vga_writestring (cstr ('' MB'' @ [NL])),
            vga_writestring (cstr (''  Free: unknown yet'' @ [NL]))] s)"

definition cmd_uptime :: "'a machine_state_scheme \<Rightarrow> 'a machine_state_scheme res" where
  "cmd_uptime s =
     (let ticks = tick_count s;
          seconds = ticks div 100;
          minutes = seconds div 60;
          hours = minutes div 60 in
      seqR [vga_writestring (cstr ([NL] @ ''Uptime: '')),
            put_digits 4 hours, vga_writestring (cstr ''h ''),
            put_digits 4 (minutes mod 60), vga_writestring (cstr ''m ''),
            put_digits 4 (seconds mod 60), vga_writestring (cstr (''s'' @ [NL]))] s)"

text \<open>\<open>__DATE__ " " __TIME__\<close> is fixed by the compiler run: the parameter \<open>build\<close>.\<close>

definition cmd_uname :: "string \<Rightarrow> 'a vga_state_scheme \<Rightarrow> 'a vga_state_scheme res" where
  "cmd_uname build =
     seqR [vga_writestring (cstr ([NL] @ ''Larch OS v1.0 (Larchwood)'' @ [NL])),
           vga_writestring (cstr (''Kernel: Larch Kernel'' @ [NL])),
           vga_writestring (cstr (''Arch: i686'' @ [NL])),
           vga_writestring (cstr (''Build: '' @ build @ [NL]))]"

text \<open>One column of a hex dump line: byte \<open>i\<close> of the buffer or blanks.\<close>

definition hexdump_cell :: "u32 \<Rightarrow> u8 list \<Rightarrow> int \<Rightarrow> 'a vga_state_scheme \<Rightarrow> 'a vga_state_scheme res" where
  "hexdump_cell bytes buf i s =
     bindR (if i < uint bytes
            then bindR (buf_read buf i) (\<lambda>b.
                 bindR (hex_char (ucast (drop_bit 4 b AND 0xF))) (\<lambda>c1.
                 bindR (vga_putchar c1 s) (\<lambda>s.
                 bindR (hex_char (ucast (b AND 0xF))) (\<lambda>c2.
                 vga_putchar c2 s))))
            else bindR (vga_putchar 0x20 s) (vga_putchar 0x20)) (vga_putchar 0x20)"

definition hexdump_char :: "u8 list \<Rightarrow> int \<Rightarrow> 'a vga_state_scheme \<Rightarrow> 'a vga_state_scheme res" where
  "hexdump_char buf i s =
     bindR (buf_read buf i) (\<lambda>b.
     vga_putchar (if b \<ge> 32 \<and> b \<le> 126 then b else of_char (CHR ''.'')) s)"

definition hexdump_line :: "u32 \<Rightarrow> u8 list \<Rightarrow> 'a vga_state_scheme \<Rightarrow> 'a vga_state_scheme res" where
  "hexdump_line bytes buf =
     seqR [forR 0 8 (hexdump_cell bytes buf), vga_putchar 0x20,
           forR 8 16 (hexdump_cell bytes buf), vga_putchar (of_char (CHR ''|'')),
           forR 0 (uint bytes) (hexdump_char buf),
           vga_writestring (cstr (''|'' @ [NL]))]"

text \<open>
  The read loops of \<open>cmd_hexdump\<close> and \<open>cmd_cat\<close>. Each round reads up to \<open>len\<close> bytes and
  hands the buffer to \<open>body\<close>; a read of zero bytes ends the loop. The step bound is one
  more than the file's size: every round but the last one consumes at least a byte.
\<close>

fun read_loop ::
  "nat \<Rightarrow> (u32 \<Rightarrow> u8 list \<Rightarrow> 'a machine_state_scheme \<Rightarrow> 'a machine_state_scheme res) \<Rightarrow>
   u32 \<Rightarrow> u32 \<Rightarrow> u32 \<Rightarrow> u8 list \<Rightarrow> 'a machine_state_scheme \<Rightarrow> 'a machine_state_scheme res" where
  "read_loop 0 body file len offset buf s = Inl No_Fuel"
| "read_loop (Suc fuel) body file len offset buf s =
     bindR (fs_read file offset buf len (initrd s)) (\<lambda>(bytes, buf).
     if bytes > 0
     then bindR (body bytes buf s) (\<lambda>s. read_loop fuel body file len (offset + bytes) buf s)
     else Inr s)"

text \<open>The bound for a file, and the stack buffer with arbitrary contents as zeros.\<close>

definition read_fuel :: "u32 \<Rightarrow> 'a machine_state_scheme \<Rightarrow> nat res" where
  "read_fuel file s = bindR (fs_size file (initrd s)) (\<lambda>n. Inr (Suc (unat n)))"

definition cmd_hexdump :: "u8 list \<Rightarrow> 'a machine_state_scheme \<Rightarrow> 'a machine_state_scheme res" where
  "cmd_hexdump filename s =
     bindR (fs_open filename (initrd s)) (\<lambda>file.
     if file = 0 then vga_writestring (cstr (''File not found'' @ [NL])) s
     else
       bindR (vga_writestring (cstr [NL]) s) (\<lambda>s.
       bindR (read_fuel file s) (\<lambda>fuel.
       read_loop fuel hexdump_line file 16 0 (replicate 16 0) s)))"

section \<open>cat\<close>

definition cat_chunk :: "u32 \<Rightarrow> u8 list \<Rightarrow> 'a vga_state_scheme \<Rightarrow> 'a vga_state_scheme res" where
  "cat_chunk bytes buf = forR 0 (uint bytes) (\<lambda>i s. bindR (buf_read buf i) (\<lambda>c. vga_putchar c s))"

definition cmd_cat :: "u8 list \<Rightarrow> 'a machine_state_scheme \<Rightarrow> 'a machine_state_scheme res" where
  "cmd_cat filename s =
     bindR (fs_open filename (initrd s)) (\<lambda>file.
     if file = 0
     then seqR [vga_writestring (cstr ''File not found: ''), vga_writestring filename,
                vga_writestring (cstr [NL])] s
     else
       bindR (vga_writestring (cstr [NL]) s) (\<lambda>s.
       bindR (read_fuel file s) (\<lambda>fuel.
       bindR (read_loop fuel cat_chunk file 256 0 (replicate 256 0) s) (\<lambda>s.
       vga_writestring (cstr [NL]) s))))"

section \<open>help, clear, reboot, top\<close>

definition cmd_help :: "'a vga_state_scheme \<Rightarrow> 'a vga_state_scheme res" where
  "cmd_help =
     seqR [vga_writestring (cstr [NL]),
           Inr \<circ> vga_set_color 0x0B 0x00,
           vga_writestring (cstr ('' Larch Commands '' @ [NL])),
           Inr \<circ> vga_set_color 0x0F 0x00,
           vga_writestring (cstr [NL]),
           vga_writestring (cstr (''  help      - Show this help message'' @ [NL])),
           vga_writestring (cstr (''  clear     - Clear the screen'' @ [NL])),
           vga_writestring (cstr (''  reboot    - Reboot the system'' @ [NL])),
           vga_writestring (cstr (''  ls        - List files in initramfs'' @ [NL])),
           vga_writestring (cstr (''  cat <file> - Display file contents'' @ [NL])),
           vga_writestring (cstr (''  echo <text> - Print text to screen'' @ [NL])),
           vga_writestring (cstr (''  mem       - Show memory usage'' @ [NL])),
           vga_writestring (cstr (''  uptime    - Show system uptime'' @ [NL])),
           vga_writestring (cstr (''  uname     - Show OS information'' @ [NL])),
           vga_writestring (cstr (''  hexdump <file> - Hex dump of file'' @ [NL])),
           vga_writestring (cstr (''  date      - Show current time from RTC'' @ [NL])),
           vga_writestring (cstr (''  top       - Show running processes'' @ [NL])),
           vga_writestring (cstr [NL]),
           Inr \<circ> vga_set_color 0x0A 0x00,
           vga_writestring (cstr (''Navigation: Up/Down arrows for command history'' @ [NL])),
           Inr \<circ> vga_set_color 0x0F 0x00]"

definition cmd_clear :: "'a vga_state_scheme \<Rightarrow> 'a vga_state_scheme res" where
  "cmd_clear = vga_clear"

text \<open>Polling the keyboard controller's status port until its input buffer is empty.\<close>

function reboot_wait :: "u8 \<Rightarrow> 'a io_state_scheme \<Rightarrow> 'a io_state_scheme res" where
  "reboot_wait good s =
     (if good AND 0x02 \<noteq> 0
      then bindR (inb 0x64 s) (\<lambda>(good, s). reboot_wait good s)
      else Inr s)"
  by pat_completeness auto
termination
  by (relation "measure (\<lambda>(good, s). length (ins s))") (auto simp: inb_def split: list.splits)

declare reboot_wait.simps [simp del]

text \<open>The function never returns: after the reset command it spins.\<close>

definition cmd_reboot :: "'a io_state_scheme \<Rightarrow> 'a io_state_scheme res" where
  "cmd_reboot s =
     bindR (reboot_wait 0x02 s) (\<lambda>s.
     Inl (Spinning (io_log (outb 0x64 0xFE s))))"

definition cmd_top :: "'a machine_state_scheme \<Rightarrow> 'a machine_state_scheme res" where
  "cmd_top s =
     seqR [vga_writestring (cstr [NL]),
           vga_writestring (cstr (''PID  STATE     TICKS'' @ [NL])),
           vga_writestring (cstr (''---  -----     -----'' @ [NL])),
           vga_writestring (cstr ''  1  RUNNING   ''),
           put_digits 12 (tick_count s),
           vga_writestring (cstr [NL, NL])] s"

section \<open>Numbers\<close>

lemma put_digits_eq:
  "0 < cap \<Longrightarrow> put_digits cap num s =
     (if length (dec_string (unat num)) \<le> cap then emit (dec_string (unat num)) s else Inl Out_Of_Bounds)"
  by (simp add: put_digits_def dec_loop_spec push_buf_def emit_def dec_string.simps [of 0])

lemma put_digits_small:
  "0 < cap \<Longrightarrow> unat num < 10 ^ cap \<Longrightarrow> put_digits cap num s = emit (dec_string (unat num)) s"
  by (simp add: put_digits_eq length_dec_string)

lemma put_digits_large:
  "0 < cap \<Longrightarrow> 10 ^ cap \<le> unat num \<Longrightarrow> put_digits cap num s = Inl Out_Of_Bounds"
  by (simp add: put_digits_eq length_dec_string)

section \<open>Reading files in chunks\<close>

text \<open>A list cut into pieces of \<open>n\<close> elements, the last one possibly shorter.\<close>

function chunks :: "nat \<Rightarrow> 'x list \<Rightarrow> 'x list list" where
  "chunks n xs = (if n = 0 \<or> xs = [] then [] else take n xs # chunks n (drop n xs))"
  by pat_completeness auto
termination
  by (relation "measure (\<lambda>(n, xs). length xs)") auto

declare chunks.simps [simp del]

lemma concat_chunks: "0 < n \<Longrightarrow> concat (chunks n xs) = xs"
  by (induction n xs rule: chunks.induct) (subst chunks.simps, simp)

lemma on_screen_machine:
  assumes "on_screen s s'"
  shows "initrd s' = initrd s" "tick_count s' = tick_count s"
  using assms by (cases s; cases s'; simp add: on_screen_def vga_state.defs)+

lemma read_fuel_eq: "fs_wf (initrd s) \<Longrightarrow> read_fuel file s = Inr (Suc (length (fs_content (initrd s) file)))"
  using fs_file [of "initrd s" "file - 1"]
  by (auto simp: read_fuel_def fs_size_def fs_content_def file_wf_def Let_def not_le not_less)

lemma read_loop_eq:
  fixes s :: "'a machine_state_scheme" and fh :: u32
  defines "data \<equiv> fs_content (initrd s) fh"
  assumes "fs_wf (initrd s)" "0 < unat len" "length data + unat len < 2 ^ 32"
    and body: "\<And>bytes b (t :: 'a machine_state_scheme). length b = unat len \<Longrightarrow> 0 < unat bytes \<Longrightarrow> unat bytes \<le> unat len \<Longrightarrow>
      body bytes b t = emit (g (take (unat bytes) b)) t"
    and "vga_wf s" "length buf = unat len" "unat offset \<le> length data" "length data - unat offset < fuel"
  shows "read_loop fuel body fh len offset buf s =
         emit (concat (map g (chunks (unat len) (drop (unat offset) data)))) s"
  using assms(2-4,6-9) unfolding data_def
proof (induction fuel arbitrary: offset buf s)
  case (Suc fuel)
  let ?data = "fs_content (initrd s) fh"
  have "unat len \<le> length buf" "unat offset + unat len < 2 ^ 32" using Suc.prems by auto
  from initramfs.read_bytes [OF Suc.prems(1) this, of fh] obtain bytes b where
    rd: "fs_read fh offset buf len (initrd s) = Inr (bytes, b)"
    and n: "unat bytes = min (unat len) (length ?data - unat offset)"
    and b: "length b = unat len" "take (unat bytes) b = take (unat bytes) (drop (unat offset) ?data)"
    using Suc.prems(5) by auto
  show ?case
  proof (cases "unat offset = length ?data")
    case True
    then have "bytes = 0" using n by (simp add: unat_eq_zero)
    then show ?thesis using rd True by (simp add: chunks.simps)
  next
    case False
    then have pos: "0 < unat bytes" "unat bytes \<le> unat len" using n Suc.prems(2,6) by auto
    let ?chunk = "take (unat len) (drop (unat offset) ?data)"
    have chunk: "take (unat bytes) b = ?chunk" using b(2) n by (simp add: min_def)
    have off: "unat (offset + bytes) = unat offset + unat bytes"
      using n Suc.prems(3,6) by (intro unat_add_no_wrap) simp
    have "drop (unat len) (drop (unat offset) ?data) = drop (unat (offset + bytes)) ?data"
      unfolding off using n by (auto simp: add.commute min_def)
    then have ch: "chunks (unat len) (drop (unat offset) ?data) =
        ?chunk # chunks (unat len) (drop (unat (offset + bytes)) ?data)"
      using Suc.prems(2,6) False by (subst chunks.simps) simp
    obtain s1 where s1: "emit (g ?chunk) s = Inr s1" "on_screen s s1" "vga_wf s1"
      using Suc.prems(4) by (rule emitE)
    have i1: "initrd s1 = initrd s" using on_screen_machine(1) [OF s1(2)] .
    have "read_loop fuel body fh len (offset + bytes) b s1 =
       emit (concat (map g (chunks (unat len) (drop (unat (offset + bytes)) (fs_content (initrd s1) fh))))) s1"
      using Suc.prems n pos off b(1) i1 s1(3) by (intro Suc.IH) auto
    moreover have "0 < bytes" using pos(1) by (simp add: word_less_nat_alt)
    ultimately show ?thesis
      using rd body [OF b(1) pos, of s] chunk s1(1) ch i1 emit_emit [of "g ?chunk" s]
      by (simp add: bindR_def)
  qed
qed simp

text \<open>Printing the first bytes of a buffer one by one.\<close>

lemma emit_loop:
  assumes "\<And>i s. 0 \<le> i \<Longrightarrow> i < int n \<Longrightarrow> f i s = emit (h (nat i)) s" "k \<le> n"
  shows "forR (int k) (int n) f s = emit (concat (map h [k..<n])) s"
  using assms(2)
proof (induction "n - k" arbitrary: k s)
  case (Suc m)
  have "forR (int k + 1) (int n) f = emit (concat (map h [Suc k..<n]))"
    using Suc.hyps(1) [of "Suc k"] Suc.hyps(2) by (intro ext) (simp add: add.commute)
  moreover have "f (int k) s = emit (h k) s" using assms(1) [of "int k" s] Suc.hyps(2) by simp
  moreover have "[k..<n] = k # [Suc k..<n]" "int k < int n" using Suc.hyps(2) by (simp_all add: upt_conv_Cons)
  ultimately show ?case
    by (simp only: forR_step emit_emit list.map concat.simps)
qed simp

lemma emit_loop_word:
  assumes "\<And>i s. 0 \<le> i \<Longrightarrow> i < uint n \<Longrightarrow> f i s = emit (h (nat i)) s"
  shows "forR 0 (uint n) f s = emit (concat (map h [0..<unat n])) s"
proof -
  have "uint n = int (unat n)" by simp
  then show ?thesis using emit_loop [of "unat n" f h 0 s] assms by simp
qed

lemma map_nth_take: "n \<le> length b \<Longrightarrow> map (\<lambda>i. f (b ! i)) [0..<n] = map f (take n b)"
  by (simp add: list_eq_iff_nth_eq)

lemma cat_chunk_eq:
  "unat bytes \<le> length b \<Longrightarrow> cat_chunk bytes b s = emit (take (unat bytes) b) s"
proof -
  assume le: "unat bytes \<le> length b"
  then have "uint bytes \<le> int (length b)" by (metis of_nat_le_iff of_nat_unat)
  then have "forR 0 (uint bytes) (\<lambda>i s. bindR (buf_read b i) (\<lambda>c. vga_putchar c s)) s =
      emit (concat (map (\<lambda>i. [b ! i]) [0..<unat bytes])) s"
    by (intro emit_loop_word) (simp add: buf_simps vga_putchar_emit)
  then show ?thesis using le using map_nth_take [of "unat bytes" b id] by (simp add: cat_chunk_def comp_def)
qed

subsection \<open>Hex dump lines\<close>

definition hex_cell :: "u8 list \<Rightarrow> nat \<Rightarrow> u8 list" where
  "hex_cell chunk i =
     (if i < length chunk
      then [hex_digit (ucast (drop_bit 4 (chunk ! i))), hex_digit (ucast (take_bit 4 (chunk ! i))), 0x20]
      else [0x20, 0x20, 0x20])"

definition printable :: "u8 \<Rightarrow> u8" where
  "printable b = (if 32 \<le> b \<and> b \<le> 126 then b else of_char (CHR ''.''))"

definition hex_row :: "u8 list \<Rightarrow> u8 list" where
  "hex_row chunk =
     concat (map (hex_cell chunk) [0..<8]) @ [0x20] @ concat (map (hex_cell chunk) [8..<16])
     @ map of_char ''|'' @ map printable chunk @ map of_char (''|'' @ [NL])"

lemma hexdump_cell_eq:
  assumes "unat bytes \<le> length b" "0 \<le> i"
  shows "hexdump_cell bytes b i s = emit (hex_cell (take (unat bytes) b) (nat i)) s"
proof -
  have lt: "i < uint bytes \<longleftrightarrow> nat i < unat bytes"
    using assms(2) by (metis of_nat_less_iff of_nat_unat int_nat_eq)
  have n1: "take_bit 4 (drop_bit 4 x) = drop_bit 4 x" for x :: u8
    by (simp add: take_bit_drop_bit take_bit_word_eq_self)
  have n2: "x AND 0xF = take_bit 4 x" for x :: u8 by (simp add: and_mask_simps)
  have h1: "unat (ucast (drop_bit 4 x) :: u32) < 16" for x :: u8
    using unsigned_less [of x, where 'a = nat] by (simp add: unsigned_ucast_eq drop_bit_eq_div unat_div_distrib take_bit_nat_eq_self less_mult_imp_div_less)
  have h2: "unat (ucast (take_bit 4 x) :: u32) < 16" for x :: u8
    by (simp add: unsigned_ucast_eq take_bit_eq_mod unat_mod_distrib le_less_trans [OF mod_less_eq_dividend])
  show ?thesis
  proof (cases "i < uint bytes")
    case True
    have "uint bytes \<le> int (length b)" using assms(1) by (metis of_nat_le_iff of_nat_unat)
    then have "buf_read b i = Inr (b ! nat i)" using True assms(2) by (simp add: buf_simps)
    moreover have "nat i < length b" "nat i < unat bytes" using True lt assms(1) by simp_all
    ultimately show ?thesis
      using True
      by (simp add: hexdump_cell_def hex_cell_def n1 n2 h1 h2 hex_char_eq vga_putchar_emit [abs_def] run_simps)
  next
    case False
    then have "\<not> nat i < unat bytes" using lt by simp
    with False show ?thesis
      by (simp add: hexdump_cell_def hex_cell_def vga_putchar_emit [abs_def] run_simps)
  qed
qed

lemma hexdump_line_eq:
  assumes "unat bytes \<le> length b"
  shows "hexdump_line bytes b s = emit (hex_row (take (unat bytes) b)) s"
proof -
  let ?c = "take (unat bytes) b"
  have cells: "forR 0 8 (hexdump_cell bytes b) = emit (concat (map (hex_cell ?c) [0..<8]))"
    "forR 8 16 (hexdump_cell bytes b) = emit (concat (map (hex_cell ?c) [8..<16]))"
    for s :: "'s vga_state_scheme"
    using emit_loop [of 8 "hexdump_cell bytes b" "hex_cell ?c" 0]
      emit_loop [of 16 "hexdump_cell bytes b" "hex_cell ?c" 8] hexdump_cell_eq [OF assms]
    by (auto intro!: ext)
  have "uint bytes \<le> int (length b)" using assms by (metis of_nat_le_iff of_nat_unat)
  then have chars: "forR 0 (uint bytes) (hexdump_char b) = emit (map printable ?c)"
    using emit_loop_word [of bytes "hexdump_char b" "\<lambda>i. [printable (b ! i)]"] map_nth_take [OF assms, of printable]
    by (intro ext) (simp add: hexdump_char_def buf_simps vga_putchar_emit printable_def)
  show ?thesis
    by (simp add: hexdump_line_def cells chars vga_putchar_emit [abs_def] run_simps hex_row_def del: upt_Suc)
qed

section \<open>Opening and printing\<close>

lemma fs_open_cases:
  assumes "fs_wf st" "terminated name"
  obtains (found) h d where "fs_open name st = Inr h" "h \<noteq> 0" "fs_content st h = d"
      "map_of (fs_dir st) (cstring name) = Some d"
    | (missing) "fs_open name st = Inr 0" "map_of (fs_dir st) (cstring name) = None"
proof (cases "first_named (cstring name) (fs_dir st)")
  case None
  then show ?thesis
    using that(2) assms by (simp add: fs_open_eq first_named_map_of)
next
  case (Some k)
  then show ?thesis
    using that(1) fs_open_found [OF assms Some] by blast
qed

text \<open>Printing a file through the read loop, for any rendering of the chunks.\<close>

lemma print_file:
  fixes s :: "'a machine_state_scheme"
  assumes "fs_wf (initrd s)" "vga_wf s" "0 < unat len" "length (fs_content (initrd s) h) + unat len < 2 ^ 32"
    and "\<And>bytes b (t :: 'a machine_state_scheme). length b = unat len \<Longrightarrow> 0 < unat bytes \<Longrightarrow> unat bytes \<le> unat len \<Longrightarrow>
      body bytes b t = emit (g (take (unat bytes) b)) t"
  shows "bindR (emit pre s) (\<lambda>s. bindR (read_fuel h s) (\<lambda>fuel.
           bindR (read_loop fuel body h len 0 (replicate (unat len) 0) s) (emit post))) =
         emit (pre @ concat (map g (chunks (unat len) (fs_content (initrd s) h))) @ post) s"
proof -
  obtain s1 where s1: "emit pre s = Inr s1" "on_screen s s1" "vga_wf s1"
    using assms(2) by (rule emitE)
  have i1: "initrd s1 = initrd s" using on_screen_machine(1) [OF s1(2)] .
  have "read_loop (Suc (length (fs_content (initrd s1) h))) body h len 0 (replicate (unat len) 0) s1 =
      emit (concat (map g (chunks (unat len) (drop (unat (0 :: u32)) (fs_content (initrd s1) h))))) s1"
    using assms i1 s1(3) by (intro read_loop_eq) auto
  then have "bindR (emit pre s) (\<lambda>s. bindR (read_fuel h s) (\<lambda>fuel.
           bindR (read_loop fuel body h len 0 (replicate (unat len) 0) s) (emit post))) =
      emit (concat (map g (chunks (unat len) (fs_content (initrd s1) h))) @ post) s1"
    using s1 i1 assms(1) by (simp add: read_fuel_eq emit_emit)
  then show ?thesis
    using s1(1) i1 emit_emit [of pre s "concat (map g (chunks (unat len) (fs_content (initrd s) h))) @ post"]
    by simp
qed

lemma cmd_cat_eq:
  assumes "fs_wf (initrd s)" "vga_wf s" "terminated name"
    and "\<And>d. map_of (fs_dir (initrd s)) (cstring name) = Some d \<Longrightarrow> length d + 256 < 2 ^ 32"
  shows "cmd_cat name s =
    emit (case map_of (fs_dir (initrd s)) (cstring name) of
            None \<Rightarrow> map of_char ''File not found: '' @ cstring name @ [10]
          | Some d \<Rightarrow> [10] @ d @ [10]) s"
  using assms(1,3)
proof (cases rule: fs_open_cases)
  case (found h d)
  have "length (fs_content (initrd s) h) + unat (256 :: u32) < 2 ^ 32"
    using assms(4) found by simp
  then show ?thesis
    using found print_file [OF assms(1,2), of 256 h cat_chunk "\<lambda>c. c" "[10]" "[10]"]
    by (simp add: cmd_cat_def cat_chunk_eq concat_chunks run_simps)
next
  case missing
  then show ?thesis
    using assms(3) by (simp add: cmd_cat_def emit_writestring run_simps)
qed

lemma cmd_hexdump_eq:
  assumes "fs_wf (initrd s)" "vga_wf s" "terminated name"
    and "\<And>d. map_of (fs_dir (initrd s)) (cstring name) = Some d \<Longrightarrow> length d + 16 < 2 ^ 32"
  shows "cmd_hexdump name s =
    emit (case map_of (fs_dir (initrd s)) (cstring name) of
            None \<Rightarrow> map of_char (''File not found'' @ [NL])
          | Some d \<Rightarrow> [10] @ concat (map hex_row (chunks 16 d))) s"
  using assms(1,3)
proof (cases rule: fs_open_cases)
  case (found h d)
  have "length (fs_content (initrd s) h) + unat (16 :: u32) < 2 ^ 32"
    using assms(4) found by simp
  then have "bindR (emit [10] s) (\<lambda>s. bindR (read_fuel h s) (\<lambda>fuel.
           bindR (read_loop fuel hexdump_line h 16 0 (replicate 16 0) s) (emit []))) =
         emit ([10] @ concat (map hex_row (chunks 16 (fs_content (initrd s) h)))) s"
    using print_file [OF assms(1,2), of 16 h hexdump_line hex_row "[10]" "[]"]
    by (simp add: hexdump_line_eq)
  then show ?thesis
    using found by (simp add: cmd_hexdump_def run_simps)
next
  case missing
  then show ?thesis
    by (simp add: cmd_hexdump_def run_simps)
qed

section \<open>Commands stay on the screen\<close>

lemma emit_on_screen_only: "vga_wf s \<Longrightarrow> succeeds (emit cs s) (on_screen s)"
  by (rule succeeds_weaken [OF emit_on_screen]) simp_all

lemma prompt_on_screen: "vga_wf s \<Longrightarrow> succeeds (shell_prompt s) (on_screen s)"
  unfolding shell_prompt_def
  by (rule seqR_on_screen) (auto intro!: console_steps)

lemma splash_on_screen: "vga_wf s \<Longrightarrow> succeeds (show_boot_splash s) (on_screen s)"
  unfolding show_boot_splash_def boot_splash_def
  by (rule seqR_on_screen) (auto intro!: console_steps)

lemma help_on_screen: "vga_wf s \<Longrightarrow> succeeds (cmd_help s) (on_screen s)"
  unfolding cmd_help_def
  by (rule seqR_on_screen) (auto intro!: console_steps)

lemma uname_on_screen: "vga_wf s \<Longrightarrow> succeeds (cmd_uname build s) (on_screen s)"
  unfolding cmd_uname_def
  by (rule seqR_on_screen) (auto intro!: console_steps)

lemma ls_on_screen: "vga_wf s \<Longrightarrow> succeeds (cmd_ls s) (on_screen s)"
  unfolding cmd_ls_def
  by (rule seqR_on_screen) (auto intro!: console_steps)

lemma echo_on_screen: "vga_wf s \<Longrightarrow> terminated p \<Longrightarrow> succeeds (cmd_echo p s) (on_screen s)"
  unfolding cmd_echo_def
  by (rule seqR_on_screen) (auto intro!: console_steps)

lemma clear_on_screen: "vga_wf s \<Longrightarrow> succeeds (cmd_clear s) (on_screen s)"
  by (simp add: cmd_clear_def vga_wf_def vga_clear_eq on_screen_def)

lemma cmd_mem_eq:
  fixes s :: "'a machine_state_scheme"
  shows "cmd_mem s = emit ([10] @ map of_char ''Memory Information:'' @ [10] @ map of_char ''  Total: ''
     @ dec_string (unat (multiboot2_memory_lower s + multiboot2_memory_upper s) div 2 ^ 20)
     @ map of_char '' MB'' @ [10] @ map of_char ''  Free: unknown yet'' @ [10]) s"
proof -
  let ?t = "multiboot2_memory_lower s + multiboot2_memory_upper s"
  have q: "unat (?t div 1048576) = unat ?t div 2 ^ 20" by (simp add: unat_div_distrib)
  have "unat ?t div 2 ^ 20 < 10 ^ 4" using unat_u32_less [of ?t] by (simp add: less_mult_imp_div_less)
  then have "put_digits 4 (?t div 1048576) s' = emit (dec_string (unat ?t div 2 ^ 20)) s'"
    for s' :: "'a machine_state_scheme"
    using q by (simp add: put_digits_small)
  then show ?thesis
    by (simp add: cmd_mem_def Let_def run_simps)
qed

lemma cmd_top_eq:
  fixes s :: "'a machine_state_scheme"
  shows "cmd_top s = emit ([10] @ map of_char ''PID  STATE     TICKS'' @ [10] @ map of_char ''---  -----     -----'' @ [10]
     @ map of_char ''  1  RUNNING   '' @ dec_string (unat (tick_count s)) @ [10, 10]) s"
proof -
  have "put_digits 12 (tick_count s) s' = emit (dec_string (unat (tick_count s))) s'"
    for s' :: "'a machine_state_scheme"
    using unat_u32_less [of "tick_count s"] by (simp add: put_digits_small)
  then show ?thesis
    by (simp add: cmd_top_def run_simps)
qed

text \<open>The text of the \<open>uptime\<close> command after \<open>n\<close> whole seconds.\<close>

definition uptime_text :: "nat \<Rightarrow> u8 list" where
  "uptime_text n = [10] @ map of_char ''Uptime: '' @ dec_string (n div 3600) @ map of_char ''h ''
     @ dec_string (n div 60 mod 60) @ map of_char ''m '' @ dec_string (n mod 60) @ map of_char ''s'' @ [10]"

lemma cmd_uptime_parts:
  fixes t :: u32
  shows "unat (t div 100 div 60 div 60) = unat t div 100 div 3600"
    "unat (t div 100 div 60 mod 60) = unat t div 100 div 60 mod 60"
    "unat (t div 100 mod 60) = unat t div 100 mod 60"
  by (simp_all add: unat_div_distrib unat_mod_distrib div_mult2_eq [symmetric])

lemma cmd_uptime_eq:
  fixes s :: "'a machine_state_scheme"
  assumes "unat (tick_count s) < 3600000000"
  shows "cmd_uptime s = emit (uptime_text (unat (tick_count s) div 100)) s"
proof -
  let ?t = "tick_count s"
  have "unat ?t div 100 div 3600 < 10 ^ 4" using assms by (simp add: div_mult2_eq [symmetric] less_mult_imp_div_less)
  then have d: "put_digits 4 (?t div 100 div 60 div 60) x = emit (dec_string (unat ?t div 100 div 3600)) x"
    "put_digits 4 (?t div 100 div 60 mod 60) x = emit (dec_string (unat ?t div 100 div 60 mod 60)) x"
    "put_digits 4 (?t div 100 mod 60) x = emit (dec_string (unat ?t div 100 mod 60)) x"
    for x :: "'a machine_state_scheme"
    using mod_less_divisor [of 60 "unat ?t div 100 div 60"] mod_less_divisor [of 60 "unat ?t div 100"]
    by (auto simp: put_digits_small cmd_uptime_parts)
  then show ?thesis
    by (simp add: cmd_uptime_def Let_def run_simps uptime_text_def)
qed

lemma cmd_uptime_overflows:
  fixes s :: "'a machine_state_scheme"
  assumes "3600000000 \<le> unat (tick_count s)" "vga_wf s"
  shows "cmd_uptime s = Inl Out_Of_Bounds"
proof -
  let ?t = "tick_count s"
  have "3600000000 div 360000 \<le> unat ?t div 360000" using assms(1) by (rule div_le_mono)
  then have "10 ^ 4 \<le> unat ?t div 100 div 3600" by (simp add: div_mult2_eq [symmetric])
  then have d: "put_digits 4 (?t div 100 div 60 div 60) s' = Inl Out_Of_Bounds" for s' :: "'a machine_state_scheme"
    by (simp add: put_digits_large cmd_uptime_parts)
  obtain s1 where "emit (10 # map of_char ''Uptime: '') s = Inr s1"
    using assms(2) by (rule emitE)
  then show ?thesis
    using d by (simp add: cmd_uptime_def Let_def run_simps)
qed

text \<open>Waiting for the keyboard controller.\<close>

lemma reboot_wait_busy:
  assumes "\<forall>b \<in> set busy. b AND 0x02 \<noteq> 0" "good AND 0x02 \<noteq> 0" "ready AND 0x02 = 0" "ins s = busy @ ready # rest"
  shows "reboot_wait good s = Inr (s\<lparr>ins := rest, io_log := io_log s @ map (In 0x64) (busy @ [ready])\<rparr>)"
  using assms
proof (induction busy arbitrary: good s)
  case Nil
  then show ?case
    by (simp add: reboot_wait.simps [of good] reboot_wait.simps [of ready] inb_Cons)
next
  case (Cons b busy)
  then show ?case
    by (simp add: reboot_wait.simps [of good] inb_Cons)
qed

lemma reboot_wait_forever:
  assumes "\<forall>b \<in> set (ins s). b AND 0x02 \<noteq> 0" "good AND 0x02 \<noteq> 0"
  shows "reboot_wait good s = Inl Blocked"
  using assms
proof (induction "ins s" arbitrary: good s)
  case Nil
  then show ?case by (simp add: reboot_wait.simps [of good] inb_Nil)
next
  case (Cons b busy)
  then have "ins s = b # busy" by simp
  with Cons.prems show ?case
    using Cons.hyps(1) [of "s\<lparr>ins := busy, io_log := io_log s @ [In 0x64 b]\<rparr>" b]
    by (simp add: reboot_wait.simps [of good] inb_Cons)
qed

text \<open>A machine with one file, for the examples.\<close>

definition machine_example :: machine_state where
  "machine_example = \<lparr>ins = [], io_log = [], vga_buffer = replicate 2000 (blank_cell 0x0F),
     cursor_x = 0, cursor_y = 0, current_color = 0x0F, tick_count = 360000,
     multiboot2_memory_lower = 0xA0000, multiboot2_memory_upper = 0x7F00000, initrd = hello_fs\<rparr>"

lemma machine_example_wf: "vga_wf machine_example" "fs_wf (initrd machine_example)"
  by (simp_all add: machine_example_def vga_wf_def hello_fs_wf)

lemma hello_fs_dir: "fs_dir hello_fs = [(map of_char ''bin/hello'', [0x68, 0x69])]"
  by (simp add: fs_dir_def hello_fs_def cstr_def)

section \<open>Properties\<close>

text \<open>
  C25. The \<open>cat\<close> command prints exactly the file: for every terminated name the command
  returns on a well-formed machine; it prints a line break, the bytes of the first
  table entry with that name in order and a line break, or the message that names the
  missing file. No access leaves the buffer or the file.
\<close>

theorem cmd_cat_correct:
  assumes "fs_wf (initrd s)" "vga_wf s" "terminated name"
    and "\<And>d. map_of (fs_dir (initrd s)) (cstring name) = Some d \<Longrightarrow> length d + 256 < 2 ^ 32"
  shows "cmd_cat name s =
      emit (case map_of (fs_dir (initrd s)) (cstring name) of
              None \<Rightarrow> map of_char ''File not found: '' @ cstring name @ [10]
            | Some d \<Rightarrow> [10] @ d @ [10]) s \<and>
    succeeds (cmd_cat name s) (on_screen s)"
  using cmd_cat_eq [OF assms] emit_on_screen_only [OF assms(2)] by simp

theorem cmd_cat_correct_witness:
  "cmd_cat (cstr ''bin/hello'') machine_example =
      emit (case map_of (fs_dir (initrd machine_example)) (cstring (cstr ''bin/hello'')) of
              None \<Rightarrow> map of_char ''File not found: '' @ cstring (cstr ''bin/hello'') @ [10]
            | Some d \<Rightarrow> [10] @ d @ [10]) machine_example \<and>
    succeeds (cmd_cat (cstr ''bin/hello'') machine_example) (on_screen machine_example)"
  by (rule cmd_cat_correct [OF machine_example_wf(2,1)])
     (simp_all add: machine_example_def hello_fs_dir cstring_cstr split: if_splits)

text \<open>
  C26. The \<open>hexdump\<close> command prints one row per sixteen bytes: two groups of eight hex
  columns, blank where a short last row has no byte, and the printable characters
  between bars; a name that no file has is reported. It returns for every terminated name on a well-formed console and file table, provided
  that the file, if there is one, is at least sixteen bytes shorter than \<open>2 ^ 32\<close>; the parts of the machine other than the console are unchanged.
\<close>

theorem cmd_hexdump_correct:
  assumes "fs_wf (initrd s)" "vga_wf s" "terminated name"
    and "\<And>d. map_of (fs_dir (initrd s)) (cstring name) = Some d \<Longrightarrow> length d + 16 < 2 ^ 32"
  shows "cmd_hexdump name s =
      emit (case map_of (fs_dir (initrd s)) (cstring name) of
              None \<Rightarrow> map of_char (''File not found'' @ [NL])
            | Some d \<Rightarrow> [10] @ concat (map hex_row (chunks 16 d))) s \<and>
    succeeds (cmd_hexdump name s) (on_screen s)"
  using cmd_hexdump_eq [OF assms] emit_on_screen_only [OF assms(2)] by simp

theorem cmd_hexdump_correct_witness:
  "cmd_hexdump (cstr ''bin/hello'') machine_example =
      emit (case map_of (fs_dir (initrd machine_example)) (cstring (cstr ''bin/hello'')) of
              None \<Rightarrow> map of_char (''File not found'' @ [NL])
            | Some d \<Rightarrow> [10] @ concat (map hex_row (chunks 16 d))) machine_example \<and>
    succeeds (cmd_hexdump (cstr ''bin/hello'') machine_example) (on_screen machine_example)"
  by (rule cmd_hexdump_correct [OF machine_example_wf(2,1)])
     (simp_all add: machine_example_def hello_fs_dir cstring_cstr split: if_splits)

text \<open>
  The \<open>mem\<close> command prints the number of whole megabytes of the 32-bit sum of the
  two memory sizes; its four-byte digit array is large enough for every sum.
\<close>

theorem cmd_mem_correct:
  "cmd_mem s = emit ([10] @ map of_char ''Memory Information:'' @ [10] @ map of_char ''  Total: ''
     @ dec_string ((unat (multiboot2_memory_lower s) + unat (multiboot2_memory_upper s)) mod 2 ^ 32 div 2 ^ 20)
     @ map of_char '' MB'' @ [10] @ map of_char ''  Free: unknown yet'' @ [10]) s"
proof -
  have "unat (multiboot2_memory_lower s + multiboot2_memory_upper s) =
        (unat (multiboot2_memory_lower s) + unat (multiboot2_memory_upper s)) mod 2 ^ 32"
    by (simp add: unat_word_ariths)
  then show ?thesis by (simp only: cmd_mem_eq)
qed

text \<open>
  C35. The \<open>uptime\<close> command is right for exactly the first ten thousand hours: below
  3600000000 ticks (of 10 ms) it prints hours, minutes and seconds of the elapsed whole
  seconds; from then on the hours no longer fit the four-byte array \<open>buf\<close> and the
  command writes behind it.
\<close>

theorem cmd_uptime_correct:
  assumes "vga_wf s"
  shows "cmd_uptime s =
    (if unat (tick_count s) < 3600000000 then emit (uptime_text (unat (tick_count s) div 100)) s
     else Inl Out_Of_Bounds)"
  using assms by (simp add: cmd_uptime_eq cmd_uptime_overflows)

theorem cmd_uptime_correct_witness:
  "cmd_uptime machine_example =
    (if unat (tick_count machine_example) < 3600000000
     then emit (uptime_text (unat (tick_count machine_example) div 100)) machine_example
     else Inl Out_Of_Bounds)"
  by (rule cmd_uptime_correct [OF machine_example_wf(1)])

text \<open>
  The \<open>reboot\<close> command waits for the keyboard controller and then resets the
  machine: it polls port 0x64 until bit 1 of the answer is clear, writes the reset command
  0xFE to that port as its last port access and never returns; if the controller stays
  busy, the command keeps waiting.
\<close>

theorem cmd_reboot_resets:
  assumes "\<forall>b \<in> set busy. b AND 0x02 \<noteq> 0"
  shows "(ready AND 0x02 = 0 \<and> ins s = busy @ ready # rest \<longrightarrow>
            cmd_reboot s = Inl (Spinning (io_log s @ map (In 0x64) (busy @ [ready]) @ [Out 0x64 0xFE]))) \<and>
         (ins s = busy \<longrightarrow> cmd_reboot s = Inl Blocked)"
proof (intro conjI impI)
  assume "ready AND 0x02 = 0 \<and> ins s = busy @ ready # rest"
  then have "reboot_wait 2 s = Inr (s\<lparr>ins := rest, io_log := io_log s @ map (In 0x64) (busy @ [ready])\<rparr>)"
    using assms by (intro reboot_wait_busy) auto
  then show "cmd_reboot s = Inl (Spinning (io_log s @ map (In 0x64) (busy @ [ready]) @ [Out 0x64 0xFE]))"
    by (simp add: cmd_reboot_def)
next
  assume "ins s = busy"
  then have "reboot_wait 2 s = Inl Blocked"
    using assms by (intro reboot_wait_forever) auto
  then show "cmd_reboot s = Inl Blocked"
    by (simp add: cmd_reboot_def)
qed

theorem cmd_reboot_resets_witness:
  "let s = machine_example\<lparr>ins := [0x1E, 0x1C]\<rparr> in
   ((0x1C :: u8) AND 0x02 = 0 \<and> ins s = [0x1E] @ 0x1C # [] \<longrightarrow>
      cmd_reboot s = Inl (Spinning (io_log s @ map (In 0x64) ([0x1E] @ [0x1C]) @ [Out 0x64 0xFE]))) \<and>
   (ins s = [0x1E] \<longrightarrow> cmd_reboot s = Inl Blocked)"
  unfolding Let_def by (rule cmd_reboot_resets) simp

end
