(* ===== verification/Shell.thy ===== *)
theory Shell
  imports Commands History
begin

text \<open>
  The interactive shell of \<^verbatim>\<open>kernel/shell/shell_main.c\<close>: splitting a command line into
  words, dispatching to the commands, and the line editor with its escape-sequence
  state machine and history recall. \<^verbatim>\<open>kernel/shell/shell_keyboard.c\<close> and
  \<^verbatim>\<open>kernel/shell/shell.c\<close> hold two other versions of the line editor on the same
  interfaces; they are modelled in \<open>Shell_Variants\<close> with the pieces defined here.
\<close>

section \<open>State\<close>

record editor_state = machine_state +
  shell_history :: hist_state
  input_buf :: "u8 list"
  cmd_pos :: int

record shell_state = editor_state +
  escape_sequence :: int

section \<open>Command lines\<close>

abbreviation MAX_COMMAND :: int where "MAX_COMMAND \<equiv> 256"
abbreviation MAX_ARGS :: nat where "MAX_ARGS \<equiv> 16"

definition is_sep :: "u8 \<Rightarrow> bool" where
  "is_sep c \<longleftrightarrow> c = 0x20 \<or> c = 9 \<or> c = 10"

text \<open>
  The pointer \<open>input\<close> is an offset into the buffer that holds the line, and so are the
  elements of \<open>argv\<close>. The result is the buffer with zero bytes for the separators
  and the offsets; \<open>argc\<close> is their number.
\<close>

function parse_command :: "u8 list \<Rightarrow> nat \<Rightarrow> bool \<Rightarrow> nat list \<Rightarrow> (u8 list \<times> nat list) res" where
  "parse_command buf input in_word argv =
     bindR (buf_read buf (int input)) (\<lambda>c.
     if c \<noteq> 0 \<and> length argv < MAX_ARGS
     then if is_sep c
          then bindR (buf_write buf (int input) 0) (\<lambda>buf. parse_command buf (Suc input) False argv)
          else if \<not> in_word
          then bindR (push_buf MAX_ARGS argv input) (\<lambda>argv. parse_command buf (Suc input) True argv)
          else parse_command buf (Suc input) True argv
     else Inr (buf, argv))"
  by pat_completeness auto
termination
  by (relation "measure (\<lambda>(buf, input, in_word, argv). length buf - input)")
     (auto simp: buf_read_def buf_write_def split: if_splits)

declare parse_command.simps [simp del]

fun trim_loop :: "u8 list \<Rightarrow> nat \<Rightarrow> u8 list res" where
  "trim_loop str 0 = Inr str"
| "trim_loop str (Suc n) =
     bindR (buf_read str (int n)) (\<lambda>c.
     if c = 10 \<or> c = 13
     then bindR (buf_write str (int n) 0) (\<lambda>str. trim_loop str n)
     else Inr str)"

definition trim_newline :: "u8 list \<Rightarrow> u8 list res" where
  "trim_newline str = bindR (strlen str) (trim_loop str)"

text \<open>\<open>if (strcmp(p, "...") == 0 && cond) yes else no\<close>\<close>

definition branch :: "u8 list \<Rightarrow> string \<Rightarrow> bool \<Rightarrow> 's res \<Rightarrow> 's res \<Rightarrow> 's res" where
  "branch p lit cond yes no = bindR (strcmp p (cstr lit)) (\<lambda>d. if d = 0 \<and> cond then yes else no)"

definition unknown_command :: "u8 list \<Rightarrow> 'a vga_state_scheme \<Rightarrow> 'a vga_state_scheme res" where
  "unknown_command arg0 =
     seqR [Inr \<circ> vga_set_color 0x0C 0x00, vga_writestring (cstr ''Unknown command: ''),
           vga_writestring arg0, vga_writestring (cstr [NL]), Inr \<circ> vga_set_color 0x0F 0x00]"

text \<open>
  The chain of comparisons: \<open>arg0\<close> is \<open>argv[0]\<close>, \<open>args\<close> are \<open>argv[1]\<close> and the later
  ones, so that \<open>argc >= 2\<close> says that \<open>args\<close> is not empty.
\<close>

definition shell_dispatch ::
  "string \<Rightarrow> u8 list \<Rightarrow> u8 list list \<Rightarrow> 'a machine_state_scheme \<Rightarrow> 'a machine_state_scheme res" where
  "shell_dispatch build arg0 args s =
     branch arg0 ''help'' True (cmd_help s) (
     branch arg0 ''clear'' True (cmd_clear s) (
     branch arg0 ''reboot'' True (cmd_reboot s) (
     branch arg0 ''ls'' True (cmd_ls s) (
     branch arg0 ''cat'' (args \<noteq> []) (cmd_cat (hd args) s) (
     branch arg0 ''echo'' True (cmd_echo (if args \<noteq> [] then hd args else cstr '''') s) (
     branch arg0 ''mem'' True (cmd_mem s) (
     branch arg0 ''uptime'' True (cmd_uptime s) (
     branch arg0 ''uname'' True (cmd_uname build s) (
     branch arg0 ''hexdump'' (args \<noteq> []) (cmd_hexdump (hd args) s) (
     branch arg0 ''date'' True (cmd_date s) (
     branch arg0 ''top'' True (cmd_top s) (
     unknown_command arg0 s))))))))))))"

text \<open>The caller's buffer is changed in place; it is returned with the state.\<close>

definition shell_process_command ::
  "string \<Rightarrow> u8 list \<Rightarrow> 'a editor_state_scheme \<Rightarrow> (u8 list \<times> 'a editor_state_scheme) res" where
  "shell_process_command build cmdline s =
     bindR (trim_newline cmdline) (\<lambda>trimmed.
     bindR (buf_read trimmed 0) (\<lambda>c.
     if c = 0 then bindR (shell_prompt s) (\<lambda>s. Inr (trimmed, s))
     else
       bindR (history_add trimmed (shell_history s)) (\<lambda>h.
       let s = s\<lparr>shell_history := h\<rparr> in
       bindR (parse_command trimmed 0 False []) (\<lambda>(buf, argv).
       if argv = [] then bindR (shell_prompt s) (\<lambda>s. Inr (buf, s))
       else
         bindR (shell_dispatch build (drop (hd argv) buf) (map (\<lambda>p. drop p buf) (tl argv)) s) (\<lambda>s.
         bindR (shell_prompt s) (\<lambda>s. Inr (buf, s)))))))"

section \<open>The line editor\<close>

text \<open>Wiping the typed characters: \<open>"\b \b"\<close> for each of them.\<close>

definition erase_line :: "'a editor_state_scheme \<Rightarrow> 'a editor_state_scheme res" where
  "erase_line s = forR 0 (cmd_pos s) (\<lambda>i. seqR [vga_putchar 8, vga_putchar 0x20, vga_putchar 8]) s"

text \<open>\<open>strcpy(input_buf, p); cmd_pos = strlen(p); vga_writestring(input_buf)\<close>\<close>

definition load_line :: "u8 list \<Rightarrow> 'a editor_state_scheme \<Rightarrow> 'a editor_state_scheme res" where
  "load_line p s =
     bindR (strcpy (input_buf s) p) (\<lambda>buf.
     bindR (strlen p) (\<lambda>n.
     vga_writestring buf (s\<lparr>input_buf := buf, cmd_pos := int n\<rparr>)))"

definition recall_prev :: "'a editor_state_scheme \<Rightarrow> 'a editor_state_scheme res" where
  "recall_prev s =
     bindR (history_prev (shell_history s)) (\<lambda>(prev, h).
     let s = s\<lparr>shell_history := h\<rparr> in
     bindR (buf_read prev 0) (\<lambda>c.
     if c \<noteq> 0 then bindR (erase_line s) (load_line prev) else Inr s))"

definition recall_next :: "'a editor_state_scheme \<Rightarrow> 'a editor_state_scheme res" where
  "recall_next s =
     bindR (history_next (shell_history s)) (\<lambda>(nxt, h).
     bindR (erase_line (s\<lparr>shell_history := h\<rparr>)) (\<lambda>s.
     bindR (buf_read nxt 0) (\<lambda>c.
     if c \<noteq> 0 then load_line nxt s
     else bindR (buf_write (input_buf s) 0 0) (\<lambda>buf.
          Inr (s\<lparr>input_buf := buf, cmd_pos := 0\<rparr>)))))"

definition submit_line :: "string \<Rightarrow> 'a editor_state_scheme \<Rightarrow> 'a editor_state_scheme res" where
  "submit_line build s =
     bindR (buf_write (input_buf s) (cmd_pos s) 0) (\<lambda>buf.
     bindR (vga_putchar 10 (s\<lparr>input_buf := buf\<rparr>)) (\<lambda>s.
     bindR (shell_process_command build (input_buf s) s) (\<lambda>(buf, s).
     Inr (s\<lparr>input_buf := buf, cmd_pos := 0\<rparr>))))"

definition erase_key :: "'a editor_state_scheme \<Rightarrow> 'a editor_state_scheme res" where
  "erase_key s =
     (if cmd_pos s > 0 then vga_putchar 8 (s\<lparr>cmd_pos := cmd_pos s - 1\<rparr>) else Inr s)"

text \<open>\<open>key >= 32 && key <= 126 && cmd_pos < MAX_COMMAND - 1\<close>; \<open>key\<close> is a signed \<open>char\<close>.\<close>

definition type_key :: "u8 \<Rightarrow> 'a editor_state_scheme \<Rightarrow> 'a editor_state_scheme res" where
  "type_key key s =
     (if sint key \<ge> 32 \<and> sint key \<le> 126 \<and> cmd_pos s < MAX_COMMAND - 1
      then bindR (buf_write (input_buf s) (cmd_pos s) key) (\<lambda>buf.
           vga_putchar key (s\<lparr>input_buf := buf, cmd_pos := cmd_pos s + 1\<rparr>))
      else Inr s)"

text \<open>The part of the handler that follows the escape sequences.\<close>

definition plain_key :: "string \<Rightarrow> u8 \<Rightarrow> 'a shell_state_scheme \<Rightarrow> 'a shell_state_scheme res" where
  "plain_key build key s =
     (if key = 0x1B then Inr (s\<lparr>escape_sequence := 1\<rparr>)
      else if key = 10 then bindR (submit_line build s) (\<lambda>s. Inr (s\<lparr>escape_sequence := 0\<rparr>))
      else if key = 8 then erase_key s
      else type_key key s)"

definition shell_handle_key :: "string \<Rightarrow> u8 \<Rightarrow> 'a shell_state_scheme \<Rightarrow> 'a shell_state_scheme res" where
  "shell_handle_key build key s =
     (if escape_sequence s = 1 \<and> key = of_char (CHR ''['') then Inr (s\<lparr>escape_sequence := 2\<rparr>)
      else
        let s = (if escape_sequence s = 1 then s\<lparr>escape_sequence := 0\<rparr> else s) in
        if escape_sequence s = 2
        then let s = s\<lparr>escape_sequence := 0\<rparr> in
             if key = of_char (CHR ''A'') then recall_prev s
             else if key = of_char (CHR ''B'') then recall_next s
             else Inr s
        else plain_key build key s)"

definition shell_init :: "'a vga_state_scheme \<Rightarrow> 'a vga_state_scheme res" where
  "shell_init =
     seqR [Inr \<circ> vga_set_color 0x0F 0x00,
           vga_writestring (cstr ([NL] @ ''Larch OS Shell v1.0'' @ [NL])),
           vga_writestring (cstr (''Type '' @ [QU] @ ''help'' @ [QU] @ '' for available commands'' @ [NL, NL])),
           shell_prompt]"

section \<open>Splitting into words\<close>

text \<open>The maximal runs of characters other than space, tab and newline.\<close>

definition blank :: "u8 \<Rightarrow> bool" where
  "blank c \<longleftrightarrow> c \<in> {0x20, 9, 10}"

lemma is_sep_blank [simp]: "is_sep c = blank c"
  by (simp add: is_sep_def blank_def)

function words :: "u8 list \<Rightarrow> u8 list list" where
  "words cs =
     (let cs = dropWhile blank cs in
      if cs = [] then []
      else takeWhile (\<lambda>c. \<not> blank c) cs # words (dropWhile (\<lambda>c. \<not> blank c) cs))"
  by pat_completeness auto
termination
proof (relation "measure length")
  fix cs xs :: "u8 list"
  assume xs: "xs = dropWhile blank cs" "xs \<noteq> []"
  then have "\<not> blank (hd xs)" using hd_dropWhile [of blank cs] by simp
  then have "length (dropWhile (\<lambda>c. \<not> blank c) xs) < length xs"
    using xs(2) by (cases xs) (simp_all add: length_dropWhile_le less_Suc_eq_le)
  also have "\<dots> \<le> length cs" using xs(1) by (simp add: length_dropWhile_le)
  finally show "(dropWhile (\<lambda>c. \<not> blank c) xs, cs) \<in> measure length" by simp
qed simp

declare words.simps [simp del]

lemma words_Nil [simp]: "words [] = []"
  by (simp add: words.simps)

lemma words_sep [simp]: "blank c \<Longrightarrow> words (c # cs) = words cs"
  by (subst (1 2) words.simps) simp

lemma words_char:
  "\<not> blank c \<Longrightarrow> words (c # cs) =
     (c # takeWhile (\<lambda>c. \<not> blank c) cs) # words (dropWhile (\<lambda>c. \<not> blank c) cs)"
  by (subst words.simps) simp

text \<open>The words still to be found when the scan stands inside or outside a word.\<close>

definition pending :: "bool \<Rightarrow> u8 list \<Rightarrow> u8 list list" where
  "pending in_word cs = words (if in_word then dropWhile (\<lambda>c. \<not> blank c) cs else cs)"

lemma pending_simps [simp]:
  "pending w [] = []"
  "blank c \<Longrightarrow> pending w (c # cs) = pending False cs"
  "\<not> blank c \<Longrightarrow> pending True (c # cs) = pending True cs"
  "\<not> blank c \<Longrightarrow> pending False (c # cs) = (c # takeWhile (\<lambda>c. \<not> blank c) cs) # pending True cs"
  by (simp_all add: pending_def words_char)

text \<open>
  What a run of the scan from offset \<open>i\<close> leaves behind: the bytes before \<open>i\<close>, the
  terminators, the number of words and their contents. The word found last is complete
  only if the argument vector did not fill up.
\<close>

definition scanned :: "u8 list \<Rightarrow> nat \<Rightarrow> bool \<Rightarrow> nat list \<Rightarrow> u8 list \<Rightarrow> nat list \<Rightarrow> bool" where
  "scanned buf i w argv buf' offs \<longleftrightarrow>
     length buf' = length buf \<and> take i buf' = take i buf \<and> terminated (drop i buf') \<and>
     (\<forall>p \<in> set offs. terminated (drop p buf')) \<and>
     length offs = min (MAX_ARGS - length argv) (length (pending w (cstring (drop i buf)))) \<and>
     (w \<and> (length argv + length offs < MAX_ARGS \<or> offs \<noteq> []) \<longrightarrow>
        cstring (drop i buf') = takeWhile (\<lambda>c. \<not> blank c) (cstring (drop i buf))) \<and>
     (\<forall>j < length offs. length argv + length offs < MAX_ARGS \<or> Suc j < length offs \<longrightarrow>
        cstring (drop (offs ! j) buf') = pending w (cstring (drop i buf)) ! j)"

lemma drop_step:
  assumes "i < length buf" "length buf' = length buf" "take (Suc i) buf' = take (Suc i) buf"
  shows "take i buf' = take i buf" "drop i buf' = buf ! i # drop (Suc i) buf'"
proof -
  show "take i buf' = take i buf"
    using assms(3) by (metis min_def take_take le_SucI order_refl)
  have "buf' ! i = buf ! i" using assms(3) by (metis lessI nth_take)
  then show "drop i buf' = buf ! i # drop (Suc i) buf'"
    using assms(1,2) by (simp add: Cons_nth_drop_Suc [symmetric])
qed

lemma scanned_stop:
  "terminated (drop i buf) \<Longrightarrow> cstring (drop i buf) = [] \<or> MAX_ARGS \<le> length argv \<Longrightarrow> scanned buf i w argv buf []"
  by (auto simp: scanned_def)

lemma scanned_sep:
  assumes "scanned (buf[i := 0]) (Suc i) False argv buf' offs" "i < length buf" "buf ! i \<noteq> 0" "blank (buf ! i)"
  shows "scanned buf i w argv buf' offs"
proof -
  have len: "length buf' = length buf" and tk: "take (Suc i) buf' = take (Suc i) (buf[i := 0])"
    using assms(1) by (auto simp: scanned_def)
  have d: "take i buf' = take i buf" "drop i buf' = 0 # drop (Suc i) buf'"
    using drop_step [of i "buf[i := 0]" buf'] len tk assms(2) by auto
  have "cstring (drop i buf) = buf ! i # cstring (drop (Suc i) buf)"
    using assms(2,3) by (simp add: Cons_nth_drop_Suc [symmetric])
  then show ?thesis
    using assms(1,4) d len by (auto simp: scanned_def)
qed

lemma scanned_inside:
  assumes "scanned buf (Suc i) True argv buf' offs" "i < length buf" "buf ! i \<noteq> 0" "\<not> blank (buf ! i)"
  shows "scanned buf i True argv buf' offs"
proof -
  have len: "length buf' = length buf" and tk: "take (Suc i) buf' = take (Suc i) buf"
    using assms(1) by (auto simp: scanned_def)
  have "cstring (drop i buf) = buf ! i # cstring (drop (Suc i) buf)"
    using assms(2,3) by (simp add: Cons_nth_drop_Suc [symmetric])
  then show ?thesis
    using assms(1,3,4) drop_step [OF assms(2) len tk] by (auto simp: scanned_def)
qed

lemma scanned_start:
  assumes "scanned buf (Suc i) True (argv @ [i]) buf' offs" "i < length buf" "buf ! i \<noteq> 0" "\<not> blank (buf ! i)"
    and "length argv < MAX_ARGS"
  shows "scanned buf i False argv buf' (i # offs)"
proof -
  have len: "length buf' = length buf" and tk: "take (Suc i) buf' = take (Suc i) buf"
    using assms(1) by (auto simp: scanned_def)
  note d = drop_step [OF assms(2) len tk]
  have c: "cstring (drop i buf) = buf ! i # cstring (drop (Suc i) buf)"
    using assms(2,3) by (simp add: Cons_nth_drop_Suc [symmetric])
  have first: "cstring (drop i buf') = buf ! i # takeWhile (\<lambda>c. \<not> blank c) (cstring (drop (Suc i) buf))"
    if "length argv + length (i # offs) < MAX_ARGS \<or> offs \<noteq> []"
    using assms(1,3) d(2) that by (auto simp: scanned_def)
  have n: "length offs = min (MAX_ARGS - Suc (length argv)) (length (pending True (cstring (drop (Suc i) buf))))"
    and later: "\<And>j. j < length offs \<Longrightarrow> Suc (length argv + length offs) < MAX_ARGS \<or> Suc j < length offs \<Longrightarrow>
        cstring (drop (offs ! j) buf') = pending True (cstring (drop (Suc i) buf)) ! j"
    and t: "terminated (drop (Suc i) buf')" "\<forall>p \<in> set offs. terminated (drop p buf')"
    using assms(1) by (auto simp: scanned_def)
  have "length (i # offs) = min (MAX_ARGS - length argv) (length (pending False (cstring (drop i buf))))"
    using n c assms(4,5) by auto
  moreover have "cstring (drop ((i # offs) ! j) buf') = pending False (cstring (drop i buf)) ! j"
    if "j < length (i # offs)" "length argv + length (i # offs) < MAX_ARGS \<or> Suc j < length (i # offs)" for j
    using that first later [of "j - 1"] c assms(4) by (cases j) auto
  ultimately show ?thesis
    using d len t by (auto simp: scanned_def)
qed

lemma parse_command_scans:
  assumes "terminated (drop i buf)" "length argv \<le> MAX_ARGS"
  shows "\<exists>buf' offs. parse_command buf i w argv = Inr (buf', argv @ offs) \<and> scanned buf i w argv buf' offs"
  using assms
proof (induction buf i w argv rule: parse_command.induct)
  case (1 buf i w argv)
  note IH = "1.IH" [unfolded is_sep_blank]
  have i: "i < length buf" using "1.prems"(1) by (cases "i < length buf") auto
  then have rd: "buf_read buf (int i) = Inr (buf ! i)" by (simp add: buf_simps)
  have dr: "drop i buf = buf ! i # drop (Suc i) buf" using i by (simp add: Cons_nth_drop_Suc)
  show ?case
  proof (cases "buf ! i \<noteq> 0 \<and> length argv < MAX_ARGS")
    case stop: False
    then show ?thesis
      using "1.prems" rd dr scanned_stop [of i buf argv w] by (auto simp: parse_command.simps [of buf])
  next
    case go: True
    then have t: "terminated (drop (Suc i) buf)" using "1.prems"(1) dr by simp
    consider "blank (buf ! i)" | "\<not> blank (buf ! i)" w | "\<not> blank (buf ! i)" "\<not> w" by blast
    then show ?thesis
    proof cases
      case 1
      have wr: "buf_write buf (int i) 0 = Inr (buf[i := 0])" using i by (simp add: buf_simps)
      show ?thesis
        using IH(1) [OF rd go 1 wr] t "1.prems"(2) scanned_sep [OF _ i] go 1 rd wr
        by (auto simp: parse_command.simps [of buf i])
    next
      case 2
      then show ?thesis
        using IH(3) [OF rd go] t "1.prems"(2) scanned_inside [OF _ i] go rd
        by (auto simp: parse_command.simps [of buf i])
    next
      case 3
      have pu: "push_buf MAX_ARGS argv i = Inr (argv @ [i])" using go by (simp add: buf_simps)
      obtain buf' offs where r: "parse_command buf (Suc i) True (argv @ [i]) = Inr (buf', (argv @ [i]) @ offs)"
        "scanned buf (Suc i) True (argv @ [i]) buf' offs"
        using IH(2) [OF rd go 3 pu] t go by auto
      show ?thesis
        using r scanned_start [OF r(2) i] go 3 rd pu
        by (intro exI [of _ buf'] exI [of _ "i # offs"]) (simp add: parse_command.simps [of buf i])
    qed
  qed
qed

section \<open>Trimming\<close>

definition strip_newlines :: "u8 list \<Rightarrow> u8 list" where
  "strip_newlines cs = rev (dropWhile (\<lambda>c. c = 10 \<or> c = 13) (rev cs))"

lemma trim_loop_eq:
  "\<exists>ys'. trim_loop (xs @ 0 # ys) (length xs) = Inr (strip_newlines xs @ 0 # ys') \<and>
     length (strip_newlines xs @ 0 # ys') = length (xs @ 0 # ys)"
proof (induction xs arbitrary: ys rule: rev_induct)
  case (snoc c zs)
  have rd: "buf_read ((zs @ [c]) @ 0 # ys) (int (length zs)) = Inr c"
    by (simp add: buf_simps nth_append)
  have wr: "buf_write ((zs @ [c]) @ 0 # ys) (int (length zs)) 0 = Inr (zs @ 0 # 0 # ys)"
    by (simp add: buf_simps list_update_append)
  show ?case
    using snoc [of "0 # ys"] rd wr by (auto simp: strip_newlines_def)
qed (simp add: strip_newlines_def)

lemma trim_newline_eq:
  assumes "terminated p"
  obtains q where "trim_newline p = Inr q" "length q = length p" "terminated q"
    "cstring q = strip_newlines (cstring p)"
proof -
  let ?ys = "drop (Suc (length (cstring p))) p"
  obtain ys' where "trim_loop (cstring p @ 0 # ?ys) (length (cstring p)) = Inr (strip_newlines (cstring p) @ 0 # ys')"
    "length (strip_newlines (cstring p) @ 0 # ys') = length p"
    using trim_loop_eq [of "cstring p" ?ys] terminated_split [OF assms] by metis
  moreover have "0 \<notin> set (strip_newlines (cstring p))"
    using zero_notin_cstring [of p] by (auto simp: strip_newlines_def dest: set_dropWhileD)
  ultimately show ?thesis
    using that [of "strip_newlines (cstring p) @ 0 # ys'"] terminated_split [OF assms]
    by (simp add: trim_newline_def strlen_terminated assms)
qed

lemma length_strip_newlines: "length (strip_newlines cs) \<le> length cs"
  by (simp add: strip_newlines_def) (metis length_dropWhile_le length_rev)

section \<open>Dispatch\<close>

lemma branch_eq:
  assumes "terminated p" "CHR 0x00 \<notin> set lit"
  shows "branch p lit cond yes no = (if cstring p = map of_char lit \<and> cond then yes else no)"
proof -
  obtain d where "strcmp p (cstr lit) = Inr d" using strcmp_defined [OF assms(1), of "cstr lit"] by auto
  then show ?thesis
    using strcmp_eq_0_iff [OF assms(1), of "cstr lit"] assms(2) by (simp add: branch_def cstring_cstr)
qed

text \<open>\<open>kept s s'\<close>: only the console and the devices changed between \<open>s\<close> and \<open>s'\<close>.\<close>

definition kept :: "'a vga_state_scheme \<Rightarrow> 'a vga_state_scheme \<Rightarrow> bool" where
  "kept s s' \<longleftrightarrow> vga_wf s' \<and> vga_state.more s' = vga_state.more s"

lemma on_screen_kept: "on_screen s s' \<Longrightarrow> kept s s'"
  by (simp add: kept_def on_screen_def)

lemma screen_safe: "succeeds m (on_screen s) \<Longrightarrow> safe m (kept s)"
  by (rule succeeds_safe) (erule succeeds_weaken, rule on_screen_kept)

lemma kept_trans: "kept s s' \<Longrightarrow> kept s' s'' \<Longrightarrow> kept s s''"
  by (simp add: kept_def)

definition machine_wf :: "'a machine_state_scheme \<Rightarrow> bool" where
  "machine_wf s \<longleftrightarrow> vga_wf s \<and> fs_wf (initrd s) \<and>
     (\<forall>e \<in> set (fs_dir (initrd s)). length (snd e) + 256 < 2 ^ 32) \<and>
     unat (tick_count s) < 3600000000"

lemma machine_wf_files:
  "machine_wf s \<Longrightarrow> map_of (fs_dir (initrd s)) n = Some d \<Longrightarrow> length d + 256 < 2 ^ 32"
  by (auto simp: machine_wf_def dest!: map_of_SomeD)

lemma kept_machine:
  assumes "kept s s'"
  shows "initrd s' = initrd s" "tick_count s' = tick_count s"
    "multiboot2_memory_lower s' = multiboot2_memory_lower s" "multiboot2_memory_upper s' = multiboot2_memory_upper s"
  using assms by (cases s; cases s'; simp add: kept_def vga_state.defs)+

lemma kept_machine_wf: "machine_wf s \<Longrightarrow> kept s s' \<Longrightarrow> machine_wf s'"
  using kept_machine [of s s'] by (simp add: machine_wf_def kept_def)

lemma rtc_read_safe:
  assumes "vga_wf (s :: 'a vga_state_scheme)"
  shows "safe (rtc_read r s) (\<lambda>(v, s'). kept s s')"
  using assms by (cases "ins s") (simp_all add: kept_def vga_wf_def rtc_read_def inb_def outb_def)

lemma terminated_two_digits: "terminated (two_digits v)"
  by (simp add: two_digits_def)

lemma cmd_date_safe:
  assumes "vga_wf (s :: 'a vga_state_scheme)"
  shows "safe (cmd_date s) (kept s)"
proof -
  have rd: "safe (rtc_read r t) (\<lambda>(v, t'). kept s t')" if "kept s t" for r and t :: "'a vga_state_scheme"
    using that rtc_read_safe [of t r] by (auto simp: kept_def elim!: safe_weaken)
  have k: "kept s s" using assms by (simp add: kept_def)
  have time: "safe (rtc_get_time s) (\<lambda>(hms, t). kept s t)"
    unfolding rtc_get_time_def Let_def
    by (rule safe_bind_pair, rule rd, rule k, rule safe_bind_pair, erule rd,
        rule safe_bind_pair, erule rd, rule safe_bind_pair, erule rd, simp)
  have pr: "safe (seqR [vga_writestring (cstr [NL]),
           vga_writestring (two_digits h), vga_writestring (cstr '':''),
           vga_writestring (two_digits m), vga_writestring (cstr '':''),
           vga_writestring (two_digits sec), vga_writestring (cstr [NL])] t) (kept s)"
    if t: "kept s t" for h m sec and t :: "'a vga_state_scheme"
  proof (rule safe_weaken [OF screen_safe])
    show "succeeds (seqR [vga_writestring (cstr [NL]),
           vga_writestring (two_digits h), vga_writestring (cstr '':''),
           vga_writestring (two_digits m), vga_writestring (cstr '':''),
           vga_writestring (two_digits sec), vga_writestring (cstr [NL])] t) (on_screen t)"
      using t by (intro seqR_on_screen) (auto simp: kept_def terminated_two_digits intro!: console_steps)
  qed (rule kept_trans [OF t])
  show ?thesis
    unfolding cmd_date_def by (rule safe_bindR [OF time]) (auto intro: pr)
qed

lemma reboot_wait_safe: "reboot_wait good s = Inl Blocked \<or> (\<exists>s'. reboot_wait good s = Inr s')"
proof (induction good s rule: reboot_wait.induct)
  case (1 good s)
  show ?case
    using 1 by (cases "ins s") (auto simp: reboot_wait.simps [of good s] inb_Nil inb_Cons)
qed

lemma cmd_reboot_safe: "safe (cmd_reboot s) P"
  using reboot_wait_safe [of 2 s] by (auto simp: cmd_reboot_def)

lemma unknown_on_screen: "vga_wf s \<Longrightarrow> terminated p \<Longrightarrow> succeeds (unknown_command p s) (on_screen s)"
  unfolding unknown_command_def
  by (rule seqR_on_screen) (auto intro!: console_steps)

lemma shell_dispatch_safe:
  fixes s :: "'a machine_state_scheme"
  assumes wf: "machine_wf s" and "terminated arg0" "\<And>p. p \<in> set args \<Longrightarrow> terminated p"
  shows "safe (shell_dispatch build arg0 args s) (kept s)"
proof -
  have v: "vga_wf s" "fs_wf (initrd s)" "unat (tick_count s) < 3600000000" using wf by (auto simp: machine_wf_def)
  have b: "safe (branch arg0 lit cond yes no) (kept s)"
    if "CHR 0x00 \<notin> set lit" "cond \<Longrightarrow> safe yes (kept s)" "safe no (kept s)"
    for lit cond and yes no :: "'a machine_state_scheme res"
    using that by (simp add: branch_eq assms(2))
  have e: "safe (emit cs s) (kept s)" for cs by (rule screen_safe [OF emit_on_screen_only [OF v(1)]])
  have cat: "safe (cmd_cat (hd args) s) (kept s)" if "args \<noteq> []"
    using cmd_cat_eq [OF v(2,1), of "hd args"] machine_wf_files [OF wf] assms(3) that e by simp
  have dump: "safe (cmd_hexdump (hd args) s) (kept s)" if "args \<noteq> []"
  proof -
    have "cmd_hexdump (hd args) s = emit (case map_of (fs_dir (initrd s)) (cstring (hd args)) of
            None \<Rightarrow> map of_char (''File not found'' @ [NL])
          | Some d \<Rightarrow> [10] @ concat (map hex_row (chunks 16 d))) s"
      using that assms(3) machine_wf_files [OF wf, of "cstring (hd args)"] by (intro cmd_hexdump_eq v) fastforce+
    then show ?thesis by (simp only: e)
  qed
  have echo: "safe (cmd_echo (if args \<noteq> [] then hd args else cstr '''') s) (kept s)"
    using assms(3) by (intro screen_safe echo_on_screen v) simp
  have nums: "safe (cmd_mem s) (kept s)" "safe (cmd_uptime s) (kept s)" "safe (cmd_top s) (kept s)"
    using e by (simp_all only: cmd_mem_eq cmd_top_eq cmd_uptime_eq [OF v(3)])
  show ?thesis
    unfolding shell_dispatch_def
    by (intro b cat dump echo nums cmd_reboot_safe cmd_date_safe v(1) screen_safe [OF help_on_screen]
        screen_safe [OF clear_on_screen] screen_safe [OF ls_on_screen] screen_safe [OF uname_on_screen]
        screen_safe [OF unknown_on_screen] assms(2)) simp_all
qed

section \<open>The editor's invariant\<close>

definition editor_line :: "'a editor_state_scheme \<Rightarrow> u8 list" where
  "editor_line s = take (nat (cmd_pos s)) (input_buf s)"

definition editor_wf :: "'a editor_state_scheme \<Rightarrow> bool" where
  "editor_wf s \<longleftrightarrow> machine_wf s \<and> hist_wf (shell_history s) \<and>
     length (input_buf s) = 256 \<and> 0 \<le> cmd_pos s \<and> cmd_pos s \<le> 255 \<and> 0 \<notin> set (editor_line s)"

text \<open>The editor's variables survive console output.\<close>

lemma kept_editor:
  assumes "kept s s'"
  shows "shell_history s' = shell_history s" "input_buf s' = input_buf s" "cmd_pos s' = cmd_pos s"
    "editor_state.more s' = editor_state.more s"
  using assms by (cases s; cases s'; simp add: kept_def vga_state.defs)+

lemma kept_editor_wf: "editor_wf s \<Longrightarrow> kept s s' \<Longrightarrow> editor_wf s'"
  using kept_editor [of s s'] kept_machine_wf [of s s'] by (simp add: editor_wf_def editor_line_def)

lemma machine_wf_update [simp]:
  "machine_wf (s\<lparr>shell_history := h\<rparr>) = machine_wf s"
  "machine_wf (s\<lparr>input_buf := b\<rparr>) = machine_wf s"
  "machine_wf (s\<lparr>cmd_pos := n\<rparr>) = machine_wf s"
  for s :: "'a editor_state_scheme"
  by (simp_all add: machine_wf_def vga_wf_def)

lemma machine_wf_escape [simp]: "machine_wf (s\<lparr>escape_sequence := e\<rparr>) = machine_wf s"
  by (simp add: machine_wf_def vga_wf_def)

lemma editor_wf_escape [simp]: "editor_wf (s\<lparr>escape_sequence := e\<rparr>) = editor_wf s"
  by (simp add: editor_wf_def editor_line_def)

text \<open>\<open>edited s s'\<close>: a step of the editor that keeps the invariant and the caller's variables.\<close>

definition edited :: "'a editor_state_scheme \<Rightarrow> 'a editor_state_scheme \<Rightarrow> bool" where
  "edited s s' \<longleftrightarrow> editor_wf s' \<and> tick_count s' = tick_count s \<and> initrd s' = initrd s \<and>
     multiboot2_memory_lower s' = multiboot2_memory_lower s \<and> multiboot2_memory_upper s' = multiboot2_memory_upper s \<and>
     editor_state.more s' = editor_state.more s"

lemma editedI: "editor_wf s \<Longrightarrow> kept s s' \<Longrightarrow> edited s s'"
  using kept_editor_wf [of s s'] kept_editor(4) [of s s'] kept_machine [of s s'] by (simp add: edited_def)

lemma editor_vga: "editor_wf s \<Longrightarrow> vga_wf s"
  by (simp add: editor_wf_def machine_wf_def)

lemma putchar_edited: "editor_wf s \<Longrightarrow> succeeds (vga_putchar c s) (edited s)"
  using vga_putchar_on_screen [OF editor_vga, of s c]
  by (auto elim!: succeeds_weaken intro: editedI on_screen_kept)

section \<open>Executing a line\<close>

definition recorded :: "u8 list \<Rightarrow> hist_state \<Rightarrow> hist_state \<Rightarrow> bool" where
  "recorded line h h' \<longleftrightarrow> hist_wf h' \<and>
     hist_entries h' = (if line = [] then hist_entries h else last_n 20 (hist_entries h @ [line])) \<and>
     hist_cursor h' = (if line = [] then hist_cursor h else length (hist_entries h'))"

lemma prompt_kept: "vga_wf s \<Longrightarrow> safe (shell_prompt s) (kept s)"
  by (rule screen_safe [OF prompt_on_screen])

text \<open>Every path through a command ends with the prompt.\<close>

lemma process_finish:
  fixes s :: "'a editor_state_scheme"
  assumes t: "kept (s\<lparr>shell_history := h\<rparr>) t" and b: "length b = 256" and h: "recorded line (shell_history s) h"
  shows "safe (bindR (shell_prompt t) (\<lambda>s. Inr (b, s))) (\<lambda>(b, s'). length b = 256 \<and>
     recorded line (shell_history s) (shell_history s') \<and> kept (s\<lparr>shell_history := shell_history s'\<rparr>) s')"
proof (rule safe_bindR [OF prompt_kept])
  show "vga_wf t" using t by (simp add: kept_def)
next
  fix t' assume "kept t t'"
  with t have k: "kept (s\<lparr>shell_history := h\<rparr>) t'" by (rule kept_trans)
  then show "safe (Inr (b, t')) (\<lambda>(b, s'). length b = 256 \<and>
     recorded line (shell_history s) (shell_history s') \<and> kept (s\<lparr>shell_history := shell_history s'\<rparr>) s')"
    using b h kept_editor(1) [OF k] by simp
qed

text \<open>What a line comes to: the prompt alone, or the command that its first word names.\<close>

lemma process_command_cases:
  fixes s :: "'a editor_state_scheme"
  assumes wf: "hist_wf (shell_history s)" and buf: "terminated cmdline" "length cmdline = 256"
  defines "line \<equiv> strip_newlines (cstring cmdline)"
  obtains (no_words) b h where "words line = []" "recorded line (shell_history s) h" "length b = 256"
      "shell_process_command build cmdline s = bindR (shell_prompt (s\<lparr>shell_history := h\<rparr>)) (\<lambda>s. Inr (b, s))"
  | (command) b h arg0 args ws where "words line = cstring arg0 # ws" "recorded line (shell_history s) h" "length b = 256"
      "terminated arg0" "\<And>p. p \<in> set args \<Longrightarrow> terminated p"
      "args = [] \<longleftrightarrow> ws = []" "args \<noteq> [] \<Longrightarrow> cstring (hd args) = hd ws"
      "shell_process_command build cmdline s =
         bindR (shell_dispatch build arg0 args (s\<lparr>shell_history := h\<rparr>)) (\<lambda>t. bindR (shell_prompt t) (\<lambda>s. Inr (b, s)))"
proof -
  obtain q where q: "trim_newline cmdline = Inr q" "length q = 256" "terminated q" "cstring q = line"
    using buf unfolding line_def by (metis trim_newline_eq)
  have rd: "buf_read q 0 = Inr (q ! 0)" using q(2) by (simp add: buf_simps)
  have z: "q ! 0 = 0 \<longleftrightarrow> line = []" using q(2) unfolding q(4) [symmetric] by (cases q) auto
  show thesis
  proof (cases "line = []")
    case True
    then have "recorded line (shell_history s) (shell_history s)" using wf by (simp add: recorded_def)
    then show thesis
      using True z rd q(1,2) by (intro no_words [of "shell_history s" q]) (simp_all add: shell_process_command_def)
  next
    case False
    have "length (cstring q) < 256" using terminated_length [OF q(3)] q(2) by simp
    then obtain h where h: "history_add q (shell_history s) = Inr h" "recorded line (shell_history s) h"
      using hist.add_ok [OF wf q(3)] False q(4) by (auto simp: recorded_def elim!: succeedsE)
    obtain b offs where p: "parse_command q 0 False [] = Inr (b, offs)" "scanned q 0 False [] b offs"
      using parse_command_scans [of 0 q "[]" False] q(3) by auto
    note sc = p(2) [unfolded scanned_def pending_def, simplified, unfolded q(4)]
    show thesis
    proof (cases offs)
      case Nil
      then have "words line = []" using sc by (cases "words line") (simp_all add: min_def split: if_splits)
      then show thesis
        using Nil False z rd q p(1) h sc by (intro no_words [of h b]) (simp_all add: shell_process_command_def Let_def)
    next
      case (Cons i rest)
      then obtain w ws where w: "words line = w # ws" using sc by (cases "words line") auto
      show thesis
      proof (rule command [of "drop i b" ws h b "map (\<lambda>p. drop p b) rest"])
        show "words line = cstring (drop i b) # ws" using sc w Cons by (auto dest: spec [of _ 0])
        show "map (\<lambda>p. drop p b) rest = [] \<longleftrightarrow> ws = []" using sc w Cons by (cases ws) auto
        show "cstring (hd (map (\<lambda>p. drop p b) rest)) = hd ws" if "map (\<lambda>p. drop p b) rest \<noteq> []"
          using sc w Cons that by (cases rest; cases ws) (auto dest: spec [of _ 1])
        show "shell_process_command build cmdline s = bindR (shell_dispatch build (drop i b) (map (\<lambda>p. drop p b) rest)
            (s\<lparr>shell_history := h\<rparr>)) (\<lambda>t. bindR (shell_prompt t) (\<lambda>s. Inr (b, s)))"
          using False z rd q(1) h(1) p(1) Cons by (simp add: shell_process_command_def Let_def)
      qed (use h(2) sc q(2) Cons in auto)
    qed
  qed
qed

lemma process_command_safe:
  fixes s :: "'a editor_state_scheme"
  assumes wf: "machine_wf s" "hist_wf (shell_history s)" and buf: "terminated cmdline" "length cmdline = 256"
  shows "safe (shell_process_command build cmdline s) (\<lambda>(b, s'). length b = 256 \<and>
     recorded (strip_newlines (cstring cmdline)) (shell_history s) (shell_history s') \<and>
     kept (s\<lparr>shell_history := shell_history s'\<rparr>) s')"
proof -
  have k: "kept (s\<lparr>shell_history := h\<rparr>) (s\<lparr>shell_history := h\<rparr>)" for h
    using wf(1) by (simp add: kept_def machine_wf_def vga_wf_def)
  show ?thesis
    using wf(2) buf
  proof (cases rule: process_command_cases [where build = build])
    case (no_words b h)
    then show ?thesis using process_finish [OF k] by simp
  next
    case (command b h arg0 args ws)
    have "safe (shell_dispatch build arg0 args (s\<lparr>shell_history := h\<rparr>)) (kept (s\<lparr>shell_history := h\<rparr>))"
      using wf(1) command(4,5) by (intro shell_dispatch_safe) simp_all
    then show ?thesis
      unfolding command(8) by (rule safe_bindR) (rule process_finish [OF _ command(3,2)])
  qed
qed

section \<open>Editing\<close>

lemma cstring_cut:
  "n < length xs \<Longrightarrow> 0 \<notin> set (take n xs) \<Longrightarrow> cstring (xs[n := 0]) = take n xs \<and> terminated (xs[n := 0])"
  by (simp add: upd_conv_take_nth_drop)

lemma editor_buf_write:
  "editor_wf s \<Longrightarrow> buf_write (input_buf s) (cmd_pos s) v = Inr ((input_buf s)[nat (cmd_pos s) := v])"
  by (simp add: buf_simps editor_wf_def)

text \<open>The buffer that Enter hands over holds the typed line.\<close>

lemma submitted_buffer:
  assumes "editor_wf s"
  shows "cstring ((input_buf s)[nat (cmd_pos s) := 0]) = editor_line s" "terminated ((input_buf s)[nat (cmd_pos s) := 0])"
    "length ((input_buf s)[nat (cmd_pos s) := 0]) = 256"
proof -
  have n: "nat (cmd_pos s) < length (input_buf s)" using assms by (auto simp: editor_wf_def)
  show "cstring ((input_buf s)[nat (cmd_pos s) := 0]) = editor_line s" "terminated ((input_buf s)[nat (cmd_pos s) := 0])"
    "length ((input_buf s)[nat (cmd_pos s) := 0]) = 256"
    using cstring_cut [OF n] assms by (auto simp: editor_wf_def editor_line_def)
qed

lemma submit_line_safe:
  fixes s :: "'a editor_state_scheme"
  assumes "editor_wf s"
  shows "safe (submit_line build s) (\<lambda>s'. edited s s' \<and> cmd_pos s' = 0 \<and>
     recorded (strip_newlines (editor_line s)) (shell_history s) (shell_history s'))"
proof -
  let ?buf = "(input_buf s)[nat (cmd_pos s) := 0]"
  let ?s = "s\<lparr>input_buf := ?buf\<rparr>"
  note line = submitted_buffer [OF assms]
  have m: "machine_wf ?s" "vga_wf ?s" "hist_wf (shell_history s)"
    using assms editor_vga [OF assms] by (auto simp: editor_wf_def vga_wf_def)
  show ?thesis
    unfolding submit_line_def
  proof (simp only: editor_buf_write [OF assms] bindR_Inr, rule safe_bindR [OF screen_safe [OF vga_putchar_on_screen [OF m(2)]]])
    fix t assume t: "kept ?s t"
    note e = kept_editor [OF t]
    have "hist_wf (shell_history t)" "terminated (input_buf t)" "length (input_buf t) = 256"
      using m(3) line e by simp_all
    from process_command_safe [OF kept_machine_wf [OF m(1) t] this, of build]
    show "safe (bindR (shell_process_command build (input_buf t) t)
            (\<lambda>(buf, s). Inr (s\<lparr>input_buf := buf, cmd_pos := 0\<rparr>)))
          (\<lambda>s'. edited s s' \<and> cmd_pos s' = 0 \<and>
             recorded (strip_newlines (editor_line s)) (shell_history s) (shell_history s'))"
    proof (rule safe_bindR, clarify)
      fix b :: "u8 list" and u
      assume b: "length b = 256" and r: "recorded (strip_newlines (cstring (input_buf t))) (shell_history t) (shell_history u)"
        and k: "kept (t\<lparr>shell_history := shell_history u\<rparr>) u"
      have "machine_wf u" using kept_machine_wf [OF _ k] kept_machine_wf [OF m(1) t] by simp
      moreover have "editor_state.more u = editor_state.more s" using kept_editor(4) [OF k] e(4) by simp
      moreover have "tick_count u = tick_count s" "initrd u = initrd s"
        "multiboot2_memory_lower u = multiboot2_memory_lower s" "multiboot2_memory_upper u = multiboot2_memory_upper s"
        using kept_machine [OF k] kept_machine [OF t] by simp_all
      ultimately show "safe (Inr (u\<lparr>input_buf := b, cmd_pos := 0\<rparr>))
          (\<lambda>s'. edited s s' \<and> cmd_pos s' = 0 \<and>
             recorded (strip_newlines (editor_line s)) (shell_history s) (shell_history s'))"
        using b r line e by (simp add: edited_def editor_wf_def editor_line_def recorded_def)
    qed
  qed
qed

lemma erase_line_on_screen: "vga_wf s \<Longrightarrow> 0 \<le> cmd_pos s \<Longrightarrow> succeeds (erase_line s) (on_screen s)"
  unfolding erase_line_def
proof (rule succeeds_forR)
  fix i s' assume "on_screen s s'"
  then show "succeeds (seqR [vga_putchar 8, vga_putchar 0x20, vga_putchar 8] s') (on_screen s)"
    using on_screen_trans
    by (intro succeeds_weaken [OF seqR_on_screen [of _ s']]) (auto simp: on_screen_def intro!: vga_putchar_on_screen)
qed (simp_all add: on_screen_refl)

lemma loaded_line:
  assumes wf: "editor_wf s" and p: "terminated p" "length (cstring p) < 256"
  obtains b where "load_line p s = emit (cstring p) (s\<lparr>input_buf := b, cmd_pos := int (length (cstring p))\<rparr>)"
    "editor_wf (s\<lparr>input_buf := b, cmd_pos := int (length (cstring p))\<rparr>)"
    "editor_line (s\<lparr>input_buf := b, cmd_pos := int (length (cstring p))\<rparr>) = cstring p"
proof -
  obtain b where b: "strcpy (input_buf s) p = Inr b" "length b = 256" "terminated b" "cstring b = cstring p"
    using strcpy_ok [of p "input_buf s"] p wf by (auto simp: editor_wf_def elim!: succeedsE)
  let ?s = "s\<lparr>input_buf := b, cmd_pos := int (length (cstring p))\<rparr>"
  have "take (length (cstring p)) b = cstring p"
    using b(4) terminated_split [OF b(3)] by (metis append_eq_conv_conj)
  then have line: "editor_line ?s = cstring p" by (simp add: editor_line_def)
  then have "editor_wf ?s" using wf p(2) b(2) by (simp add: editor_wf_def)
  moreover have "load_line p s = emit (cstring p) ?s"
    using b p(1) by (simp add: load_line_def strlen_terminated emit_writestring)
  ultimately show thesis using line by (intro that) simp_all
qed

lemma load_line_ok:
  assumes wf: "editor_wf s" and p: "terminated p" "length (cstring p) < 256"
  shows "succeeds (load_line p s) (\<lambda>s'. edited s s' \<and> shell_history s' = shell_history s \<and> editor_line s' = cstring p)"
proof -
  obtain b where b: "load_line p s = emit (cstring p) (s\<lparr>input_buf := b, cmd_pos := int (length (cstring p))\<rparr>)"
    and wf': "editor_wf (s\<lparr>input_buf := b, cmd_pos := int (length (cstring p))\<rparr>)"
    and line: "editor_line (s\<lparr>input_buf := b, cmd_pos := int (length (cstring p))\<rparr>) = cstring p"
    using loaded_line [OF assms] .
  let ?s = "s\<lparr>input_buf := b, cmd_pos := int (length (cstring p))\<rparr>"
  have "succeeds (emit (cstring p) ?s) (\<lambda>s'. edited s s' \<and> shell_history s' = shell_history s \<and> editor_line s' = cstring p)"
  proof (rule succeeds_weaken [OF emit_on_screen_only [OF editor_vga [OF wf']]])
    fix t assume "on_screen ?s t"
    then have k: "kept ?s t" by (rule on_screen_kept)
    show "edited s t \<and> shell_history t = shell_history s \<and> editor_line t = cstring p"
      using editedI [OF wf' k] kept_editor [OF k] line by (simp add: edited_def editor_line_def)
  qed
  then show ?thesis by (simp only: b)
qed

lemma buf_read_first: "terminated p \<Longrightarrow> \<exists>c. buf_read p 0 = Inr c \<and> (c = 0 \<longleftrightarrow> cstring p = [])"
  by (cases p) (auto simp: buf_read_def)

lemma edited_trans: "edited s s' \<Longrightarrow> edited s' s'' \<Longrightarrow> edited s s''"
  by (simp add: edited_def)

lemma erase_line_edited:
  "editor_wf s \<Longrightarrow> succeeds (erase_line s) (\<lambda>s'. edited s s' \<and> shell_history s' = shell_history s)"
  using erase_line_on_screen [OF editor_vga, of s]
  by (auto simp: editor_wf_def kept_editor on_screen_kept elim!: succeeds_weaken intro!: editedI)

lemma editor_wf_history:
  "editor_wf s \<Longrightarrow> hist_wf h \<Longrightarrow> editor_wf (s\<lparr>shell_history := h\<rparr>)"
  by (simp add: editor_wf_def editor_line_def)

text \<open>Erasing the line on the screen and loading another one.\<close>

lemma replace_line_ok:
  assumes "editor_wf s" "terminated p" "length (cstring p) < 256"
  shows "succeeds (bindR (erase_line s) (load_line p))
     (\<lambda>s'. edited s s' \<and> shell_history s' = shell_history s \<and> editor_line s' = cstring p)"
proof (rule succeeds_bindR [OF erase_line_edited [OF assms(1)]])
  fix t assume t: "edited s t \<and> shell_history t = shell_history s"
  then have "editor_wf t" by (simp add: edited_def)
  from load_line_ok [OF this assms(2,3)] t
  show "succeeds (load_line p t) (\<lambda>s'. edited s s' \<and> shell_history s' = shell_history s \<and> editor_line s' = cstring p)"
    by (auto elim!: succeeds_weaken intro: edited_trans)
qed

lemma recall_prev_ok:
  assumes "editor_wf s"
  shows "succeeds (recall_prev s) (\<lambda>s'. edited s s' \<and> hist_entries (shell_history s') = hist_entries (shell_history s) \<and>
     hist_cursor (shell_history s') = hist_cursor (shell_history s) - 1 \<and>
     (let e = hist_entries (shell_history s); k = hist_cursor (shell_history s) - 1 in
      editor_line s' = (if e = [] \<or> e ! k = [] then editor_line s else e ! k)))"
proof -
  have hw: "hist_wf (shell_history s)" using assms by (simp add: editor_wf_def)
  obtain p h where ph: "history_prev (shell_history s) = Inr (p, h)" "hist_wf h"
    "hist_entries h = hist_entries (shell_history s)" "terminated p" "length (cstring p) < 256"
    "hist_cursor h = hist_cursor (shell_history s) - 1"
    "cstring p = (if hist_entries (shell_history s) = [] then []
                  else hist_entries (shell_history s) ! (hist_cursor (shell_history s) - 1))"
    using hist.prev_ok [OF hw] by (auto elim!: succeedsE)
  let ?s = "s\<lparr>shell_history := h\<rparr>"
  have wf: "editor_wf ?s" using assms ph(2) by (rule editor_wf_history)
  obtain c where c: "buf_read p 0 = Inr c" "c = 0 \<longleftrightarrow> cstring p = []" using buf_read_first [OF ph(4)] by auto
  have same: "edited s ?s" "editor_line ?s = editor_line s"
    using wf by (simp_all add: edited_def editor_line_def)
  have ed: "edited ?s t \<longleftrightarrow> edited s t" for t by (simp add: edited_def)
  show ?thesis
    using replace_line_ok [OF wf ph(4,5)] c ph same
    by (auto simp: recall_prev_def Let_def ed split: if_splits elim!: succeeds_weaken)
qed

lemma recall_next_ok:
  assumes "editor_wf s"
  shows "succeeds (recall_next s) (\<lambda>s'. edited s s' \<and> hist_entries (shell_history s') = hist_entries (shell_history s) \<and>
     (let e = hist_entries (shell_history s); k = Suc (hist_cursor (shell_history s)) in
      editor_line s' = (if k < length e then e ! k else [])))"
proof -
  have hw: "hist_wf (shell_history s)" using assms by (simp add: editor_wf_def)
  obtain p h where ph: "history_next (shell_history s) = Inr (p, h)" "hist_wf h"
    "hist_entries h = hist_entries (shell_history s)" "terminated p" "length (cstring p) < 256"
    "cstring p = (if Suc (hist_cursor (shell_history s)) < length (hist_entries (shell_history s))
                  then hist_entries (shell_history s) ! Suc (hist_cursor (shell_history s)) else [])"
    using hist.next_ok [OF hw] by (auto elim!: succeedsE split: if_splits)
  let ?s = "s\<lparr>shell_history := h\<rparr>"
  have wf: "editor_wf ?s" using assms ph(2) by (rule editor_wf_history)
  obtain c where c: "buf_read p 0 = Inr c" "c = 0 \<longleftrightarrow> cstring p = []" using buf_read_first [OF ph(4)] by auto
  have ed: "edited ?s t \<longleftrightarrow> edited s t" for t by (simp add: edited_def)
  show ?thesis
  proof (cases "c = 0")
    case False
    then show ?thesis
      using replace_line_ok [OF wf ph(4,5)] c ph by (auto simp: recall_next_def Let_def ed elim!: succeeds_weaken)
  next
    case True
    have clear: "succeeds (bindR (buf_write (input_buf t) 0 0) (\<lambda>b. Inr (t\<lparr>input_buf := b, cmd_pos := 0\<rparr>)))
        (\<lambda>u. edited s u \<and> shell_history u = h \<and> editor_line u = [])"
      if "edited ?s t \<and> shell_history t = shell_history ?s" for t
      using that by (auto simp: edited_def editor_wf_def editor_line_def buf_simps)
    have "recall_next s = bindR (erase_line ?s) (\<lambda>t.
        bindR (buf_write (input_buf t) 0 0) (\<lambda>b. Inr (t\<lparr>input_buf := b, cmd_pos := 0\<rparr>)))"
      using True c(1) ph(1) by (simp add: recall_next_def)
    then have "succeeds (recall_next s) (\<lambda>s'. edited s s' \<and> shell_history s' = h \<and> editor_line s' = [])"
      using succeeds_bindR [OF erase_line_edited [OF wf] clear] by simp
    then show ?thesis
      using ph c True by (auto simp: Let_def elim!: succeeds_weaken)
  qed
qed

lemma erase_key_ok:
  assumes "editor_wf s"
  shows "succeeds (erase_key s) (\<lambda>s'. edited s s' \<and> shell_history s' = shell_history s \<and> ins s' = ins s \<and>
           editor_line s' = butlast (editor_line s))"
proof (cases "cmd_pos s > 0")
  case True
  let ?s = "s\<lparr>cmd_pos := cmd_pos s - 1\<rparr>"
  have "nat (cmd_pos s) = Suc (nat (cmd_pos s - 1))" "nat (cmd_pos s) \<le> length (input_buf s)"
    using True assms by (auto simp: editor_wf_def)
  then have line: "editor_line ?s = butlast (editor_line s)"
    by (simp add: editor_line_def butlast_take)
  then have wf: "editor_wf ?s"
    using assms True by (auto simp: editor_wf_def dest: in_set_butlastD)
  have "edited s t \<and> shell_history t = shell_history s \<and> ins t = ins s \<and> editor_line t = butlast (editor_line s)"
    if "on_screen ?s t" for t
    using editedI [OF wf on_screen_kept [OF that]] kept_editor [OF on_screen_kept [OF that]] line that
    by (simp add: edited_def editor_line_def on_screen_def)
  then show ?thesis
    using True vga_putchar_on_screen [OF editor_vga [OF wf], of 8]
    by (auto simp: erase_key_def elim!: succeeds_weaken)
next
  case False
  then show ?thesis using assms by (auto simp: erase_key_def edited_def editor_line_def editor_wf_def)
qed

definition is_printable :: "u8 \<Rightarrow> bool" where
  "is_printable c \<longleftrightarrow> sint c \<ge> 32 \<and> sint c \<le> 126"

lemma type_key_ok:
  assumes "editor_wf s"
  shows "succeeds (type_key key s) (\<lambda>s'. edited s s' \<and> shell_history s' = shell_history s \<and> ins s' = ins s \<and>
     editor_line s' = editor_line s @ (if is_printable key \<and> length (editor_line s) < 255 then [key] else []))"
proof -
  have len: "length (editor_line s) = nat (cmd_pos s)" using assms by (auto simp: editor_wf_def editor_line_def)
  show ?thesis
  proof (cases "is_printable key \<and> cmd_pos s < 255")
    case True
    let ?s = "s\<lparr>input_buf := (input_buf s)[nat (cmd_pos s) := key], cmd_pos := cmd_pos s + 1\<rparr>"
    have n: "nat (cmd_pos s) < length (input_buf s)" "nat (cmd_pos s + 1) = Suc (nat (cmd_pos s))"
      using assms by (auto simp: editor_wf_def)
    have line: "editor_line ?s = editor_line s @ [key]"
      using n by (simp add: editor_line_def take_Suc_conv_app_nth)
    have "key \<noteq> 0" using True by (auto simp: is_printable_def)
    then have wf: "editor_wf ?s" using assms True line by (simp add: editor_wf_def)
    have "edited s t \<and> shell_history t = shell_history s \<and> ins t = ins s \<and> editor_line t = editor_line s @ [key]"
      if "on_screen ?s t" for t
      using editedI [OF wf on_screen_kept [OF that]] kept_editor [OF on_screen_kept [OF that]] line that
      by (simp add: edited_def editor_line_def on_screen_def)
    then have "succeeds (vga_putchar key ?s) (\<lambda>t. edited s t \<and> shell_history t = shell_history s \<and> ins t = ins s \<and> editor_line t = editor_line s @ [key])"
      by (rule succeeds_weaken [OF vga_putchar_on_screen [OF editor_vga [OF wf]]])
    moreover have "type_key key s = vga_putchar key ?s"
      using True editor_buf_write [OF assms] by (simp add: type_key_def is_printable_def)
    moreover have "length (editor_line s) < 255" using True len by auto
    ultimately show ?thesis using True by simp
  next
    case False
    then have "\<not> (sint key \<ge> 32 \<and> sint key \<le> 126 \<and> cmd_pos s < MAX_COMMAND - 1)"
      by (auto simp: is_printable_def)
    then have "type_key key s = Inr s" by (simp only: type_key_def if_False)
    moreover have "\<not> (is_printable key \<and> length (editor_line s) < 255)" using False len by auto
    ultimately show ?thesis using assms by (simp add: edited_def)
  qed
qed

section \<open>The key handler\<close>

lemma edited_escape [simp]:
  "edited (s\<lparr>escape_sequence := e\<rparr>) s' \<Longrightarrow> editor_wf s'"
  by (simp add: edited_def)

text \<open>\<open>handled s s'\<close>: the key handler keeps the invariant and every variable outside the shell.\<close>

definition handled :: "'a shell_state_scheme \<Rightarrow> 'a shell_state_scheme \<Rightarrow> bool" where
  "handled s s' \<longleftrightarrow> editor_wf s' \<and> tick_count s' = tick_count s \<and> initrd s' = initrd s \<and>
     shell_state.more s' = shell_state.more s"

lemma edited_handled: "edited s s' \<Longrightarrow> handled s s'"
  by (cases s; cases s'; simp add: edited_def handled_def editor_state.defs)

lemma handled_escape [simp]: "handled (s\<lparr>escape_sequence := e\<rparr>) s' = handled s s'"
  "handled s (s'\<lparr>escape_sequence := e\<rparr>) = handled s s'"
  by (simp_all add: handled_def)

lemma plain_key_handled:
  assumes "editor_wf s"
  shows "safe (plain_key build key s) (handled s)"
proof -
  have "safe (submit_line build s) (handled s)"
    by (rule safe_weaken [OF submit_line_safe [OF assms]]) (simp add: edited_handled)
  moreover have "safe (erase_key s) (handled s)"
    by (rule succeeds_safe [OF succeeds_weaken [OF erase_key_ok [OF assms]]]) (simp add: edited_handled)
  moreover have "safe (type_key key s) (handled s)"
    by (rule succeeds_safe [OF succeeds_weaken [OF type_key_ok [OF assms]]]) (simp add: edited_handled)
  moreover have "handled s s" using assms by (simp add: handled_def)
  ultimately show ?thesis
    using assms by (auto simp: plain_key_def intro!: safe_bindR)
qed

lemma handle_key_handled:
  assumes "editor_wf s"
  shows "safe (shell_handle_key build key s) (handled s)"
proof -
  have r: "safe (recall_prev t) (handled s)" "safe (recall_next t) (handled s)" "safe (plain_key build key t) (handled s)"
    if "t = s\<lparr>escape_sequence := e\<rparr>" for t e
  proof -
    have t: "editor_wf t" "\<And>u. handled t u \<longleftrightarrow> handled s u" using assms that by simp_all
    show "safe (recall_prev t) (handled s)" "safe (recall_next t) (handled s)"
      using t by (auto intro!: succeeds_safe succeeds_weaken [OF recall_prev_ok] succeeds_weaken [OF recall_next_ok]
        dest: edited_handled)
    show "safe (plain_key build key t) (handled s)"
      by (rule safe_weaken [OF plain_key_handled [OF t(1)]]) (simp add: t(2))
  qed
  have "handled s s" "safe (plain_key build key s) (handled s)" using assms plain_key_handled by (simp_all add: handled_def)
  then show ?thesis
    using r [OF refl, of 0] by (auto simp: shell_handle_key_def Let_def)
qed

lemma handle_key_safe:
  assumes "editor_wf s"
  shows "safe (shell_handle_key build key s) editor_wf"
  by (rule safe_weaken [OF handle_key_handled [OF assms]]) (simp add: handled_def)

text \<open>What the editing keys do to the typed line.\<close>

definition edit_line :: "u8 \<Rightarrow> u8 list \<Rightarrow> u8 list" where
  "edit_line key line =
     (if key = 8 then butlast line
      else if is_printable key \<and> length line < 255 then line @ [key] else line)"

lemma not_printable: "is_printable c \<Longrightarrow> c \<noteq> 10 \<and> c \<noteq> 13 \<and> c \<noteq> 8 \<and> c \<noteq> 0 \<and> c \<noteq> 0x1B"
  by (auto simp: is_printable_def)

lemma escape_more: "editor_state.more s' = editor_state.more s \<Longrightarrow> escape_sequence s' = escape_sequence s"
  by (cases s; cases s'; simp add: editor_state.defs)

lemma edit_key_ok:
  assumes "editor_wf s" "escape_sequence s = 0" "key \<noteq> 10" "key \<noteq> 0x1B"
  shows "succeeds (shell_handle_key build key s) (\<lambda>s'. editor_wf s' \<and> escape_sequence s' = 0 \<and>
     shell_history s' = shell_history s \<and> ins s' = ins s \<and> editor_line s' = edit_line key (editor_line s))"
proof -
  have k: "shell_handle_key build key s = (if key = 8 then erase_key s else type_key key s)"
    using assms(2-4) by (simp add: shell_handle_key_def plain_key_def)
  have e: "edited s s' \<Longrightarrow> editor_wf s' \<and> escape_sequence s' = 0" for s'
    using assms(2) by (auto simp: edited_def dest: escape_more)
  show ?thesis
    unfolding k
    using erase_key_ok [OF assms(1)] type_key_ok [OF assms(1), of key] e not_printable [of key]
    by (auto simp: edit_line_def elim!: succeeds_weaken)
qed

lemma edit_keys_ok:
  assumes "editor_wf s" "escape_sequence s = 0" "\<forall>k \<in> set keys. k \<noteq> 10 \<and> k \<noteq> 0x1B"
  shows "succeeds (foldR (shell_handle_key build) keys s) (\<lambda>s'. editor_wf s' \<and> escape_sequence s' = 0 \<and>
     shell_history s' = shell_history s \<and> editor_line s' = fold edit_line keys (editor_line s))"
  using assms
proof (induction keys arbitrary: s)
  case (Cons k keys)
  have "succeeds (shell_handle_key build k s) (\<lambda>s'. editor_wf s' \<and> escape_sequence s' = 0 \<and>
     shell_history s' = shell_history s \<and> editor_line s' = edit_line k (editor_line s))"
    using Cons.prems by (intro succeeds_weaken [OF edit_key_ok]) auto
  then obtain t where t: "shell_handle_key build k s = Inr t" "editor_wf t" "escape_sequence t = 0"
    "shell_history t = shell_history s" "editor_line t = edit_line k (editor_line s)"
    by (auto elim!: succeedsE)
  show ?case using Cons.IH [OF t(2,3)] Cons.prems(3) t by simp
qed simp

lemma fold_edit_line_printable:
  "list_all is_printable line \<Longrightarrow> list_all is_printable (fold edit_line keys line)"
proof (induction keys arbitrary: line)
  case (Cons k keys)
  have "list_all is_printable (edit_line k line)"
    using Cons.prems by (auto simp: edit_line_def list_all_iff dest: in_set_butlastD)
  then show ?case using Cons.IH by simp
qed simp

lemma strip_newlines_printable: "list_all is_printable line \<Longrightarrow> strip_newlines line = line"
  using not_printable
  by (cases line rule: rev_cases) (auto simp: strip_newlines_def)

section \<open>The command table\<close>

text \<open>The commands by name; \<open>cat\<close> and \<open>hexdump\<close> are only there with an argument.\<close>

definition command_table ::
  "string \<Rightarrow> u8 list list \<Rightarrow> (u8 list \<times> ('a machine_state_scheme \<Rightarrow> 'a machine_state_scheme res)) list" where
  "command_table build args =
     [(map of_char ''help'', cmd_help), (map of_char ''clear'', cmd_clear),
      (map of_char ''reboot'', cmd_reboot), (map of_char ''ls'', cmd_ls)]
     @ (if args \<noteq> [] then [(map of_char ''cat'', cmd_cat (hd args)), (map of_char ''hexdump'', cmd_hexdump (hd args))] else [])
     @ [(map of_char ''echo'', cmd_echo (if args \<noteq> [] then hd args else cstr '''')),
        (map of_char ''mem'', cmd_mem), (map of_char ''uptime'', cmd_uptime),
        (map of_char ''uname'', cmd_uname build), (map of_char ''date'', cmd_date),
        (map of_char ''top'', cmd_top)]"

lemma shell_dispatch_table:
  assumes "terminated arg0"
  shows "shell_dispatch build arg0 args s =
    (case map_of (command_table build args) (cstring arg0) of
       Some cmd \<Rightarrow> cmd s | None \<Rightarrow> unknown_command arg0 s)"
  unfolding shell_dispatch_def command_table_def
  by (simp add: branch_eq assms)

text \<open>A shell in its initial state on the example machine.\<close>

definition shell_example :: shell_state where
  "shell_example = \<lparr>ins = [], io_log = [], vga_buffer = replicate 2000 (blank_cell 0x0F),
     cursor_x = 0, cursor_y = 0, current_color = 0x0F, tick_count = 360000,
     multiboot2_memory_lower = 0xA0000, multiboot2_memory_upper = 0x7F00000, initrd = hello_fs,
     shell_history = hist_init, input_buf = replicate 256 0, cmd_pos = 0, escape_sequence = 0\<rparr>"

lemma shell_example_wf: "editor_wf shell_example" "escape_sequence shell_example = 0"
  by (simp_all add: shell_example_def editor_wf_def machine_wf_def vga_wf_def hello_fs_wf
      hello_fs_dir hist_init_wf editor_line_def)

section \<open>Properties\<close>

text \<open>
  C2. No sequence of keys makes the shell misbehave: starting from a well-formed state
  (every file smaller than 4 GB less 256 bytes, fewer than 3600000000 timer ticks) and
  for all keys in any order, every access to the line buffer, the argument vector, the
  history, the files and the screen stays in bounds and the invariant of all of them
  holds again; the only ways not to return are waiting for a device and the deliberate
  endless loop of \<open>reboot\<close>.
\<close>

theorem shell_keys_safe:
  assumes "editor_wf s"
  shows "safe (foldR (shell_handle_key build) keys s) editor_wf"
  using assms by (intro safe_foldR handle_key_safe)

theorem shell_keys_safe_witness:
  "safe (foldR (shell_handle_key ''now'') [0x6C, 0x73, 10, 0x1B, 0x5B, 0x41, 8] shell_example) editor_wf"
  by (rule shell_keys_safe [OF shell_example_wf(1)])

text \<open>
  The line editor implements editing of a string: keys other than Enter and Escape
  append a printable character while fewer than 255 are typed or delete the last
  character, exactly as \<open>edit_line\<close> says, and leave the history alone.
\<close>

theorem shell_edits_line:
  assumes "editor_wf s" "escape_sequence s = 0" "\<forall>k \<in> set keys. k \<noteq> 10 \<and> k \<noteq> 0x1B"
  shows "\<exists>s'. foldR (shell_handle_key build) keys s = Inr s' \<and> editor_wf s' \<and>
     shell_history s' = shell_history s \<and> editor_line s' = fold edit_line keys (editor_line s)"
  using edit_keys_ok [OF assms, of build] by (auto simp: succeeds_iff)

theorem shell_edits_line_witness:
  "\<exists>s'. foldR (shell_handle_key ''now'') [0x6C, 0x74, 8, 0x73] shell_example = Inr s' \<and> editor_wf s' \<and>
     shell_history s' = shell_history shell_example \<and>
     editor_line s' = fold edit_line [0x6C, 0x74, 8, 0x73] (editor_line shell_example)"
  by (rule shell_edits_line [OF shell_example_wf]) simp

text \<open>
  What is typed is what is executed and remembered: after typing on an empty line
  and pressing Enter, the line is empty again and the newest history entry is the typed
  line (nothing is added for an empty line), unless the command itself waits for a
  device or reboots.
\<close>

theorem shell_enter_records_line:
  assumes "editor_wf s" "escape_sequence s = 0" "editor_line s = []" "\<forall>k \<in> set keys. k \<noteq> 10 \<and> k \<noteq> 0x1B"
  shows "safe (bindR (foldR (shell_handle_key build) keys s) (shell_handle_key build 10))
     (\<lambda>s'. editor_wf s' \<and> editor_line s' = [] \<and> escape_sequence s' = 0 \<and>
        recorded (fold edit_line keys []) (shell_history s) (shell_history s'))"
proof -
  obtain t where t: "foldR (shell_handle_key build) keys s = Inr t" "editor_wf t" "escape_sequence t = 0"
    "shell_history t = shell_history s" "editor_line t = fold edit_line keys []"
    using edit_keys_ok [OF assms(1,2,4), of build] assms(3) by (auto elim!: succeedsE)
  have strip: "strip_newlines (editor_line t) = fold edit_line keys []"
    using fold_edit_line_printable [of "[]" keys] t(5) by (simp add: strip_newlines_printable)
  have "shell_handle_key build 10 t = bindR (submit_line build t) (\<lambda>s. Inr (s\<lparr>escape_sequence := 0\<rparr>))"
    using t(3) by (simp add: shell_handle_key_def plain_key_def)
  moreover have "safe (bindR (submit_line build t) (\<lambda>s. Inr (s\<lparr>escape_sequence := 0\<rparr>)))
     (\<lambda>s'. editor_wf s' \<and> editor_line s' = [] \<and> escape_sequence s' = 0 \<and>
        recorded (fold edit_line keys []) (shell_history s) (shell_history s'))"
    by (rule safe_bindR [OF submit_line_safe [OF t(2)]])
       (simp add: edited_def strip t(4), simp add: editor_line_def)
  ultimately show ?thesis using t(1) by simp
qed

theorem shell_enter_records_line_witness:
  "safe (bindR (foldR (shell_handle_key ''now'') [0x6C, 0x73] shell_example) (shell_handle_key ''now'' 10))
     (\<lambda>s'. editor_wf s' \<and> editor_line s' = [] \<and> escape_sequence s' = 0 \<and>
        recorded (fold edit_line [0x6C, 0x73] []) (shell_history shell_example) (shell_history s'))"
  by (rule shell_enter_records_line [OF shell_example_wf]) (simp_all add: editor_line_def shell_example_def)

text \<open>
  The Up key (Escape, left bracket, A) puts the previous history entry on the line:
  the typed line is replaced by the entry before the recall position, or kept when that
  entry does not exist or is empty; the history itself is unchanged.
\<close>

theorem shell_up_recalls:
  assumes "editor_wf s" "escape_sequence s = 0"
  shows "\<exists>s'. foldR (shell_handle_key build) [0x1B, 0x5B, 0x41] s = Inr s' \<and> editor_wf s' \<and> escape_sequence s' = 0 \<and>
     hist_entries (shell_history s') = hist_entries (shell_history s) \<and>
     (let e = hist_entries (shell_history s); k = hist_cursor (shell_history s) - 1 in
      editor_line s' = (if e = [] \<or> e ! k = [] then editor_line s else e ! k))"
proof -
  let ?s = "s\<lparr>escape_sequence := 0\<rparr>"
  have s: "?s = s" using assms(2) by simp
  have "foldR (shell_handle_key build) [0x1B, 0x5B, 0x41] s = recall_prev ?s"
    using assms(2) by (simp add: shell_handle_key_def plain_key_def)
  then show ?thesis
    using recall_prev_ok [OF assms(1)] assms(2) unfolding s
    by (auto simp: succeeds_iff edited_def Let_def dest: escape_more)
qed

theorem shell_up_recalls_witness:
  "\<exists>s'. foldR (shell_handle_key ''now'') [0x1B, 0x5B, 0x41] shell_example = Inr s' \<and> editor_wf s' \<and> escape_sequence s' = 0 \<and>
     hist_entries (shell_history s') = hist_entries (shell_history shell_example) \<and>
     (let e = hist_entries (shell_history shell_example); k = hist_cursor (shell_history shell_example) - 1 in
      editor_line s' = (if e = [] \<or> e ! k = [] then editor_line shell_example else e ! k))"
  by (rule shell_up_recalls [OF shell_example_wf])

text \<open>
  C6. Splitting a command line is correct: \<open>parse_command\<close> returns for every terminated
  buffer, finds as many arguments as the line has words but at most sixteen, and the
  arguments are the words in order; only when the vector is full may its last argument
  run on to the end of the line. Every argument is a terminated string in the buffer.
\<close>

theorem parse_command_correct:
  assumes "terminated buf"
  shows "\<exists>buf' argv. parse_command buf 0 False [] = Inr (buf', argv) \<and> length buf' = length buf \<and>
     length argv = min 16 (length (words (cstring buf))) \<and>
     (\<forall>p \<in> set argv. terminated (drop p buf')) \<and>
     (\<forall>j < length argv. length argv < 16 \<or> Suc j < length argv \<longrightarrow>
        cstring (drop (argv ! j) buf') = words (cstring buf) ! j)"
  using parse_command_scans [of 0 buf "[]" False] assms by (auto simp: scanned_def pending_def)

theorem parse_command_correct_witness:
  "\<exists>buf' argv. parse_command (cstr ''cat  bin'') 0 False [] = Inr (buf', argv) \<and> length buf' = length (cstr ''cat  bin'') \<and>
     length argv = min 16 (length (words (cstring (cstr ''cat  bin'')))) \<and>
     (\<forall>p \<in> set argv. terminated (drop p buf')) \<and>
     (\<forall>j < length argv. length argv < 16 \<or> Suc j < length argv \<longrightarrow>
        cstring (drop (argv ! j) buf') = words (cstring (cstr ''cat  bin'')) ! j)"
  by (rule parse_command_correct) simp

text \<open>
  C7. The chain of string comparisons is a lookup in the table of commands: for a
  terminated first argument the shell runs the command of that name, and reports an
  unknown command for every other name, also for \<open>cat\<close> and \<open>hexdump\<close> without argument.
\<close>

theorem shell_dispatch_is_lookup:
  assumes "terminated arg0"
  shows "shell_dispatch build arg0 args s =
    (case map_of (command_table build args) (cstring arg0) of
       Some cmd \<Rightarrow> cmd s | None \<Rightarrow> unknown_command arg0 s)"
  using assms by (rule shell_dispatch_table)

theorem shell_dispatch_is_lookup_witness:
  "shell_dispatch ''now'' (cstr ''cat'') [] machine_example =
    (case map_of (command_table ''now'' []) (cstring (cstr ''cat'')) of
       Some cmd \<Rightarrow> cmd machine_example | None \<Rightarrow> unknown_command (cstr ''cat'') machine_example)"
  by (rule shell_dispatch_is_lookup) simp

end
