(* ===== verification/Shell_Variants.thy ===== *)
theory Shell_Variants
  imports Shell
begin

text \<open>
  The two other line editors of the tree, which the build does not link:
  \<^verbatim>\<open>kernel/shell/shell_keyboard.c\<close> (the same key handler with one more variable, and the
  polling \<open>terminal_readline\<close>) and \<^verbatim>\<open>kernel/shell/shell.c\<close> (its own dispatch, and a key
  handler that recalls history with letter keys). They use the history, console and
  command interfaces of the main shell.
\<close>

section \<open>shell_keyboard.c\<close>

record kb_state = shell_state +
  kb_history_index :: int

definition kb_plain_key :: "string \<Rightarrow> u8 \<Rightarrow> 'a kb_state_scheme \<Rightarrow> 'a kb_state_scheme res" where
  "kb_plain_key build key s =
     (if key = 0x1B then Inr (s\<lparr>escape_sequence := 1\<rparr>)
      else if key = 10
      then bindR (submit_line build s) (\<lambda>s. Inr (s\<lparr>kb_history_index := 0, escape_sequence := 0\<rparr>))
      else if key = 8 then erase_key s
      else type_key key s)"

definition kb_handle_key :: "string \<Rightarrow> u8 \<Rightarrow> 'a kb_state_scheme \<Rightarrow> 'a kb_state_scheme res" where
  "kb_handle_key build key s =
     (if escape_sequence s = 1 \<and> key = of_char (CHR ''['') then Inr (s\<lparr>escape_sequence := 2\<rparr>)
      else
        let s = (if escape_sequence s = 1 then s\<lparr>escape_sequence := 0\<rparr> else s) in
        if escape_sequence s = 2
        then let s = s\<lparr>escape_sequence := 0\<rparr> in
             if key = of_char (CHR ''A'') then recall_prev s
             else if key = of_char (CHR ''B'') then recall_next s
             else Inr s
        else kb_plain_key build key s)"

text \<open>The scancode table; a code without a case leaves \<open>ascii\<close> zero.\<close>

definition scancode_table :: "(u8 \<times> u8) list" where
  "scancode_table =
     [(0x1C, 10), (0x0E, 8), (0x01, 0x1B)]
     @ zip [0x02, 0x03, 0x04, 0x05, 0x06, 0x07, 0x08, 0x09, 0x0A, 0x0B] (map of_char ''1234567890'')
     @ zip [0x10, 0x11, 0x12, 0x13, 0x14, 0x15, 0x16, 0x17, 0x18, 0x19] (map of_char ''qwertyuiop'')
     @ zip [0x1E, 0x1F, 0x20, 0x21, 0x22, 0x23, 0x24, 0x25, 0x26] (map of_char ''asdfghjkl'')
     @ zip [0x2C, 0x2D, 0x2E, 0x2F, 0x30, 0x31, 0x32] (map of_char ''zxcvbnm'')
     @ [(0x39, 0x20)]"

definition scancode_ascii :: "u8 \<Rightarrow> u8" where
  "scancode_ascii code = (case map_of scancode_table code of None \<Rightarrow> 0 | Some c \<Rightarrow> c)"

text \<open>\<open>for (int i = 0; i < pos; i++) vga_putchar('\b')\<close>\<close>

definition back_up :: "int \<Rightarrow> 'a vga_state_scheme \<Rightarrow> 'a vga_state_scheme res" where
  "back_up pos = forR 0 pos (\<lambda>i. vga_putchar 8)"

text \<open>\<open>strcpy(buf, p); pos = strlen(p); vga_writestring(buf)\<close> on the caller's buffer.\<close>

definition readline_load ::
  "u8 list \<Rightarrow> u8 list \<Rightarrow> 'a vga_state_scheme \<Rightarrow> (u8 list \<times> int \<times> 'a vga_state_scheme) res" where
  "readline_load p buf s =
     bindR (strcpy buf p) (\<lambda>buf.
     bindR (strlen p) (\<lambda>n.
     bindR (vga_writestring buf s) (\<lambda>s.
     Inr (buf, int n, s))))"

text \<open>The branch for the Escape key: two or three more bytes are read from the port.\<close>

definition readline_escape ::
  "u8 list \<Rightarrow> int \<Rightarrow> 'a editor_state_scheme \<Rightarrow> (u8 list \<times> int \<times> 'a editor_state_scheme) res" where
  "readline_escape buf pos s =
     bindR (inb 0x60 s) (\<lambda>(seq0, s).
     bindR (inb 0x60 s) (\<lambda>(seq1, s).
     if seq0 = 0x1C \<and> seq1 = 0x4D
     then
       bindR (inb 0x60 s) (\<lambda>(seq0, s).
       if seq0 = 0x48
       then bindR (history_prev (shell_history s)) (\<lambda>(prev, h).
            let s = s\<lparr>shell_history := h\<rparr> in
            bindR (buf_read prev 0) (\<lambda>c.
            if c \<noteq> 0 then bindR (back_up pos s) (readline_load prev buf) else Inr (buf, pos, s)))
       else if seq0 = 0x50
       then bindR (history_next (shell_history s)) (\<lambda>(nxt, h).
            bindR (back_up pos (s\<lparr>shell_history := h\<rparr>)) (\<lambda>s.
            bindR (buf_read nxt 0) (\<lambda>c.
            if c \<noteq> 0 then readline_load nxt buf s
            else bindR (buf_write buf 0 0) (\<lambda>buf. Inr (buf, 0, s)))))
       else Inr (buf, pos, s))
     else Inr (buf, pos, s)))"

text \<open>
  One round of the loop after the scancode has been read: \<open>Inl\<close> of the inner sum is the
  return of the function, \<open>Inr\<close> goes on.
\<close>

definition readline_key ::
  "int \<Rightarrow> u8 \<Rightarrow> u8 list \<Rightarrow> int \<Rightarrow> 'a editor_state_scheme \<Rightarrow>
   ((u8 list \<times> 'a editor_state_scheme) + (u8 list \<times> int \<times> 'a editor_state_scheme)) res" where
  "readline_key max_len ascii buf pos s =
     (if ascii = 10
      then bindR (buf_write buf pos 0) (\<lambda>buf. bindR (vga_putchar 10 s) (\<lambda>s. Inr (Inl (buf, s))))
      else if ascii = 8 \<and> pos > 0
      then bindR (vga_putchar 8 s) (\<lambda>s. Inr (Inr (buf, pos - 1, s)))
      else if sint ascii \<ge> 32 \<and> sint ascii \<le> 126 \<and> pos < max_len - 1
      then bindR (buf_write buf pos ascii) (\<lambda>buf.
           bindR (vga_putchar ascii s) (\<lambda>s. Inr (Inr (buf, pos + 1, s))))
      else if ascii = 0x1B
      then bindR (readline_escape buf pos s) (\<lambda>r. Inr (Inr r))
      else Inr (Inr (buf, pos, s)))"

text \<open>
  The endless loop. Every round consumes a byte of the port's answers, so their number
  plus one bounds the rounds.
\<close>

fun readline_loop ::
  "nat \<Rightarrow> int \<Rightarrow> u8 list \<Rightarrow> int \<Rightarrow> 'a editor_state_scheme \<Rightarrow> (u8 list \<times> 'a editor_state_scheme) res" where
  "readline_loop 0 max_len buf pos s = Inl No_Fuel"
| "readline_loop (Suc fuel) max_len buf pos s =
     bindR (inb 0x60 s) (\<lambda>(scancode, s).
     if scancode AND 0x80 \<noteq> 0 then readline_loop fuel max_len buf pos s
     else
       bindR (readline_key max_len (scancode_ascii scancode) buf pos s) (\<lambda>r.
       case r of Inl (buf, s) \<Rightarrow> Inr (buf, s)
               | Inr (buf, pos, s) \<Rightarrow> readline_loop fuel max_len buf pos s))"

definition terminal_readline ::
  "u8 list \<Rightarrow> int \<Rightarrow> 'a editor_state_scheme \<Rightarrow> (u8 list \<times> 'a editor_state_scheme) res" where
  "terminal_readline buf max_len s = readline_loop (Suc (length (ins s))) max_len buf 0 s"

section \<open>shell.c\<close>

record sh_state = editor_state +
  sh_history_index :: int

function sh_parse_command :: "u8 list \<Rightarrow> nat \<Rightarrow> bool \<Rightarrow> nat list \<Rightarrow> (u8 list \<times> nat list) res" where
  "sh_parse_command buf input in_word argv =
     bindR (buf_read buf (int input)) (\<lambda>c.
     if c = 0 \<or> MAX_ARGS \<le> length argv then Inr (buf, argv)
     else if c = of_char (CHR '' '') \<or> c = 9 \<or> c = of_char NL
     then bindR (buf_write buf (int input) 0) (\<lambda>buf. sh_parse_command buf (Suc input) False argv)
     else bindR (if in_word then Inr argv else push_buf MAX_ARGS argv input) (\<lambda>argv.
          sh_parse_command buf (Suc input) True argv))"
  by pat_completeness auto
termination
  by (relation "measure (\<lambda>(buf, input, in_word, argv). length buf - input)")
     (auto simp: buf_read_def buf_write_def split: if_splits)

declare sh_parse_command.simps [simp del]

fun sh_trim_loop :: "u8 list \<Rightarrow> nat \<Rightarrow> u8 list res" where
  "sh_trim_loop str len =
     (if 0 < len
      then bindR (buf_read str (int (len - 1))) (\<lambda>c.
           if c = of_char NL \<or> c = 13
           then bindR (buf_write str (int (len - 1)) 0) (\<lambda>str. sh_trim_loop str (len - 1))
           else Inr str)
      else Inr str)"

declare sh_trim_loop.simps [simp del]

definition sh_trim_newline :: "u8 list \<Rightarrow> u8 list res" where
  "sh_trim_newline str = bindR (strlen str) (sh_trim_loop str)"

definition sh_dispatch ::
  "string \<Rightarrow> u8 list \<Rightarrow> u8 list list \<Rightarrow> 'a machine_state_scheme \<Rightarrow> 'a machine_state_scheme res" where
  "sh_dispatch build arg0 args s =
     branch arg0 ''help'' True (cmd_help s) (
     branch arg0 ''clear'' True (cmd_clear s) (
     branch arg0 ''reboot'' True (cmd_reboot s) (
     branch arg0 ''ls'' True (cmd_ls s) (
     branch arg0 ''cat'' (args \<noteq> []) (cmd_cat (hd args) s) (
     branch arg0 ''echo'' True (if args \<noteq> [] then cmd_echo (hd args) s else cmd_echo (cstr '''') s) (
     branch arg0 ''mem'' True (cmd_mem s) (
     branch arg0 ''uptime'' True (cmd_uptime s) (
     branch arg0 ''uname'' True (cmd_uname build s) (
     branch arg0 ''hexdump'' (args \<noteq> []) (cmd_hexdump (hd args) s) (
     branch arg0 ''date'' True (cmd_date s) (
     branch arg0 ''top'' True (cmd_top s) (
     unknown_command arg0 s))))))))))))"

definition sh_process_command ::
  "string \<Rightarrow> u8 list \<Rightarrow> 'a editor_state_scheme \<Rightarrow> (u8 list \<times> 'a editor_state_scheme) res" where
  "sh_process_command build cmdline s =
     bindR (sh_trim_newline cmdline) (\<lambda>trimmed.
     bindR (buf_read trimmed 0) (\<lambda>c.
     if c = 0 then bindR (shell_prompt s) (\<lambda>s. Inr (trimmed, s))
     else
       bindR (history_add trimmed (shell_history s)) (\<lambda>h.
       let s = s\<lparr>shell_history := h\<rparr> in
       bindR (sh_parse_command trimmed 0 False []) (\<lambda>(buf, argv).
       if argv = [] then bindR (shell_prompt s) (\<lambda>s. Inr (buf, s))
       else
         bindR (sh_dispatch build (drop (hd argv) buf) (map (\<lambda>p. drop p buf) (tl argv)) s) (\<lambda>s.
         bindR (shell_prompt s) (\<lambda>s. Inr (buf, s)))))))"

definition sh_submit_line :: "string \<Rightarrow> 'a sh_state_scheme \<Rightarrow> 'a sh_state_scheme res" where
  "sh_submit_line build s =
     bindR (buf_write (input_buf s) (cmd_pos s) 0) (\<lambda>buf.
     bindR (vga_putchar 10 (s\<lparr>input_buf := buf\<rparr>)) (\<lambda>s.
     bindR (sh_process_command build (input_buf s) s) (\<lambda>(buf, s).
     Inr (s\<lparr>input_buf := buf, cmd_pos := 0, sh_history_index := 0\<rparr>))))"

definition sh_handle_key :: "string \<Rightarrow> u8 \<Rightarrow> 'a sh_state_scheme \<Rightarrow> 'a sh_state_scheme res" where
  "sh_handle_key build key s =
     (if key = 10 then sh_submit_line build s
      else if key = 8 then erase_key s
      else if key = 0x1B then Inr s
      else if key = of_char (CHR ''H'') \<or> key = of_char (CHR ''h'') then recall_prev s
      else if key = of_char (CHR ''P'') \<or> key = of_char (CHR ''p'') then recall_next s
      else type_key key s)"

definition sh_init :: "'a vga_state_scheme \<Rightarrow> 'a vga_state_scheme res" where
  "sh_init =
     seqR [Inr \<circ> vga_set_color 0x0F 0x00,
           vga_writestring (cstr ([NL] @ ''Larch OS Shell v1.0'' @ [NL])),
           vga_writestring (cstr (''Type '' @ [QU] @ ''help'' @ [QU] @ '' for available commands'' @ [NL, NL])),
           shell_prompt]"

section \<open>shell.c agrees with shell_main.c on lines\<close>

lemma sh_dispatch_eq: "sh_dispatch = shell_dispatch"
  by (intro ext) (simp add: sh_dispatch_def shell_dispatch_def)

lemma sh_parse_command_eq: "sh_parse_command buf i w argv = parse_command buf i w argv"
proof (induction buf i w argv rule: parse_command.induct)
  case (1 buf i w argv)
  show ?case
    unfolding sh_parse_command.simps [of buf i] parse_command.simps [of buf i] is_sep_def
    by (rule bindR_cong [OF refl])
      (use 1 [unfolded is_sep_def] in \<open>auto intro!: bindR_cong\<close>)
qed

lemma sh_trim_newline_eq: "sh_trim_newline = trim_newline"
proof -
  have "sh_trim_loop str len = trim_loop str len" for str len
    by (induction len arbitrary: str) (auto simp: sh_trim_loop.simps intro!: bindR_cong)
  then show ?thesis by (intro ext) (simp add: sh_trim_newline_def trim_newline_def cong: bindR_cong)
qed

lemma sh_process_command_eq: "sh_process_command = shell_process_command"
  unfolding sh_process_command_def shell_process_command_def sh_dispatch_eq sh_trim_newline_eq sh_parse_command_eq by (rule refl)

lemma sh_submit_line_eq:
  "sh_submit_line build s = bindR (submit_line build s) (\<lambda>s. Inr (s\<lparr>sh_history_index := 0\<rparr>))"
  by (simp add: sh_submit_line_def submit_line_def sh_process_command_eq run_simps split_def)

lemma editor_wf_sh_index [simp]: "editor_wf (s\<lparr>sh_history_index := e\<rparr>) = editor_wf s"
  by (simp add: editor_wf_def editor_line_def machine_wf_def vga_wf_def)

lemma sh_handle_key_safe:
  assumes "editor_wf s"
  shows "safe (sh_handle_key build key s) editor_wf"
proof -
  have "safe (sh_submit_line build s) editor_wf"
    unfolding sh_submit_line_eq by (rule safe_bindR [OF submit_line_safe [OF assms]]) (simp add: edited_def)
  moreover have "safe (erase_key s) editor_wf" "safe (type_key key s) editor_wf"
    "safe (recall_prev s) editor_wf" "safe (recall_next s) editor_wf"
    using erase_key_ok [OF assms] type_key_ok [OF assms, of key] recall_prev_ok [OF assms] recall_next_ok [OF assms]
    by (auto simp: edited_def intro!: succeeds_safe elim!: succeeds_weaken)
  ultimately show ?thesis using assms by (simp add: sh_handle_key_def)
qed

text \<open>The letters h and p never reach the line.\<close>

lemma sh_key_line:
  assumes "editor_wf s" "key \<in> {0x48, 0x68, 0x50, 0x70}" "hist_entries (shell_history s) = []"
  shows "succeeds (sh_handle_key build key s) (\<lambda>s'. editor_wf s' \<and>
     hist_entries (shell_history s') = [] \<and> editor_line s' \<in> {editor_line s, []})"
  using assms recall_prev_ok [OF assms(1)] recall_next_ok [OF assms(1)]
  by (auto simp: sh_handle_key_def edited_def Let_def elim!: succeeds_weaken)

section \<open>Polling for a line\<close>

text \<open>What a round of \<open>terminal_readline\<close> keeps, for a buffer of \<open>n\<close> bytes.\<close>

definition rl_inv :: "nat \<Rightarrow> u8 list \<Rightarrow> int \<Rightarrow> 'a editor_state_scheme \<Rightarrow> bool" where
  "rl_inv n buf pos s \<longleftrightarrow> vga_wf s \<and> hist_wf (shell_history s) \<and> length buf = n \<and> 256 \<le> n \<and>
     0 \<le> pos \<and> pos < int n"

lemma inb_safe:
  fixes s :: "'a editor_state_scheme"
  assumes "rl_inv n buf pos s"
  shows "safe (inb p s) (\<lambda>(v, s'). rl_inv n buf pos s' \<and> length (ins s') < length (ins s))"
  using assms by (cases "ins s") (simp_all add: inb_def rl_inv_def vga_wf_def)

lemma on_screen_rl:
  "on_screen s s' \<Longrightarrow> rl_inv n buf pos s \<Longrightarrow> rl_inv n buf pos s' \<and> ins s' = ins s"
  using kept_editor(1) [OF on_screen_kept, of s s'] by (simp add: rl_inv_def on_screen_def)

lemma putchar_rl:
  assumes "rl_inv n buf pos s"
  shows "safe (vga_putchar c s) (\<lambda>s'. rl_inv n buf pos s' \<and> ins s' = ins s)"
  using assms vga_putchar_on_screen [of s c]
  by (auto simp: rl_inv_def [of n buf pos s] dest!: on_screen_rl [OF _ assms] intro!: succeeds_safe elim!: succeeds_weaken)

lemma back_up_rl:
  assumes "rl_inv n buf pos s"
  shows "safe (back_up pos s) (\<lambda>s'. rl_inv n buf pos s' \<and> ins s' = ins s)"
proof -
  have v: "vga_wf s" "0 \<le> pos" using assms by (auto simp: rl_inv_def)
  have "succeeds (back_up pos s) (on_screen s)"
    unfolding back_up_def
  proof (rule succeeds_forR)
    fix i s' assume "on_screen s s'"
    then show "succeeds (vga_putchar 8 s') (on_screen s)"
      using on_screen_trans by (intro succeeds_weaken [OF vga_putchar_on_screen]) (auto simp: on_screen_def)
  qed (use v in \<open>simp_all add: on_screen_refl\<close>)
  then show ?thesis
    using on_screen_rl [OF _ assms] by (auto intro!: succeeds_safe elim!: succeeds_weaken)
qed

text \<open>The result of one round: the buffer and state go on satisfying the invariant.\<close>

definition rl_next :: "nat \<Rightarrow> nat \<Rightarrow> u8 list \<times> int \<times> 'a editor_state_scheme \<Rightarrow> bool" where
  "rl_next n k r = (case r of (buf, pos, s) \<Rightarrow> rl_inv n buf pos s \<and> length (ins s) \<le> k)"

lemma readline_load_safe:
  assumes "rl_inv n buf pos s" "terminated p" "length (cstring p) < 256"
  shows "safe (readline_load p buf s) (rl_next n (length (ins s)))"
proof -
  have n: "length buf = n" "256 \<le> n" "vga_wf s" using assms(1) by (auto simp: rl_inv_def)
  obtain b where b: "strcpy buf p = Inr b" "length b = length buf" "terminated b"
    using strcpy_ok [of p buf] assms(2,3) n by (auto elim!: succeedsE)
  have inv: "rl_inv n b (int (length (cstring p))) s"
    using assms n b by (auto simp: rl_inv_def)
  have "safe (bindR (vga_writestring b s) (\<lambda>s. Inr (b, int (length (cstring p)), s))) (rl_next n (length (ins s)))"
    by (rule safe_bindR [OF succeeds_safe [OF vga_writestring_on_screen [OF n(3) b(3)]]])
       (use on_screen_rl [OF _ inv] in \<open>auto simp: rl_next_def\<close>)
  then show ?thesis using b assms(2) by (simp add: readline_load_def strlen_terminated)
qed

lemma rl_inv_history: "rl_inv n buf pos s \<Longrightarrow> hist_wf h \<Longrightarrow> rl_inv n buf pos (s\<lparr>shell_history := h\<rparr>)"
  by (simp add: rl_inv_def vga_wf_def)

lemma rl_next_mono: "rl_next n k r \<Longrightarrow> k \<le> k' \<Longrightarrow> rl_next n k' r"
  by (auto simp: rl_next_def)

lemma readline_prev_safe:
  assumes "rl_inv n buf pos s"
  shows "safe (bindR (history_prev (shell_history s)) (\<lambda>(prev, h).
            let s = s\<lparr>shell_history := h\<rparr> in
            bindR (buf_read prev 0) (\<lambda>c.
            if c \<noteq> 0 then bindR (back_up pos s) (readline_load prev buf) else Inr (buf, pos, s))))
          (rl_next n (length (ins s)))"
proof -
  have "hist_wf (shell_history s)" using assms by (simp add: rl_inv_def)
  then obtain p h where ph: "history_prev (shell_history s) = Inr (p, h)" "hist_wf h" "terminated p" "length (cstring p) < 256"
    using hist.prev_ok by (metis (no_types, lifting) case_prodE succeedsE)
  obtain c where c: "buf_read p 0 = Inr c" using buf_read_first [OF ph(3)] by auto
  have inv: "rl_inv n buf pos (s\<lparr>shell_history := h\<rparr>)" using assms ph(2) by (rule rl_inv_history)
  have "safe (bindR (back_up pos (s\<lparr>shell_history := h\<rparr>)) (readline_load p buf)) (rl_next n (length (ins s)))"
    by (rule safe_bindR [OF back_up_rl [OF inv]]) (use readline_load_safe [OF _ ph(3,4)] in fastforce)
  then show ?thesis using ph(1) c inv by (simp add: rl_next_def Let_def)
qed

lemma readline_next_safe:
  assumes "rl_inv n buf pos s"
  shows "safe (bindR (history_next (shell_history s)) (\<lambda>(nxt, h).
            bindR (back_up pos (s\<lparr>shell_history := h\<rparr>)) (\<lambda>s.
            bindR (buf_read nxt 0) (\<lambda>c.
            if c \<noteq> 0 then readline_load nxt buf s
            else bindR (buf_write buf 0 0) (\<lambda>buf. Inr (buf, 0, s)))))) (rl_next n (length (ins s)))"
proof -
  have "hist_wf (shell_history s)" using assms by (simp add: rl_inv_def)
  then obtain p h where ph: "history_next (shell_history s) = Inr (p, h)" "hist_wf h" "terminated p" "length (cstring p) < 256"
    using hist.next_ok by (metis (no_types, lifting) case_prodE succeedsE)
  obtain c where c: "buf_read p 0 = Inr c" using buf_read_first [OF ph(3)] by auto
  have inv: "rl_inv n buf pos (s\<lparr>shell_history := h\<rparr>)" using assms ph(2) by (rule rl_inv_history)
  have "safe (bindR (back_up pos (s\<lparr>shell_history := h\<rparr>)) (\<lambda>s. if c \<noteq> 0 then readline_load p buf s
            else bindR (buf_write buf 0 0) (\<lambda>buf. Inr (buf, 0, s)))) (rl_next n (length (ins s)))"
  proof (rule safe_bindR [OF back_up_rl [OF inv]])
    fix t assume t: "rl_inv n buf pos t \<and> ins t = ins (s\<lparr>shell_history := h\<rparr>)"
    then have "buf_write buf 0 0 = Inr (buf[0 := 0])" "rl_inv n (buf[0 := 0]) 0 t"
      by (auto simp: rl_inv_def buf_simps)
    then show "safe (if c \<noteq> 0 then readline_load p buf t
            else bindR (buf_write buf 0 0) (\<lambda>buf. Inr (buf, 0, t))) (rl_next n (length (ins s)))"
      using readline_load_safe [OF _ ph(3,4), of n buf pos t] t by (simp add: rl_next_def)
  qed
  then show ?thesis using ph(1) c by simp
qed

lemma inb_step_safe:
  fixes s :: "'a editor_state_scheme"
  assumes "rl_inv n buf pos s" "length (ins s) \<le> k"
    and "\<And>v t. rl_inv n buf pos t \<Longrightarrow> length (ins t) \<le> k \<Longrightarrow> safe (f v t) Q"
  shows "safe (bindR (inb p s) (\<lambda>(v, t). f v t)) Q"
proof (rule safe_bind_pair)
  show "safe (inb p s) (\<lambda>(v, t). rl_inv n buf pos t \<and> length (ins t) \<le> k)"
    by (rule safe_weaken [OF inb_safe [OF assms(1)]]) (use assms(2) in auto)
qed (use assms(3) in auto)

lemma readline_escape_safe:
  assumes "rl_inv n buf pos s"
  shows "safe (readline_escape buf pos s) (rl_next n (length (ins s)))"
proof -
  let ?k = "length (ins s)"
  have stay: "safe (Inr (buf, pos, t)) (rl_next n ?k)" if "rl_inv n buf pos t" "length (ins t) \<le> ?k" for t
    using that by (simp add: rl_next_def)
  note prev = safe_weaken [OF readline_prev_safe, where Q = "rl_next n ?k", OF _ rl_next_mono]
  note nxt = safe_weaken [OF readline_next_safe, where Q = "rl_next n ?k", OF _ rl_next_mono]
  show ?thesis
    unfolding readline_escape_def
    by (rule inb_step_safe [OF assms order_refl], rule inb_step_safe, assumption+,
        split if_split, intro conjI impI, rule inb_step_safe, assumption+,
        split if_split, intro conjI impI, rule prev, assumption+,
        split if_split, intro conjI impI, rule nxt, assumption+,
        rule stay, assumption+, rule stay, assumption+)
qed

text \<open>After a round: the finished line, or the state of the next round.\<close>

definition rl_done :: "nat \<Rightarrow> u8 list \<times> 'a editor_state_scheme \<Rightarrow> bool" where
  "rl_done n r = (case r of (b, t) \<Rightarrow> length b = n \<and> terminated b \<and> vga_wf t \<and> hist_wf (shell_history t))"

definition rl_round ::
  "nat \<Rightarrow> nat \<Rightarrow> (u8 list \<times> 'a editor_state_scheme) + (u8 list \<times> int \<times> 'a editor_state_scheme) \<Rightarrow> bool" where
  "rl_round n k r = (case r of Inl d \<Rightarrow> rl_done n d | Inr r' \<Rightarrow> rl_next n k r')"

lemma readline_key_safe:
  assumes "rl_inv n buf pos s" "max_len \<le> int n"
  shows "safe (readline_key max_len ascii buf pos s) (rl_round n (length (ins s)))"
proof -
  have w: "buf_write buf pos v = Inr (buf[nat pos := v])" for v
    using assms(1) by (auto simp: rl_inv_def buf_simps)
  have "nat pos < length buf" using assms(1) by (auto simp: rl_inv_def)
  then have z: "terminated (buf[nat pos := 0])" by (auto simp: terminated_def set_update_memI)
  have inv: "rl_inv n (buf[nat pos := v]) pos s" for v using assms(1) by (simp add: rl_inv_def)
  have up: "rl_inv n (buf[nat pos := v]) (pos + 1) s" if "pos < max_len - 1" for v
    using that assms by (simp add: rl_inv_def)
  have down: "rl_inv n buf (pos - 1) s" if "pos > 0"
    using that assms by (simp add: rl_inv_def)
  have put: "safe (bindR (vga_putchar c s) (\<lambda>s. Inr (Inr (b, p, s)))) (rl_round n (length (ins s)))"
    if "rl_inv n b p s" for c b p
    by (rule safe_bindR [OF putchar_rl [OF that]]) (simp add: rl_round_def rl_next_def)
  have ret: "safe (bindR (vga_putchar 10 s) (\<lambda>s. Inr (Inl (buf[nat pos := 0], s)))) (rl_round n (length (ins s)))"
    by (rule safe_bindR [OF putchar_rl [OF inv]]) (use z in \<open>simp add: rl_round_def rl_done_def rl_inv_def\<close>)
  have esc: "safe (bindR (readline_escape buf pos s) (\<lambda>r. Inr (Inr r))) (rl_round n (length (ins s)))"
    by (rule safe_bindR [OF readline_escape_safe [OF assms(1)]]) (simp add: rl_round_def)
  have stay: "rl_round n (length (ins s)) (Inr (buf, pos, s))"
    using assms(1) by (simp add: rl_round_def rl_next_def)
  show ?thesis
    unfolding readline_key_def w bindR_Inr
    using ret put [OF down] put [OF up] esc stay by simp
qed

lemma readline_loop_safe:
  fixes s :: "'a editor_state_scheme"
  assumes "rl_inv n buf pos s" "max_len \<le> int n" "length (ins s) < fuel"
  shows "safe (readline_loop fuel max_len buf pos s) (rl_done n)"
  using assms
proof (induction fuel arbitrary: buf pos s)
  case (Suc fuel)
  show ?case
    unfolding readline_loop.simps
  proof (rule safe_bindR [OF inb_safe [OF Suc.prems(1)]], clarify)
    fix v and t :: "'a editor_state_scheme"
    assume t: "rl_inv n buf pos t" "length (ins t) < length (ins s)"
    have go: "safe (readline_loop fuel max_len b p u) (rl_done n)" if "rl_next n (length (ins t)) (b, p, u)"
      for b p and u :: "'a editor_state_scheme"
      using that t(2) Suc.prems(2,3) by (intro Suc.IH) (auto simp: rl_next_def)
    have "safe (bindR (readline_key max_len (scancode_ascii v) buf pos t) (\<lambda>r.
       case r of Inl (buf, s) \<Rightarrow> Inr (buf, s) | Inr (buf, pos, s) \<Rightarrow> readline_loop fuel max_len buf pos s)) (rl_done n)"
      by (rule safe_bindR [OF readline_key_safe [OF t(1) Suc.prems(2)]])
         (use go in \<open>auto simp: rl_round_def split: sum.splits\<close>)
    then show "safe (if v AND 0x80 \<noteq> 0 then readline_loop fuel max_len buf pos t
       else bindR (readline_key max_len (scancode_ascii v) buf pos t) (\<lambda>r.
         case r of Inl (buf, s) \<Rightarrow> Inr (buf, s) | Inr (buf, pos, s) \<Rightarrow> readline_loop fuel max_len buf pos s))
      (rl_done n)"
      using go [of buf pos t] t(1) by (simp add: rl_next_def)
  qed
qed simp

text \<open>Recalling an entry that does not fit the caller's buffer.\<close>

lemma readline_recall_overflow:
  assumes "vga_wf s" "hist_wf (shell_history s)" "ins s = [0x01, 0x1C, 0x4D, 0x48] @ rest"
    and "hist_entries (shell_history s) \<noteq> []"
    and "hist_entries (shell_history s) ! (hist_cursor (shell_history s) - 1) \<noteq> []"
    and "length buf \<le> length (hist_entries (shell_history s) ! (hist_cursor (shell_history s) - 1))"
  shows "terminal_readline buf max_len s = Inl Out_Of_Bounds"
proof -
  obtain p h where ph: "history_prev (shell_history s) = Inr (p, h)" "hist_wf h" "terminated p"
    "cstring p = hist_entries (shell_history s) ! (hist_cursor (shell_history s) - 1)"
    using hist.prev_ok [OF assms(2)] assms(4) by (auto elim!: succeedsE)
  obtain c where c: "buf_read p 0 = Inr c" "c \<noteq> 0" using buf_read_first [OF ph(3)] ph(4) assms(5) by auto
  have ov: "strcpy buf p = Inl Out_Of_Bounds" using strcpy_overflow [of buf p] ph(4) assms(6) by simp
  show ?thesis
    using assms(3) ph(1) c ov
    by (simp add: terminal_readline_def inb_def scancode_ascii_def scancode_table_def readline_key_def
        readline_escape_def back_up_def readline_load_def Let_def)
qed

section \<open>Letters that cannot be typed\<close>

definition recall_letters :: "u8 set" where
  "recall_letters = {0x48, 0x68, 0x50, 0x70}"

definition no_recall_letters :: "'a editor_state_scheme \<Rightarrow> bool" where
  "no_recall_letters s \<longleftrightarrow> editor_wf s \<and> set (editor_line s) \<inter> recall_letters = {} \<and>
     (\<forall>e \<in> set (hist_entries (shell_history s)). set e \<inter> recall_letters = {})"

lemma set_strip_newlines: "set (strip_newlines cs) \<subseteq> set cs"
  by (auto simp: strip_newlines_def dest: set_dropWhileD)

lemma recorded_entries:
  "recorded line h h' \<Longrightarrow> set (hist_entries h') \<subseteq> insert line (set (hist_entries h))"
  by (auto simp: recorded_def last_n_def dest: in_set_dropD split: if_splits)

lemma hist_nth_clean:
  assumes "hist_wf h" "\<forall>e \<in> set (hist_entries h). set e \<inter> L = {}" "hist_entries h \<noteq> []"
  shows "set (hist_entries h ! (hist_cursor h - 1)) \<inter> L = {}"
proof -
  have "hist_cursor h - 1 < length (hist_entries h)"
    using assms(1,3) hist_length [OF assms(1)] hist_empty_iff [OF assms(1)] by (auto simp: hist_wf_def hist_cursor_def)
  then show ?thesis using assms(2) nth_mem by blast
qed

lemma sh_handle_key_letters:
  assumes "no_recall_letters s"
  shows "safe (sh_handle_key build key s) no_recall_letters"
proof -
  have wf: "editor_wf s" "hist_wf (shell_history s)"
    and line: "set (editor_line s) \<inter> recall_letters = {}"
    and ents: "\<forall>e \<in> set (hist_entries (shell_history s)). set e \<inter> recall_letters = {}"
    using assms by (auto simp: no_recall_letters_def editor_wf_def)
  have submit: "safe (sh_submit_line build s) no_recall_letters"
    unfolding sh_submit_line_eq
  proof (rule safe_bindR [OF submit_line_safe [OF wf(1)]])
    fix t assume t: "edited s t \<and> cmd_pos t = 0 \<and>
       recorded (strip_newlines (editor_line s)) (shell_history s) (shell_history t)"
    then have "set e \<inter> recall_letters = {}" if "e \<in> set (hist_entries (shell_history t))" for e
      using that recorded_entries [of "strip_newlines (editor_line s)"] ents line set_strip_newlines [of "editor_line s"]
      by blast
    then show "safe (Inr (t\<lparr>sh_history_index := 0\<rparr>)) no_recall_letters"
      using t by (simp add: no_recall_letters_def edited_def) (simp add: editor_line_def)
  qed
  have "set (butlast (editor_line s)) \<inter> recall_letters = {}"
    using line by (blast dest: in_set_butlastD)
  then have erase: "safe (erase_key s) no_recall_letters"
    using erase_key_ok [OF wf(1)] ents
    by (auto simp: no_recall_letters_def edited_def intro!: succeeds_safe elim!: succeeds_weaken)
  have typed: "safe (type_key key s) no_recall_letters" if "key \<notin> recall_letters"
    using type_key_ok [OF wf(1), of key] line ents that
    by (auto simp: no_recall_letters_def edited_def intro!: succeeds_safe elim!: succeeds_weaken split: if_splits)
  have up: "safe (recall_prev s) no_recall_letters"
    using recall_prev_ok [OF wf(1)] line ents hist_nth_clean [OF wf(2) ents]
    by (auto simp: no_recall_letters_def edited_def Let_def intro!: succeeds_safe elim!: succeeds_weaken split: if_splits)
  have down: "safe (recall_next s) no_recall_letters"
    using recall_next_ok [OF wf(1)] ents
    by (auto simp: no_recall_letters_def edited_def Let_def intro!: succeeds_safe elim!: succeeds_weaken split: if_splits)
  show ?thesis
    using submit erase typed up down assms by (auto simp: sh_handle_key_def recall_letters_def)
qed

lemma sh_keys_letters:
  "no_recall_letters s \<Longrightarrow> safe (foldR (sh_handle_key build) keys s) no_recall_letters"
  by (intro safe_foldR sh_handle_key_letters)

definition sh_example :: sh_state where
  "sh_example = \<lparr>ins = [], io_log = [], vga_buffer = replicate 2000 (blank_cell 0x0F),
     cursor_x = 0, cursor_y = 0, current_color = 0x0F, tick_count = 0,
     multiboot2_memory_lower = 0xA0000, multiboot2_memory_upper = 0x7F00000, initrd = hello_fs,
     shell_history = hist_init, input_buf = replicate 256 0, cmd_pos = 0, sh_history_index = 0\<rparr>"

lemma hist_init_entries: "hist_entries hist_init = []"
  by (simp add: hist_entries_def hist_init_def)

text \<open>A history with the single entry \<open>ls\<close>.\<close>

definition hist_one :: hist_state where
  "hist_one = \<lparr>history = (cstr ''ls'' @ replicate 253 0) # replicate 19 (replicate 256 0),
     history_count = 1, history_position = 0, current_history_index = 1\<rparr>"

lemma hist_one_wf:
  "hist_wf hist_one" "hist_entries hist_one = [map of_char ''ls'']" "hist_cursor hist_one = 1"
  by (simp_all add: hist_wf_def rows_ok_def hist_one_def hist_entries_def hist_cursor_def cstr_def terminated_def)

lemma sh_example_wf: "no_recall_letters sh_example"
  by (simp add: sh_example_def no_recall_letters_def editor_wf_def machine_wf_def vga_wf_def hello_fs_wf
      hello_fs_dir hist_init_wf editor_line_def hist_init_entries)

section \<open>Properties\<close>

text \<open>
  C29. \<open>terminal_readline\<close> is safe for a caller with a buffer of at least 256 bytes that announces no more than its size: whatever the
  keyboard sends, it never leaves the buffer, the history or the screen and either waits
  for more scancodes or returns a terminated line in the buffer.
\<close>

theorem terminal_readline_safe:
  assumes "vga_wf s" "hist_wf (shell_history s)" "256 \<le> length buf" "max_len \<le> int (length buf)"
  shows "safe (terminal_readline buf max_len s)
     (\<lambda>(b, t). length b = length buf \<and> terminated b \<and> vga_wf t \<and> hist_wf (shell_history t))"
proof -
  have "rl_inv (length buf) buf 0 s" using assms by (auto simp: rl_inv_def)
  from readline_loop_safe [OF this assms(4), of "Suc (length (ins s))"]
  show ?thesis by (simp add: terminal_readline_def rl_done_def [abs_def])
qed

theorem terminal_readline_safe_witness:
  "safe (terminal_readline (replicate 256 0) 256 (sh_example\<lparr>ins := [0x26, 0x1F, 0x1C]\<rparr>))
     (\<lambda>(b, t). length b = length (replicate 256 (0 :: u8)) \<and> terminated b \<and> vga_wf t \<and> hist_wf (shell_history t))"
  by (rule terminal_readline_safe) (simp_all add: sh_example_def vga_wf_def hist_init_wf)

text \<open>
  \<open>terminal_readline\<close> ignores its length limit when it recalls history: with a buffer
  no longer than the recalled command the Up sequence writes behind the buffer, whatever
  \<open>max_len\<close> says.
\<close>

theorem terminal_readline_recall_overflows:
  assumes "vga_wf s" "hist_wf (shell_history s)" "ins s = [0x01, 0x1C, 0x4D, 0x48] @ rest"
    and "hist_entries (shell_history s) \<noteq> []"
    and "hist_entries (shell_history s) ! (hist_cursor (shell_history s) - 1) \<noteq> []"
    and "length buf \<le> length (hist_entries (shell_history s) ! (hist_cursor (shell_history s) - 1))"
  shows "terminal_readline buf max_len s = Inl Out_Of_Bounds"
  using assms by (rule readline_recall_overflow)

theorem terminal_readline_recall_overflows_witness:
  "terminal_readline [0, 0] 2 (sh_example\<lparr>shell_history := hist_one, ins := [0x01, 0x1C, 0x4D, 0x48]\<rparr>) = Inl Out_Of_Bounds"
  by (rule terminal_readline_recall_overflows [where rest = "[]"])
     (simp_all add: hist_one_wf, simp_all add: sh_example_def vga_wf_def)

text \<open>
  With the key handler of \<open>shell.c\<close> no line can ever contain the letters h and p:
  they are taken for history keys. After any sequence of keys from a state whose line and
  history are free of them, the line is free of them, so commands such as \<open>help\<close>,
  \<open>echo\<close>, \<open>hexdump\<close>, \<open>uptime\<close> and \<open>top\<close> cannot be entered.
\<close>

theorem shell_c_cannot_type_help:
  assumes "no_recall_letters s"
  shows "safe (foldR (sh_handle_key build) keys s)
     (\<lambda>s'. editor_line s' \<noteq> map of_char ''help'' \<and> editor_line s' \<noteq> map of_char ''top'' \<and>
           set (editor_line s') \<inter> recall_letters = {})"
proof (rule safe_weaken [OF sh_keys_letters [OF assms]])
  fix s' :: "'a sh_state_scheme" assume "no_recall_letters s'"
  then have "set (editor_line s') \<inter> recall_letters = {}" by (simp add: no_recall_letters_def)
  then show "editor_line s' \<noteq> map of_char ''help'' \<and> editor_line s' \<noteq> map of_char ''top'' \<and>
           set (editor_line s') \<inter> recall_letters = {}"
    by (auto simp: recall_letters_def)
qed

theorem shell_c_cannot_type_help_witness:
  "safe (foldR (sh_handle_key ''now'') (map of_char ''help'') sh_example)
     (\<lambda>s'. editor_line s' \<noteq> map of_char ''help'' \<and> editor_line s' \<noteq> map of_char ''top'' \<and>
           set (editor_line s') \<inter> recall_letters = {})"
  by (rule shell_c_cannot_type_help [OF sh_example_wf])

text \<open>
  The two command interpreters agree: \<open>shell_process_command\<close> of \<open>shell.c\<close> and of
  \<open>shell_main.c\<close> have the same effect on every line and state.
\<close>

theorem shell_c_same_interpreter: "sh_process_command = shell_process_command"
  by (rule sh_process_command_eq)

end
