(* ===== verification/Timer.thy ===== *)
theory Timer
  imports Commands
begin

text \<open>
  The timer: \<^verbatim>\<open>kernel/drivers/pit.c\<close>, its variant \<^verbatim>\<open>kernel/drivers/plit.c\<close> that also blinks
  the cursor, the blinking of \<^verbatim>\<open>kernel/drivers/vga_cursor.c\<close>, and the sleep loop of
  \<^verbatim>\<open>kernel/syscall/syscall_implementations.c\<close>. The scheduler the handlers call is the
  parameter \<open>schedule\<close>.
\<close>

section \<open>pit.c\<close>

abbreviation PIT_FREQUENCY :: u32 where "PIT_FREQUENCY \<equiv> 1193182"
abbreviation TARGET_HZ :: u32 where "TARGET_HZ \<equiv> 100"

definition pit_init :: "'a io_state_scheme \<Rightarrow> 'a io_state_scheme" where
  "pit_init s =
     (let divisor = PIT_FREQUENCY div TARGET_HZ in
      privileged Sti
        (outb 0x40 (ucast (drop_bit 8 divisor AND 0xFF))
        (outb 0x40 (ucast (divisor AND 0xFF))
        (outb 0x43 0x36
        (privileged Cli s)))))"

definition pit_get_tick :: "'a machine_state_scheme \<Rightarrow> u32" where
  "pit_get_tick s = tick_count s"

definition pit_handler ::
  "('a machine_state_scheme \<Rightarrow> 'a machine_state_scheme) \<Rightarrow> 'a machine_state_scheme \<Rightarrow> 'a machine_state_scheme" where
  "pit_handler schedule s = schedule (s\<lparr>tick_count := tick_count s + 1\<rparr>)"

section \<open>vga_cursor.c\<close>

record blink_state = machine_state +
  cursor_visible :: bool
  blink_counter :: int
  blink_rate :: int

definition get_cursor_position :: "'a io_state_scheme \<Rightarrow> (u16 \<times> 'a io_state_scheme) res" where
  "get_cursor_position s =
     bindR (inb 0x3D5 (outb 0x3D4 0x0F s)) (\<lambda>(low, s).
     bindR (inb 0x3D5 (outb 0x3D4 0x0E s)) (\<lambda>(high, s).
     Inr (push_bit 8 (ucast high) OR ucast low, s)))"

definition set_cursor_position :: "u16 \<Rightarrow> 'a io_state_scheme \<Rightarrow> 'a io_state_scheme" where
  "set_cursor_position pos s =
     outb 0x3D5 (ucast (drop_bit 8 pos AND 0xFF)) (outb 0x3D4 0x0E
       (outb 0x3D5 (ucast (pos AND 0xFF)) (outb 0x3D4 0x0F s)))"

definition hide_cursor :: "'a io_state_scheme \<Rightarrow> 'a io_state_scheme" where
  "hide_cursor s = outb 0x3D5 0x20 (outb 0x3D4 0x0A s)"

definition show_cursor :: "'a io_state_scheme \<Rightarrow> 'a io_state_scheme" where
  "show_cursor s = outb 0x3D5 0x0E (outb 0x3D4 0x0A s)"

definition update_cursor_blink :: "'a blink_state_scheme \<Rightarrow> 'a blink_state_scheme res" where
  "update_cursor_blink s =
     (let s = s\<lparr>blink_counter := blink_counter s + 1\<rparr> in
      if blink_counter s \<ge> blink_rate s
      then let s = s\<lparr>blink_counter := 0, cursor_visible := \<not> cursor_visible s\<rparr> in
           if cursor_visible s
           then bindR (get_cursor_position (show_cursor s)) (\<lambda>(pos, s).
                Inr (set_cursor_position pos s))
           else Inr (hide_cursor s)
      else Inr s)"

definition init_cursor_blink :: "'a blink_state_scheme \<Rightarrow> 'a blink_state_scheme" where
  "init_cursor_blink s = s\<lparr>cursor_visible := True, blink_counter := 0, blink_rate := 10\<rparr>"

section \<open>plit.c\<close>

definition plit_init :: "'a io_state_scheme \<Rightarrow> 'a io_state_scheme" where
  "plit_init s =
     (let divisor = PIT_FREQUENCY div TARGET_HZ in
      privileged Sti
        (outb 0x40 (ucast (drop_bit 8 divisor AND 0xFF))
        (outb 0x40 (ucast (divisor AND 0xFF))
        (outb 0x43 0x36
        (privileged Cli s)))))"

definition plit_get_tick :: "'a machine_state_scheme \<Rightarrow> u32" where
  "plit_get_tick s = tick_count s"

definition plit_handler ::
  "('a blink_state_scheme \<Rightarrow> 'a blink_state_scheme) \<Rightarrow> 'a blink_state_scheme \<Rightarrow> 'a blink_state_scheme res" where
  "plit_handler schedule s =
     bindR (update_cursor_blink (s\<lparr>tick_count := tick_count s + 1\<rparr>)) (\<lambda>s. Inr (schedule s))"

section \<open>Sleeping\<close>

text \<open>
  \<open>sys_sleep\<close> polls the tick counter, which only the timer interrupt changes: the values
  the polls return are the environment's choice, in the order of the calls.
\<close>

fun sleep_loop :: "('s \<Rightarrow> 's) \<Rightarrow> u32 \<Rightarrow> u32 \<Rightarrow> u32 list \<Rightarrow> 's \<Rightarrow> 's res" where
  "sleep_loop schedule start ticks [] s = Inl Blocked"
| "sleep_loop schedule start ticks (now # later) s =
     (if now - start < ticks then sleep_loop schedule start ticks later (schedule s) else Inr s)"

definition sys_sleep :: "('s \<Rightarrow> 's) \<Rightarrow> u32 \<Rightarrow> u32 list \<Rightarrow> 's \<Rightarrow> 's res" where
  "sys_sleep schedule ticks polls s =
     (case polls of
        [] \<Rightarrow> Inl Blocked
      | start # polls \<Rightarrow> sleep_loop schedule start ticks polls s)"

section \<open>Counting ticks\<close>

lemma pit_handler_ticks:
  assumes "\<And>s. tick_count (schedule s) = tick_count s"
  shows "tick_count ((pit_handler schedule ^^ n) s) = tick_count s + of_nat n"
proof (induction n)
  case (Suc n)
  then show ?case using assms by (simp add: pit_handler_def add_ac)
qed simp

section \<open>Blinking\<close>

text \<open>One step of the blink, split by whether the period ends.\<close>

lemma blink_counts:
  "blink_counter s + 1 < blink_rate s \<Longrightarrow>
   update_cursor_blink s = Inr (s\<lparr>blink_counter := blink_counter s + 1\<rparr>)"
  by (simp add: update_cursor_blink_def Let_def)

lemma blink_hides:
  "blink_counter s + 1 = blink_rate s \<Longrightarrow> cursor_visible s \<Longrightarrow>
   update_cursor_blink s = Inr (hide_cursor (s\<lparr>blink_counter := 0, cursor_visible := False\<rparr>))"
  by (simp add: update_cursor_blink_def Let_def)

text \<open>The position that is written back when the cursor reappears is the position read.\<close>

lemma cursor_bytes:
  fixes low high :: u8
  shows "ucast ((push_bit 8 (ucast high) OR ucast low :: u16) AND 0xFF) = low"
    "ucast (drop_bit 8 (push_bit 8 (ucast high) OR ucast low :: u16) AND 0xFF) = high"
proof -
  have "\<not> bit low (8 + n)" for n using bit_imp_le_length [of low "8 + n"] by auto
  then show "ucast ((push_bit 8 (ucast high) OR ucast low :: u16) AND 0xFF) = low"
    "ucast (drop_bit 8 (push_bit 8 (ucast high) OR ucast low :: u16) AND 0xFF) = high"
    by (auto intro!: bit_word_eqI simp: and_mask_simps bit_simps bit_unsigned_iff)
qed

lemma blink_shows:
  assumes "blink_counter s + 1 = blink_rate s" "\<not> cursor_visible s" "ins s = low # high # rest"
  shows "update_cursor_blink s = Inr (s\<lparr>blink_counter := 0, cursor_visible := True, ins := rest,
      io_log := io_log s @ [Out 0x3D4 0x0A, Out 0x3D5 0x0E,
        Out 0x3D4 0x0F, In 0x3D5 low, Out 0x3D4 0x0E, In 0x3D5 high,
        Out 0x3D4 0x0F, Out 0x3D5 low, Out 0x3D4 0x0E, Out 0x3D5 high]\<rparr>)"
  using assms cursor_bytes [of high low]
  by (simp add: update_cursor_blink_def Let_def get_cursor_position_def set_cursor_position_def
      show_cursor_def inb_def outb_def)

text \<open>
  After \<open>n\<close> timer ticks the counter is \<open>n mod 10\<close> and the cursor has changed its visibility
  \<open>n div 10\<close> times; the device has been asked for two bytes in every second period.
\<close>

definition blinked :: "nat \<Rightarrow> 'a blink_state_scheme \<Rightarrow> 'a blink_state_scheme \<Rightarrow> bool" where
  "blinked n s t \<longleftrightarrow> blink_rate t = 10 \<and> blink_counter t = int (n mod 10) \<and>
     cursor_visible t = even (n div 10) \<and> ins t = drop (2 * (n div 20)) (ins s)"


lemma blink_step:
  assumes "blinked n s t" "2 * (Suc n div 20) \<le> length (ins s)"
  shows "succeeds (update_cursor_blink t) (blinked (Suc n) s)"
proof (cases "Suc n mod 10 = 0")
  case False
  then have m: "Suc n mod 10 = Suc (n mod 10)" "Suc n div 10 = n div 10" "n mod 10 \<noteq> 9"
    by (auto simp: mod_Suc div_Suc)
  have "Suc n mod 20 \<noteq> 0"
    using False mod_mod_cancel [of 10 20 "Suc n"] by auto
  then have "Suc n div 20 = n div 20" by (simp add: div_Suc)
  moreover have "n mod 10 < 9" using m(3) mod_less_divisor [of 10 n] by linarith
  ultimately show ?thesis
    using assms(1) m by (simp add: blinked_def blink_counts)
next
  case True
  then have m: "n mod 10 = 9" "Suc n div 10 = Suc (n div 10)" by (auto simp: mod_Suc div_Suc split: if_splits)
  obtain q where q: "Suc n = 10 * q" using True by (metis mod_0_imp_dvd dvdE)
  then have "q = Suc (n div 10)" using m(2) by simp
  moreover have "Suc n mod 20 = 10 * (q mod 2)" using mult_mod_right [of 10 q 2] q by simp
  ultimately have m20: "Suc n mod 20 = 10 * (Suc (n div 10) mod 2)" by (simp only:)
  show ?thesis
  proof (cases "even (n div 10)")
    case vis: True
    then have "Suc n mod 20 \<noteq> 0" unfolding m20 by (simp add: mod_Suc even_iff_mod_2_eq_zero)
    then have "Suc n div 20 = n div 20" by (simp add: div_Suc)
    then show ?thesis
      using assms(1) m True vis by (simp add: blinked_def blink_hides hide_cursor_def outb_def)
  next
    case hid: False
    then have "Suc n mod 20 = 0" unfolding m20 by (simp add: mod_Suc odd_iff_mod_2_eq_one)
    then have d: "Suc n div 20 = Suc (n div 20)" by (simp add: div_Suc)
    have "2 \<le> length (drop (2 * (n div 20)) (ins s))" using assms(2) d by simp
    then obtain low high rest where i: "drop (2 * (n div 20)) (ins s) = low # high # rest"
      by (metis (no_types) Suc_le_length_iff numeral_2_eq_2)
    then have "rest = drop (2 * (Suc n div 20)) (ins s)"
      using d by (metis drop_drop drop_Suc_Cons drop_0 add_2_eq_Suc mult_Suc_right numeral_2_eq_2 add.commute)
    then show ?thesis
      using assms(1) m True hid i by (simp add: blinked_def blink_shows)
  qed
qed

lemma blink_run:
  assumes "2 * (n div 20) \<le> length (ins s)"
  shows "succeeds (foldR (\<lambda>_. update_cursor_blink) [0..<n] (init_cursor_blink s)) (blinked n s)"
  using assms
proof (induction n)
  case 0
  then show ?case by (simp add: blinked_def init_cursor_blink_def)
next
  case (Suc n)
  have "2 * (n div 20) \<le> length (ins s)"
    using Suc.prems div_le_mono [of n "Suc n" 20] by linarith
  then show ?case
    using Suc.IH blink_step [OF _ Suc.prems] by (auto simp: foldR_append intro!: succeeds_bindR)
qed

lemma sleep_loop_waits:
  assumes "\<forall>d \<in> set ds. d < unat ticks" "unat ticks \<le> D" "D < 2 ^ 32"
  shows "sleep_loop schedule start ticks (map (\<lambda>d. start + of_nat d) ds @ (start + of_nat D) # rest) s =
         Inr ((schedule ^^ length ds) s)"
  using assms(1)
proof (induction ds arbitrary: s)
  case Nil
  have "\<not> (of_nat D :: u32) < ticks" using assms(2,3) by (simp add: word_less_nat_alt)
  then show ?case by simp
next
  case (Cons d ds)
  have "d < 2 ^ 32" using Cons.prems unat_u32_less [of ticks] by simp
  then have "(of_nat d :: u32) < ticks" using Cons.prems by (simp add: word_less_nat_alt)
  then show ?case using Cons by (simp add: funpow_swap1)
qed

definition blink_example :: blink_state where
  "blink_example = \<lparr>ins = [0x34, 0x12], io_log = [], vga_buffer = replicate 2000 (blank_cell 0x0F),
     cursor_x = 0, cursor_y = 0, current_color = 0x0F, tick_count = 0,
     multiboot2_memory_lower = 0, multiboot2_memory_upper = 0, initrd = fs_init,
     cursor_visible = False, blink_counter = 0, blink_rate = 0\<rparr>"

section \<open>Properties\<close>

text \<open>
  The cursor blinks with a period of twenty ticks: \<open>n\<close> ticks after
  \<open>init_cursor_blink\<close> the cursor is visible exactly when \<open>n div 10\<close> is even, the counter is
  \<open>n mod 10\<close>, and the cursor position has been read back once per period.
\<close>

theorem cursor_blink_period:
  assumes "2 * (n div 20) \<le> length (ins s)"
  shows "\<exists>t. foldR (\<lambda>_. update_cursor_blink) [0..<n] (init_cursor_blink s) = Inr t \<and>
     cursor_visible t = even (n div 10) \<and> blink_counter t = int (n mod 10) \<and>
     ins t = drop (2 * (n div 20)) (ins s)"
  using blink_run [OF assms] by (auto simp: succeeds_iff blinked_def)

theorem cursor_blink_period_witness:
  "\<exists>t. foldR (\<lambda>_. update_cursor_blink) [0..<25] (init_cursor_blink blink_example) = Inr t \<and>
     cursor_visible t = even ((25::nat) div 10) \<and> blink_counter t = int (25 mod 10) \<and>
     ins t = drop (2 * (25 div 20)) (ins blink_example)"
  by (rule cursor_blink_period) (simp add: blink_example_def)

text \<open>
  \<open>sys_sleep\<close> sleeps for the right time, also across the wrap-around of the tick
  counter: it calls the scheduler once per poll that shows fewer than \<open>ticks\<close> elapsed ticks
  and returns at the first poll that shows at least \<open>ticks\<close>.
\<close>

theorem sys_sleep_correct:
  assumes "\<forall>d \<in> set ds. d < unat ticks" "unat ticks \<le> D" "D < 2 ^ 32"
  shows "sys_sleep schedule ticks (start # map (\<lambda>d. start + of_nat d) ds @ (start + of_nat D) # rest) s =
         Inr ((schedule ^^ length ds) s)"
  using sleep_loop_waits [OF assms] by (simp add: sys_sleep_def)

theorem sys_sleep_correct_witness:
  "sys_sleep Suc 5 (0xFFFFFFFE # map (\<lambda>d. 0xFFFFFFFE + of_nat d) [0, 1, 3] @ (0xFFFFFFFE + of_nat 6) # []) 0 =
     Inr ((Suc ^^ length [0::nat, 1, 3]) 0)"
  by (rule sys_sleep_correct) simp_all

text \<open>
  The timer is programmed for one hundred ticks per second and every interrupt
  counts: \<open>pit_init\<close> writes mode 0x36 and then the low and high byte of the 16-bit
  divisor \<open>1193182 div 100\<close>, with interrupts disabled around it; \<open>n\<close> interrupts advance
  the counter by \<open>n\<close> modulo \<open>2 ^ 32\<close>.
\<close>

theorem pit_counts_interrupts:
  assumes "\<And>s. tick_count (schedule s) = tick_count s"
  shows "(\<exists>lo hi. io_log (pit_init s) = io_log s @ [Cli, Out 0x43 0x36, Out 0x40 lo, Out 0x40 hi, Sti] \<and>
            unat lo + 256 * unat hi = 1193182 div 100) \<and>
         unat (pit_get_tick ((pit_handler schedule ^^ n) s)) = (unat (pit_get_tick s) + n) mod 2 ^ 32"
proof -
  have "unat (tick_count s + of_nat n) = (unat (tick_count s) + n) mod 2 ^ 32"
    by (simp add: unat_word_ariths unat_of_nat mod_add_right_eq)
  then show ?thesis
    using pit_handler_ticks [OF assms] by (simp add: pit_init_def Let_def pit_get_tick_def)
qed

theorem pit_counts_interrupts_witness:
  "(\<exists>lo hi. io_log (pit_init machine_example) = io_log machine_example @ [Cli, Out 0x43 0x36, Out 0x40 lo, Out 0x40 hi, Sti] \<and>
       unat lo + 256 * unat hi = 1193182 div 100) \<and>
   unat (pit_get_tick ((pit_handler id ^^ 7) machine_example)) = (unat (pit_get_tick machine_example) + 7) mod 2 ^ 32"
  by (rule pit_counts_interrupts) simp

end
