(* ===== verification/Process.thy ===== *)
theory Process
  imports Larch_Prelude
begin

text \<open>
  Processes and system calls: \<^verbatim>\<open>kernel/sched/process.c\<close>,
  \<^verbatim>\<open>kernel/syscall/syscall_handler.c\<close> and \<^verbatim>\<open>kernel/syscall/syscall_implementations.c\<close>
  (its sleep loop is in \<open>Timer\<close>), and the user side wrapper of \<^verbatim>\<open>usr/include/larch.h\<close>.
  The terminal and the allocator the system calls reach are parameters: their definitions
  are not among the C sources.
\<close>

section \<open>process.c\<close>

record process_t =
  p_pid :: u32
  p_state :: u32
  p_stack :: u32
  p_next :: u32

text \<open>The process structures live in memory, at addresses; the null pointer is zero.\<close>

record sched_state =
  procs :: "u32 \<Rightarrow> process_t"
  current :: u32
  ready_queue :: u32
  next_pid :: u32

definition sched_init :: "(u32 \<Rightarrow> process_t) \<Rightarrow> sched_state" where
  "sched_init mem = \<lparr>procs = mem, current = 0, ready_queue = 0, next_pid = 1\<rparr>"

definition create_process :: "sched_state \<Rightarrow> u32 \<times> sched_state" where
  "create_process s =
     (let proc = 0x100000;
          p = (procs s proc)\<lparr>p_pid := next_pid s, p_state := 1, p_next := ready_queue s\<rparr> in
      (next_pid s,
       s\<lparr>procs := (procs s)(proc := p), next_pid := next_pid s + 1, ready_queue := proc\<rparr>))"

definition schedule :: "sched_state \<Rightarrow> sched_state" where
  "schedule s =
     (if current s \<noteq> 0 then s\<lparr>current := p_next (procs s (current s))\<rparr>
      else s\<lparr>current := ready_queue s\<rparr>)"

section \<open>syscall_handler.c\<close>

record interrupt_frame =
  f_ds :: u32
  f_edi :: u32
  f_esi :: u32
  f_ebp :: u32
  f_esp :: u32
  f_ebx :: u32
  f_edx :: u32
  f_ecx :: u32
  f_eax :: u32
  f_int_no :: u32
  f_err_code :: u32
  f_eip :: u32
  f_cs :: u32
  f_eflags :: u32
  f_useresp :: u32
  f_ss :: u32

abbreviation SYS_EXIT :: u32 where "SYS_EXIT \<equiv> 1"
abbreviation SYS_WRITE :: u32 where "SYS_WRITE \<equiv> 3"
abbreviation SYS_ALLOC :: u32 where "SYS_ALLOC \<equiv> 6"
abbreviation SYS_FREE :: u32 where "SYS_FREE \<equiv> 7"

definition syscall_handler ::
  "(u32 \<Rightarrow> u32 \<Rightarrow> 's \<Rightarrow> 's) \<Rightarrow> (u32 \<Rightarrow> 's \<Rightarrow> u32 \<times> 's) \<Rightarrow> (u32 \<Rightarrow> u32 \<Rightarrow> 's \<Rightarrow> 's) \<Rightarrow>
   u32 \<Rightarrow> u32 \<Rightarrow> u32 \<Rightarrow> u32 \<Rightarrow> 's \<Rightarrow> u32 \<times> 's" where
  "syscall_handler terminal_write sys_alloc sys_free syscall_num arg1 arg2 arg3 s =
     (if syscall_num = SYS_EXIT then (0, s)
      else if syscall_num = SYS_WRITE then (arg2, terminal_write arg1 arg2 s)
      else if syscall_num = SYS_ALLOC then sys_alloc arg1 s
      else if syscall_num = SYS_FREE then (0, sys_free arg1 arg2 s)
      else (- 1, s))"

definition syscall_int80_handler ::
  "(u32 \<Rightarrow> u32 \<Rightarrow> 's \<Rightarrow> 's) \<Rightarrow> (u32 \<Rightarrow> 's \<Rightarrow> u32 \<times> 's) \<Rightarrow> (u32 \<Rightarrow> u32 \<Rightarrow> 's \<Rightarrow> 's) \<Rightarrow>
   interrupt_frame \<Rightarrow> 's \<Rightarrow> interrupt_frame \<times> 's" where
  "syscall_int80_handler terminal_write sys_alloc sys_free frame s =
     (let (result, s) = syscall_handler terminal_write sys_alloc sys_free
                          (f_eax frame) (f_ebx frame) (f_ecx frame) (f_edx frame) s in
      (frame\<lparr>f_eax := result\<rparr>, s))"

text \<open>
  The numbers the headers promise: those of \<^verbatim>\<open>larch.h\<close> and of \<^verbatim>\<open>more_syscall.h\<close>.
\<close>

datatype syscall_num_t =
    Sys_exit | Sys_read | Sys_write | Sys_open | Sys_close | Sys_alloc | Sys_free
  | Sys_audio_play | Sys_audio_stop | Sys_audio_volume | Sys_graphics_rect | Sys_graphics_text

fun syscall_number :: "syscall_num_t \<Rightarrow> u32" where
  "syscall_number Sys_exit = 1"
| "syscall_number Sys_read = 2"
| "syscall_number Sys_write = 3"
| "syscall_number Sys_open = 4"
| "syscall_number Sys_close = 5"
| "syscall_number Sys_alloc = 6"
| "syscall_number Sys_free = 7"
| "syscall_number Sys_audio_play = 100"
| "syscall_number Sys_audio_stop = 101"
| "syscall_number Sys_audio_volume = 102"
| "syscall_number Sys_graphics_rect = 200"
| "syscall_number Sys_graphics_text = 201"

datatype more_syscall = Sys_fork | Sys_exec | Sys_getpid | Sys_sleep | Sys_waitpid | Sys_getticks

fun more_syscall_number :: "more_syscall \<Rightarrow> u32" where
  "more_syscall_number Sys_fork = 8"
| "more_syscall_number Sys_exec = 9"
| "more_syscall_number Sys_getpid = 10"
| "more_syscall_number Sys_sleep = 11"
| "more_syscall_number Sys_waitpid = 12"
| "more_syscall_number Sys_getticks = 13"

text \<open>The inline function \<open>syscall\<close>: registers in, \<open>int $0x80\<close>, \<open>eax\<close> out.\<close>

definition syscall_wrapper ::
  "(interrupt_frame \<Rightarrow> 's \<Rightarrow> interrupt_frame \<times> 's) \<Rightarrow> interrupt_frame \<Rightarrow> u32 \<Rightarrow> u32 \<Rightarrow> u32 \<Rightarrow> u32 \<Rightarrow> 's \<Rightarrow> u32 \<times> 's" where
  "syscall_wrapper int80 regs num arg1 arg2 arg3 s =
     (let (frame, s) = int80 (regs\<lparr>f_eax := num, f_ebx := arg1, f_ecx := arg2, f_edx := arg3\<rparr>) s in
      (f_eax frame, s))"

section \<open>syscall_implementations.c\<close>

record pid_state =
  fork_next_pid :: u32
  current_pid :: u32

definition pid_init :: pid_state where
  "pid_init = \<lparr>fork_next_pid = 1, current_pid = 1\<rparr>"

definition sys_fork :: "pid_state \<Rightarrow> u32 \<times> pid_state" where
  "sys_fork s = (fork_next_pid s, s\<lparr>fork_next_pid := fork_next_pid s + 1\<rparr>)"

definition sys_exec :: "u8 list \<Rightarrow> u8 list list \<Rightarrow> u32" where
  "sys_exec path argv = - 1"

definition sys_getpid :: "pid_state \<Rightarrow> u32" where
  "sys_getpid s = current_pid s"

definition sys_waitpid :: "u32 \<Rightarrow> u32" where
  "sys_waitpid pid = 0"

definition sys_getticks :: "('s \<Rightarrow> u32) \<Rightarrow> 's \<Rightarrow> u32" where
  "sys_getticks pit_get_tick s = pit_get_tick s"

definition sys_alloc_wrapper :: "(u32 \<Rightarrow> 's \<Rightarrow> u32 \<times> 's) \<Rightarrow> u32 \<Rightarrow> 's \<Rightarrow> u32 \<times> 's" where
  "sys_alloc_wrapper sys_alloc sz s = sys_alloc sz s"

definition sys_free_wrapper :: "(u32 \<Rightarrow> u32 \<Rightarrow> 's \<Rightarrow> 's) \<Rightarrow> u32 \<Rightarrow> u32 \<Rightarrow> 's \<Rightarrow> 's" where
  "sys_free_wrapper sys_free ptr sz s = sys_free ptr sz s"

section \<open>The ready queue\<close>

definition create_all :: "nat \<Rightarrow> sched_state \<Rightarrow> sched_state" where
  "create_all n s = ((snd \<circ> create_process) ^^ n) s"

lemma create_all_Suc [simp]: "create_all (Suc n) s = snd (create_process (create_all n s))"
  by (simp add: create_all_def)

lemma create_all_state:
  "current (create_all n (sched_init mem)) = 0"
  "next_pid (create_all n (sched_init mem)) = of_nat (Suc n)"
  "ready_queue (create_all n (sched_init mem)) = (if n = 0 then 0 else 0x100000)"
  by (induction n) (auto simp: create_all_def create_process_def sched_init_def Let_def)

lemma create_all_proc:
  "p_pid (procs (create_all (Suc n) (sched_init mem)) 0x100000) = of_nat (Suc n)"
  "p_next (procs (create_all (Suc n) (sched_init mem)) 0x100000) = (if n = 0 then 0 else 0x100000)"
  using create_all_state [of n mem] by (simp_all add: create_process_def Let_def)

lemma schedule_simps [simp]: "procs (schedule s) = procs s" "ready_queue (schedule s) = ready_queue s"
  by (simp_all add: schedule_def)

lemma schedule_funpow [simp]:
  "procs ((schedule ^^ n) s) = procs s" "ready_queue ((schedule ^^ n) s) = ready_queue s"
  by (induction n) simp_all

lemma schedule_self_loop:
  assumes "current s = 0" "ready_queue s = p" "p \<noteq> 0" "p_next (procs s p) = p"
  shows "current ((schedule ^^ Suc n) s) = p"
proof (induction n)
  case 0
  then show ?case using assms by (simp add: schedule_def)
next
  case (Suc n)
  have step: "current (schedule t) = p_next (procs t p)" if "current t = p" for t
    using that assms(3) by (simp add: schedule_def)
  have "current (schedule ((schedule ^^ Suc n) s)) = p_next (procs ((schedule ^^ Suc n) s) p)"
    using Suc by (rule step)
  also have "\<dots> = p" using assms(4) by (simp only: schedule_funpow)
  finally show ?case by simp
qed

lemma schedule_one:
  assumes "current s = 0" "ready_queue s = p" "p \<noteq> 0" "p_next (procs s p) = 0"
  shows "current ((schedule ^^ n) s) = (if even n then 0 else p)"
proof (induction n)
  case (Suc n)
  then show ?case using assms by (cases "even n") (simp_all add: schedule_def [of "(schedule ^^ n) s"])
qed (simp add: assms)

text \<open>The answer of the \<open>n\<close>-th call of \<open>sys_fork\<close>, counted from zero.\<close>

definition fork_n :: "nat \<Rightarrow> u32" where
  "fork_n n = fst (sys_fork (((snd \<circ> sys_fork) ^^ n) pid_init))"

lemma fork_n_eq: "fork_n n = of_nat (Suc n)"
proof -
  have "fork_next_pid (((snd \<circ> sys_fork) ^^ n) pid_init) = of_nat (Suc n)"
    by (induction n) (simp_all add: pid_init_def sys_fork_def)
  then show ?thesis by (simp add: fork_n_def sys_fork_def)
qed

section \<open>Properties\<close>

text \<open>
  C40. Only the last created process ever runs: every call of \<open>create_process\<close> overwrites
  the one structure at address 0x100000. With two or more processes the queue is that
  structure linked to itself; from the first scheduling decision on the current process
  is always the last one created and the others are lost. With exactly one process the
  scheduler alternates between it and no process.
\<close>

theorem only_last_process_runs:
  "let s = create_all (Suc n) (sched_init mem) in
   p_pid (procs s 0x100000) = of_nat (Suc n) \<and>
   current ((schedule ^^ Suc k) s) = (if n = 0 \<and> odd k then 0 else 0x100000)"
  using create_all_state [of "Suc n" mem] create_all_proc [of n mem]
    schedule_self_loop [of "create_all (Suc n) (sched_init mem)" "0x100000" k]
    schedule_one [of "create_all (Suc n) (sched_init mem)" "0x100000" "Suc k"]
  by (auto simp: Let_def simp del: create_all_Suc funpow.simps split: if_splits)

text \<open>
  The system call interrupt only changes \<open>eax\<close> of the frame, and a number other than
  exit, write, alloc and free answers \<open>-1\<close> and has no effect at all.
\<close>

theorem int80_contract:
  "let (frame', s') = syscall_int80_handler terminal_write sys_alloc sys_free frame s in
   frame' = frame\<lparr>f_eax := f_eax frame'\<rparr> \<and>
   (f_eax frame \<in> {SYS_EXIT, SYS_WRITE, SYS_ALLOC, SYS_FREE} \<or> (f_eax frame' = - 1 \<and> s' = s))"
  by (auto simp: syscall_int80_handler_def syscall_handler_def Let_def split: prod.split)

text \<open>
  Most promised system calls do not exist: through the user side wrapper every
  number of \<open>more_syscall.h\<close> (fork, exec, getpid, sleep, waitpid, getticks) and
  read, open, close, audio and graphics of \<open>larch.h\<close> answer \<open>-1\<close> without any effect.
\<close>

theorem promised_syscalls_missing:
  "syscall_wrapper (syscall_int80_handler terminal_write sys_alloc sys_free) regs (more_syscall_number m) a b c s = (- 1, s) \<and>
   (n \<notin> {Sys_exit, Sys_write, Sys_alloc, Sys_free} \<longrightarrow>
    syscall_wrapper (syscall_int80_handler terminal_write sys_alloc sys_free) regs (syscall_number n) a b c s = (- 1, s))"
  by (cases m; cases n; simp add: syscall_wrapper_def syscall_int80_handler_def syscall_handler_def)

text \<open>
  \<open>sys_fork\<close> hands out the process numbers one, two, three, and so on, distinct for
  \<open>2 ^ 32\<close> calls; but the first child gets the number of the running process itself.
\<close>

theorem sys_fork_numbers:
  "(n < 2 ^ 32 \<and> m < 2 ^ 32 \<and> fork_n n = fork_n m \<longrightarrow> n = m) \<and> fork_n 0 = sys_getpid pid_init"
proof -
  have "n = m" if "n < 2 ^ 32" "m < 2 ^ 32" "fork_n n = fork_n m"
  proof -
    have "(of_nat n :: u32) = of_nat m" using that(3) by (simp add: fork_n_eq)
    then show ?thesis using that(1,2) by (metis unat_of_nat_u32)
  qed
  then show ?thesis by (auto simp: fork_n_eq [of 0] sys_getpid_def pid_init_def)
qed

theorem promised_syscalls_missing_witness:
  "syscall_wrapper (syscall_int80_handler (\<lambda>p n s. s) (\<lambda>n s. (n, s)) (\<lambda>p n s. s))
     \<lparr>f_ds = 0, f_edi = 0, f_esi = 0, f_ebp = 0, f_esp = 0, f_ebx = 0, f_edx = 0, f_ecx = 0, f_eax = 0,
      f_int_no = 128, f_err_code = 0, f_eip = 0, f_cs = 0, f_eflags = 0, f_useresp = 0, f_ss = 0\<rparr>
     (syscall_number Sys_open) 1 2 3 (0 :: nat) = (- 1, 0)"
  using promised_syscalls_missing [of "\<lambda>p n s. s" "\<lambda>n s. (n, s)" "\<lambda>p n s. s" _ Sys_fork 1 2 3 "0 :: nat" Sys_open]
  by simp

theorem sys_fork_numbers_witness: "fork_n 3 = fork_n 3 \<and> fork_n 0 = sys_getpid pid_init"
  using sys_fork_numbers [of 3 3] by simp

end
