(* ===== verification/Descriptors.thy ===== *)
theory Descriptors
  imports Larch_Prelude
begin

text \<open>
  The descriptor tables: \<^verbatim>\<open>kernel/gdt/gdt_full.c\<close> (the linked one, with the task state
  segment), \<^verbatim>\<open>kernel/larch/gdt.c\<close>, \<^verbatim>\<open>kernel/tss/tss.c\<close> and \<^verbatim>\<open>kernel/larch/idt.c\<close>.
  The addresses the linker gives to the tables are parameters.
\<close>

section \<open>Segment descriptors\<close>

record gdt_entry =
  limit_low :: u16
  base_low :: u16
  base_middle :: u8
  access :: u8
  granularity :: u8
  base_high :: u8

record gdt_ptr =
  gp_limit :: u16
  gp_base :: u32

record tss_entry =
  t_prev_tss :: u32
  t_esp0 :: u32
  t_ss0 :: u32
  t_esp1 :: u32
  t_ss1 :: u32
  t_esp2 :: u32
  t_ss2 :: u32
  t_cr3 :: u32
  t_eip :: u32
  t_eflags :: u32
  t_eax :: u32
  t_ecx :: u32
  t_edx :: u32
  t_ebx :: u32
  t_esp :: u32
  t_ebp :: u32
  t_esi :: u32
  t_edi :: u32
  t_es :: u32
  t_cs :: u32
  t_ss :: u32
  t_ds :: u32
  t_fs :: u32
  t_gs :: u32
  t_ldt :: u32
  t_trap :: u16
  t_iomap_base :: u16

abbreviation (input) sizeof_gdt_entry :: nat where "sizeof_gdt_entry \<equiv> 8"
abbreviation (input) sizeof_tss_entry :: nat where "sizeof_tss_entry \<equiv> 104"

record gdt_state = io_state +
  gdt :: "gdt_entry list"
  gp :: gdt_ptr
  tss :: tss_entry

text \<open>The assignments of \<open>gdt_set_gate\<close> to the fields of one entry.\<close>

definition gate_entry :: "u32 \<Rightarrow> u32 \<Rightarrow> u8 \<Rightarrow> u8 \<Rightarrow> gdt_entry \<Rightarrow> gdt_entry" where
  "gate_entry base limit acc gran e =
     e\<lparr>base_low := ucast (base AND 0xFFFF),
       base_middle := ucast (drop_bit 16 base AND 0xFF),
       base_high := ucast (drop_bit 24 base AND 0xFF),
       limit_low := ucast (limit AND 0xFFFF),
       granularity := ucast (drop_bit 16 limit AND 0x0F) OR (gran AND 0xF0),
       access := acc\<rparr>"

definition gdt_set_gate ::
  "int \<Rightarrow> u32 \<Rightarrow> u32 \<Rightarrow> u8 \<Rightarrow> u8 \<Rightarrow> 'a gdt_state_scheme \<Rightarrow> 'a gdt_state_scheme res" where
  "gdt_set_gate num base limit acc gran s =
     bindR (buf_read (gdt s) num) (\<lambda>e.
     bindR (buf_write (gdt s) num (gate_entry base limit acc gran e)) (\<lambda>g.
     Inr (s\<lparr>gdt := g\<rparr>)))"

definition tss_init :: "u32 \<Rightarrow> u32 \<Rightarrow> 'a gdt_state_scheme \<Rightarrow> 'a gdt_state_scheme res" where
  "tss_init tss_addr kernel_stack s =
     (let s = s\<lparr>tss := (tss s)\<lparr>t_ss0 := 0x10, t_esp0 := kernel_stack, t_cs := 0x0B, t_ds := 0x13,
                t_es := 0x13, t_fs := 0x13, t_gs := 0x13, t_ss := 0x13,
                t_iomap_base := of_nat sizeof_tss_entry\<rparr>\<rparr> in
      gdt_set_gate 5 tss_addr (of_nat sizeof_tss_entry - 1) 0x89 0x40 s)"

definition gdt_init :: "u32 \<Rightarrow> u32 \<Rightarrow> 'a gdt_state_scheme \<Rightarrow> 'a gdt_state_scheme res" where
  "gdt_init gdt_addr tss_addr s =
     (let s = s\<lparr>gp := \<lparr>gp_limit = of_nat (sizeof_gdt_entry * 6) - 1, gp_base = gdt_addr\<rparr>\<rparr> in
      bindR (seqR [gdt_set_gate 0 0 0 0 0,
                   gdt_set_gate 1 0 0xFFFFFFFF 0x9A 0xCF,
                   gdt_set_gate 2 0 0xFFFFFFFF 0x92 0xCF,
                   gdt_set_gate 3 0 0xFFFFFFFF 0xFA 0xCF,
                   gdt_set_gate 4 0 0xFFFFFFFF 0xF2 0xCF,
                   tss_init tss_addr 0x200000] s) (\<lambda>s.
      Inr (privileged (Ltr 0x28)
            (privileged (Load_Segments 0x10 0x08)
            (privileged (Lgdt (gp_limit (gp s)) (gp_base (gp s))) s)))))"

section \<open>The variants that are not linked\<close>

text \<open>\<^verbatim>\<open>larch/gdt.c\<close>: a table of three entries, with the assignments one by one.\<close>

definition gdt3_set_gate ::
  "int \<Rightarrow> u32 \<Rightarrow> u32 \<Rightarrow> u8 \<Rightarrow> u8 \<Rightarrow> 'a gdt_state_scheme \<Rightarrow> 'a gdt_state_scheme res" where
  "gdt3_set_gate num base limit acc gran s =
     bindR (buf_read (gdt s) num) (\<lambda>e.
     let e = e\<lparr>base_low := ucast (base AND 0xFFFF)\<rparr>;
         e = e\<lparr>base_middle := ucast (drop_bit 16 base AND 0xFF)\<rparr>;
         e = e\<lparr>base_high := ucast (drop_bit 24 base AND 0xFF)\<rparr>;
         e = e\<lparr>limit_low := ucast (limit AND 0xFFFF)\<rparr>;
         e = e\<lparr>granularity := ucast (drop_bit 16 limit AND 0x0F)\<rparr>;
         e = e\<lparr>granularity := granularity e OR (gran AND 0xF0)\<rparr>;
         e = e\<lparr>access := acc\<rparr> in
     bindR (buf_write (gdt s) num e) (\<lambda>g. Inr (s\<lparr>gdt := g\<rparr>)))"

definition gdt3_init :: "u32 \<Rightarrow> 'a gdt_state_scheme \<Rightarrow> 'a gdt_state_scheme res" where
  "gdt3_init gdt_addr s =
     (let s = s\<lparr>gp := \<lparr>gp_limit = of_nat (sizeof_gdt_entry * 3) - 1, gp_base = gdt_addr\<rparr>\<rparr> in
      bindR (seqR [gdt3_set_gate 0 0 0 0 0,
                   gdt3_set_gate 1 0 0xFFFFFFFF 0x9A 0xCF,
                   gdt3_set_gate 2 0 0xFFFFFFFF 0x92 0xCF] s) (\<lambda>s.
      Inr (privileged (Load_Segments 0x10 0x08)
            (privileged (Lgdt (gp_limit (gp s)) (gp_base (gp s))) s))))"

text \<open>\<^verbatim>\<open>tss/tss.c\<close>: the local \<open>tss_ptr\<close> is computed and not used.\<close>

definition tss_only_init :: "u32 \<Rightarrow> 'a gdt_state_scheme \<Rightarrow> 'a gdt_state_scheme" where
  "tss_only_init kernel_stack s =
     privileged (Ltr 0x28)
       (s\<lparr>tss := (tss s)\<lparr>t_ss0 := 0x10, t_esp0 := kernel_stack, t_iomap_base := of_nat sizeof_tss_entry\<rparr>\<rparr>)"

definition tss_set_kernel_stack :: "u32 \<Rightarrow> 'a gdt_state_scheme \<Rightarrow> 'a gdt_state_scheme" where
  "tss_set_kernel_stack stack s = s\<lparr>tss := (tss s)\<lparr>t_esp0 := stack\<rparr>\<rparr>"

section \<open>Interrupt gates\<close>

record idt_entry =
  i_base_low :: u16
  i_selector :: u16
  i_zero :: u8
  i_flags :: u8
  i_base_high :: u16

record idt_ptr =
  idtp_limit :: u16
  idtp_base :: u32

record idt_state = io_state +
  idt :: "idt_entry list"
  idtp :: idt_ptr

definition idt_set_gate :: "u8 \<Rightarrow> u32 \<Rightarrow> u16 \<Rightarrow> u8 \<Rightarrow> 'a idt_state_scheme \<Rightarrow> 'a idt_state_scheme res" where
  "idt_set_gate num base selector flags s =
     bindR (buf_write (idt s) (uint num)
       \<lparr>i_base_low = ucast (base AND 0xFFFF), i_selector = selector, i_zero = 0, i_flags = flags,
        i_base_high = ucast (drop_bit 16 base AND 0xFFFF)\<rparr>) (\<lambda>t.
     Inr (s\<lparr>idt := t\<rparr>))"

definition idt_init :: "u32 \<Rightarrow> 'a idt_state_scheme \<Rightarrow> 'a idt_state_scheme" where
  "idt_init idt_addr s =
     (let s = s\<lparr>idtp := \<lparr>idtp_limit = of_nat (8 * 256) - 1, idtp_base = idt_addr\<rparr>\<rparr> in
      privileged (Lidt (idtp_limit (idtp s)) (idtp_base (idtp s))) s)"

section \<open>What the processor reads\<close>

text \<open>Base, limit and flags of a descriptor as the processor assembles them.\<close>

definition desc_base :: "gdt_entry \<Rightarrow> u32" where
  "desc_base e = ucast (base_low e) OR push_bit 16 (ucast (base_middle e)) OR push_bit 24 (ucast (base_high e))"

definition desc_limit :: "gdt_entry \<Rightarrow> u32" where
  "desc_limit e = ucast (limit_low e) OR push_bit 16 (ucast (take_bit 4 (granularity e)))"

definition desc_flags :: "gdt_entry \<Rightarrow> u8" where
  "desc_flags e = drop_bit 4 (granularity e)"

text \<open>The last byte a segment reaches: with granularity bit 3 the limit counts 4 KB pages.\<close>

definition desc_last_byte :: "gdt_entry \<Rightarrow> u32" where
  "desc_last_byte e =
     (if bit (desc_flags e) 3 then push_bit 12 (desc_limit e) OR 0xFFF else desc_limit e)"

definition gate_target :: "idt_entry \<Rightarrow> u32" where
  "gate_target e = ucast (i_base_low e) OR push_bit 16 (ucast (i_base_high e))"

text \<open>Bit 7 of the flags: the gate may be used.\<close>

definition gate_present :: "idt_entry \<Rightarrow> bool" where
  "gate_present e = bit (i_flags e) 7"

lemma mask_F0: "(x :: u8) AND 0xF0 = push_bit 4 (drop_bit 4 x)"
proof -
  have "(0xF0 :: u8) = push_bit 4 (mask 4)" by (simp add: mask_eq_exp_minus_1 push_bit_eq_mult)
  then have "x AND 0xF0 = x AND push_bit 4 (mask 4)" by (simp only:)
  also have "\<dots> = push_bit 4 (drop_bit 4 x)"
    by (rule bit_word_eqI) (auto simp: bit_simps bit_mask_iff)
  finally show ?thesis .
qed

lemma encode_base:
  fixes base :: u32
  shows "ucast (ucast (base AND 0xFFFF) :: u16) OR push_bit 16 (ucast (ucast (drop_bit 16 base AND 0xFF) :: u8))
     OR push_bit 24 (ucast (ucast (drop_bit 24 base AND 0xFF) :: u8)) = base"
proof (rule bit_word_eqI)
  fix n assume "n < LENGTH(32)"
  then consider "n < 16" | "16 \<le> n" "n < 24" | "24 \<le> n" "n < 32" by fastforce
  then show "bit (ucast (ucast (base AND 0xFFFF) :: u16) OR push_bit 16 (ucast (ucast (drop_bit 16 base AND 0xFF) :: u8))
     OR push_bit 24 (ucast (ucast (drop_bit 24 base AND 0xFF) :: u8)) :: u32) n = bit base n"
    by cases (auto simp: and_mask_simps bit_simps bit_unsigned_iff)
qed

lemma encode_limit:
  fixes limit :: u32 and gran :: u8
  shows "ucast (ucast (limit AND 0xFFFF) :: u16)
     OR push_bit 16 (ucast (take_bit 4 (ucast (drop_bit 16 limit AND 0x0F) OR (gran AND 0xF0)) :: u8)) = take_bit 20 limit"
proof (rule bit_word_eqI)
  fix n assume "n < LENGTH(32)"
  then consider "n < 16" | "16 \<le> n" "n < 20" | "20 \<le> n" "n < 32" by fastforce
  then show "bit (ucast (ucast (limit AND 0xFFFF) :: u16)
     OR push_bit 16 (ucast (take_bit 4 (ucast (drop_bit 16 limit AND 0x0F) OR (gran AND 0xF0)) :: u8)) :: u32) n = bit (take_bit 20 limit) n"
    by cases (auto simp: and_mask_simps mask_F0 bit_simps bit_unsigned_iff)
qed

lemma encode_flags:
  fixes limit :: u32 and gran :: u8
  shows "drop_bit 4 (ucast (drop_bit 16 limit AND 0x0F) OR (gran AND 0xF0)) = drop_bit 4 gran"
proof (rule bit_word_eqI)
  fix n assume "n < LENGTH(8)"
  have "bit gran (4 + n) \<Longrightarrow> n < 4" using bit_imp_le_length [of gran "4 + n"] by simp
  then show "bit (drop_bit 4 (ucast (drop_bit 16 limit AND 0x0F) OR (gran AND 0xF0))) n = bit (drop_bit 4 gran) n"
    by (auto simp: and_mask_simps mask_F0 bit_simps bit_unsigned_iff)
qed

lemma encode_target:
  fixes base :: u32
  shows "ucast (ucast (base AND 0xFFFF) :: u16) OR push_bit 16 (ucast (ucast (drop_bit 16 base AND 0xFFFF) :: u16)) = base"
proof (rule bit_word_eqI)
  fix n assume "n < LENGTH(32)"
  then consider "n < 16" | "16 \<le> n" "n < 32" by fastforce
  then show "bit (ucast (ucast (base AND 0xFFFF) :: u16) OR push_bit 16 (ucast (ucast (drop_bit 16 base AND 0xFFFF) :: u16)) :: u32) n = bit base n"
    by cases (auto simp: and_mask_simps bit_simps bit_unsigned_iff)
qed

text \<open>What \<open>gdt_set_gate\<close> stores.\<close>

definition encodes :: "gdt_entry \<Rightarrow> u32 \<Rightarrow> u32 \<Rightarrow> u8 \<Rightarrow> u8 \<Rightarrow> bool" where
  "encodes e base limit acc gran \<longleftrightarrow> desc_base e = base \<and> desc_limit e = take_bit 20 limit \<and>
     access e = acc \<and> desc_flags e = drop_bit 4 gran"

lemma gate_entry_encodes: "encodes (gate_entry base limit acc gran e) base limit acc gran"
  by (simp add: encodes_def gate_entry_def desc_base_def desc_limit_def desc_flags_def
      encode_base encode_limit encode_flags del: drop_bit_or take_bit_or)

lemma gdt_set_gate_eq [run_simps]:
  "0 \<le> num \<Longrightarrow> num < int (length (gdt s)) \<Longrightarrow> gdt_set_gate num base limit acc gran s =
     Inr (s\<lparr>gdt := (gdt s)[nat num := gate_entry base limit acc gran (gdt s ! nat num)]\<rparr>)"
  by (simp add: gdt_set_gate_def buf_simps)

lemma gdt_set_gate_out: "\<not> (0 \<le> num \<and> num < int (length (gdt s))) \<Longrightarrow>
  gdt_set_gate num base limit acc gran s = Inl Out_Of_Bounds"
  by (auto simp: gdt_set_gate_def buf_read_def)

lemma gdt_init_eq:
  assumes "gdt s = [e0, e1, e2, e3, e4, e5]"
  shows "\<exists>t. gdt_init gdt_addr tss_addr s = Inr t \<and>
     gdt t = [gate_entry 0 0 0 0 e0, gate_entry 0 0xFFFFFFFF 0x9A 0xCF e1, gate_entry 0 0xFFFFFFFF 0x92 0xCF e2,
              gate_entry 0 0xFFFFFFFF 0xFA 0xCF e3, gate_entry 0 0xFFFFFFFF 0xF2 0xCF e4,
              gate_entry tss_addr 103 0x89 0x40 e5] \<and>
     t_esp0 (tss t) = 0x200000 \<and> t_ss0 (tss t) = 0x10 \<and> t_iomap_base (tss t) = 104 \<and>
     io_log t = io_log s @ [Lgdt 47 gdt_addr, Load_Segments 0x10 0x08, Ltr 0x28]"
  using assms by (simp add: gdt_init_def tss_init_def Let_def run_simps privileged_def)

text \<open>A flat table: four segments over the whole address space and the task segment.\<close>

definition flat_table :: "u32 \<Rightarrow> gdt_entry list \<Rightarrow> bool" where
  "flat_table tss_addr g \<longleftrightarrow> length g = 6 \<and>
     (\<forall>i \<in> {1, 2, 3, 4}. desc_base (g ! i) = 0 \<and> desc_last_byte (g ! i) = 0xFFFFFFFF) \<and>
     map access g = [0, 0x9A, 0x92, 0xFA, 0xF2, 0x89] \<and>
     desc_base (g ! 5) = tss_addr \<and> desc_last_byte (g ! 5) = 103"

lemma tss_entry_encodes:
  "desc_last_byte (gate_entry a 103 0x89 0x40 e) = 103" "desc_base (gate_entry a 103 0x89 0x40 e) = a"
  using gate_entry_encodes [of a "103" "0x89" "0x40" e]
  by (simp_all add: encodes_def desc_last_byte_def bit_numeral_rec)

lemma full_segment:
  "encodes e 0 0xFFFFFFFF acc 0xCF \<Longrightarrow> desc_last_byte e = 0xFFFFFFFF \<and> desc_base e = 0"
  by (simp add: encodes_def desc_last_byte_def bit_numeral_rec)

lemma gdt3_set_gate_eq: "gdt3_set_gate = gdt_set_gate"
  by (intro ext) (simp add: gdt3_set_gate_def gdt_set_gate_def gate_entry_def Let_def)

lemma gdt3_init_eq:
  assumes "gdt s = [e0, e1, e2]"
  shows "\<exists>t. gdt3_init gdt_addr s = Inr t \<and> gp_limit (gp t) = 23 \<and>
     gdt t = [gate_entry 0 0 0 0 e0, gate_entry 0 0xFFFFFFFF 0x9A 0xCF e1, gate_entry 0 0xFFFFFFFF 0x92 0xCF e2] \<and>
     io_log t = io_log s @ [Lgdt 23 gdt_addr, Load_Segments 0x10 0x08]"
  using assms by (simp add: gdt3_init_def gdt3_set_gate_eq Let_def run_simps privileged_def)

lemma gdt_init_ok:
  assumes "length (gdt s) = 6"
  shows "\<exists>t. gdt_init gdt_addr tss_addr s = Inr t \<and> flat_table tss_addr (gdt t) \<and>
     t_esp0 (tss t) = 0x200000 \<and> t_ss0 (tss t) = 0x10 \<and>
     io_log t = io_log s @ [Lgdt 47 gdt_addr, Load_Segments 0x10 0x08, Ltr 0x28]"
proof -
  obtain e0 e1 e2 e3 e4 e5 where "gdt s = [e0, e1, e2, e3, e4, e5]"
    using assms by (auto simp: eval_nat_numeral length_Suc_conv)
  from gdt_init_eq [OF this, of gdt_addr tss_addr] obtain t where t: "gdt_init gdt_addr tss_addr s = Inr t"
    "gdt t = [gate_entry 0 0 0 0 e0, gate_entry 0 0xFFFFFFFF 0x9A 0xCF e1, gate_entry 0 0xFFFFFFFF 0x92 0xCF e2,
              gate_entry 0 0xFFFFFFFF 0xFA 0xCF e3, gate_entry 0 0xFFFFFFFF 0xF2 0xCF e4,
              gate_entry tss_addr 103 0x89 0x40 e5]"
    "t_esp0 (tss t) = 0x200000" "t_ss0 (tss t) = 0x10"
    "io_log t = io_log s @ [Lgdt 47 gdt_addr, Load_Segments 0x10 0x08, Ltr 0x28]" by blast
  have acc: "access (gate_entry b l a g e) = a" for b l a g e by (simp add: gate_entry_def)
  have "flat_table tss_addr (gdt t)"
    unfolding t(2) flat_table_def
    using full_segment [OF gate_entry_encodes] tss_entry_encodes acc by (auto simp: eval_nat_numeral)
  then show ?thesis using t(1,3-) by blast
qed

text \<open>Setting the kernel stack again keeps the table flat.\<close>

lemma tss_init_ok:
  assumes "flat_table tss_addr (gdt s)"
  shows "\<exists>t. tss_init tss_addr k s = Inr t \<and> flat_table tss_addr (gdt t) \<and> t_esp0 (tss t) = k \<and>
     t_ss0 (tss t) = 0x10 \<and> gp t = gp s \<and> io_log t = io_log s"
proof -
  have "map access ((gdt s)[5 := gate_entry tss_addr 103 0x89 0x40 (gdt s ! 5)]) = [0, 0x9A, 0x92, 0xFA, 0xF2, 0x89]"
    using assms by (simp add: flat_table_def map_update) (simp add: gate_entry_def list_update_code)
  then show ?thesis
    using assms by (auto simp: tss_init_def Let_def flat_table_def run_simps tss_entry_encodes)
qed

text \<open>The static tables before boot: all zero.\<close>

definition gdt_zero :: gdt_state where
  "gdt_zero = \<lparr>ins = [], io_log = [],
     gdt = replicate 6 \<lparr>limit_low = 0, base_low = 0, base_middle = 0, access = 0, granularity = 0, base_high = 0\<rparr>,
     gp = \<lparr>gp_limit = 0, gp_base = 0\<rparr>,
     tss = \<lparr>t_prev_tss = 0, t_esp0 = 0, t_ss0 = 0, t_esp1 = 0, t_ss1 = 0, t_esp2 = 0, t_ss2 = 0, t_cr3 = 0,
       t_eip = 0, t_eflags = 0, t_eax = 0, t_ecx = 0, t_edx = 0, t_ebx = 0, t_esp = 0, t_ebp = 0, t_esi = 0,
       t_edi = 0, t_es = 0, t_cs = 0, t_ss = 0, t_ds = 0, t_fs = 0, t_gs = 0, t_ldt = 0, t_trap = 0, t_iomap_base = 0\<rparr>\<rparr>"

definition idt_zero :: idt_state where
  "idt_zero = \<lparr>ins = [], io_log = [],
     idt = replicate 256 \<lparr>i_base_low = 0, i_selector = 0, i_zero = 0, i_flags = 0, i_base_high = 0\<rparr>,
     idtp = \<lparr>idtp_limit = 0, idtp_base = 0\<rparr>\<rparr>"

section \<open>Properties\<close>

text \<open>
  C36. Segment descriptors are encoded the way the processor reads them: for an index in
  the table \<open>gdt_set_gate\<close> changes that entry only, and the entry decodes to the given
  base, the low twenty bits of the limit, the access byte and the four flag bits; for
  any other index it writes outside the table.
\<close>

theorem gdt_set_gate_correct:
  "gdt_set_gate num base limit acc gran s =
     (if 0 \<le> num \<and> num < int (length (gdt s))
      then Inr (s\<lparr>gdt := (gdt s)[nat num := gate_entry base limit acc gran (gdt s ! nat num)]\<rparr>)
      else Inl Out_Of_Bounds) \<and>
   encodes (gate_entry base limit acc gran e) base limit acc gran"
  using gate_entry_encodes by (simp add: gdt_set_gate_eq gdt_set_gate_out)

text \<open>
  The boot-time table is a flat 4 GB model with a task segment: after \<open>gdt_init\<close> the
  code and data segments of both rings start at zero and end at the last byte of the
  address space with the right access bytes, entry five describes the 104 bytes of the
  task state segment, and the processor has loaded the table of six entries, the
  selectors 0x10 and 0x08 and the task register 0x28.
\<close>

theorem gdt_init_flat:
  assumes "length (gdt s) = 6"
  shows "\<exists>t. gdt_init gdt_addr tss_addr s = Inr t \<and>
     (\<forall>i \<in> {1, 2, 3, 4}. desc_base (gdt t ! i) = 0 \<and> desc_last_byte (gdt t ! i) = 0xFFFFFFFF) \<and>
     map access (gdt t) = [0, 0x9A, 0x92, 0xFA, 0xF2, 0x89] \<and>
     desc_base (gdt t ! 5) = tss_addr \<and> desc_last_byte (gdt t ! 5) = 103 \<and>
     t_esp0 (tss t) = 0x200000 \<and> t_ss0 (tss t) = 0x10 \<and>
     io_log t = io_log s @ [Lgdt 47 gdt_addr, Load_Segments 0x10 0x08, Ltr 0x28]"
  using gdt_init_ok [OF assms, of gdt_addr tss_addr] by (auto simp: flat_table_def)

theorem gdt_init_flat_witness:
  "\<exists>t. gdt_init 0x105000 0x105040 gdt_zero = Inr t \<and>
     (\<forall>i \<in> {1, 2, 3, 4}. desc_base (gdt t ! i) = 0 \<and> desc_last_byte (gdt t ! i) = 0xFFFFFFFF) \<and>
     map access (gdt t) = [0, 0x9A, 0x92, 0xFA, 0xF2, 0x89] \<and>
     desc_base (gdt t ! 5) = 0x105040 \<and> desc_last_byte (gdt t ! 5) = 103 \<and>
     t_esp0 (tss t) = 0x200000 \<and> t_ss0 (tss t) = 0x10 \<and>
     io_log t = io_log gdt_zero @ [Lgdt 47 0x105000, Load_Segments 0x10 0x08, Ltr 0x28]"
  by (rule gdt_init_flat) (simp add: gdt_zero_def)

text \<open>
  Interrupt gates decode to the handler: \<open>idt_set_gate\<close> changes the entry of its
  number only, and the entry's target address, selector and flags are the arguments.
\<close>

theorem idt_set_gate_correct:
  assumes "length (idt s) = 256"
  shows "\<exists>e. idt_set_gate num base selector flags s = Inr (s\<lparr>idt := (idt s)[unat num := e]\<rparr>) \<and>
     gate_target e = base \<and> i_selector e = selector \<and> i_flags e = flags \<and> i_zero e = 0"
proof -
  have "uint num < 256" using unsigned_less [of num, where 'a = int] by simp
  moreover have "nat (uint num) = unat num" by simp
  ultimately show ?thesis
    using assms encode_target [of base]
    by (auto simp: idt_set_gate_def buf_write_def gate_target_def)
qed

theorem idt_set_gate_correct_witness:
  "\<exists>e. idt_set_gate 0x80 0x101234 0x08 0xEE idt_zero = Inr (idt_zero\<lparr>idt := (idt idt_zero)[unat (0x80 :: u8) := e]\<rparr>) \<and>
     gate_target e = 0x101234 \<and> i_selector e = 0x08 \<and> i_flags e = 0xEE \<and> i_zero e = 0"
  by (rule idt_set_gate_correct) (simp add: idt_zero_def)

text \<open>
  No interrupt has a handler: the table starts out zeroed and \<open>idt_init\<close> loads it as
  it is, so no gate is present when the boot code enables interrupts; \<open>idt_set_gate\<close> is
  the only function that could add one and nothing calls it.
\<close>

theorem idt_init_no_gates:
  "io_log (idt_init addr idt_zero) = [Lidt 2047 addr] \<and> filter gate_present (idt (idt_init addr idt_zero)) = []"
  by (simp add: idt_init_def idt_zero_def gate_present_def Let_def privileged_def)

text \<open>
  The two unlinked files do not fit together: \<^verbatim>\<open>larch/gdt.c\<close> loads a flat code and a flat data
  segment in a table of 24 bytes, and the task selector 0x28 that \<^verbatim>\<open>tss/tss.c\<close> then loads
  names bytes 40 to 47, behind the end of that table.
\<close>

theorem gdt3_has_no_task_segment:
  assumes "length (gdt s) = 3"
  shows "\<exists>t. gdt3_init gdt_addr s = Inr t \<and>
     (\<forall>i \<in> {1, 2}. desc_base (gdt t ! i) = 0 \<and> desc_last_byte (gdt t ! i) = 0xFFFFFFFF) \<and>
     map access (gdt t) = [0, 0x9A, 0x92] \<and>
     io_log (tss_only_init stk t) = io_log s @ [Lgdt 23 gdt_addr, Load_Segments 0x10 0x08, Ltr 0x28] \<and>
     t_esp0 (tss (tss_only_init stk t)) = stk \<and> gp_limit (gp t) < (0x28 AND NOT 7) + 7"
proof -
  obtain e0 e1 e2 where "gdt s = [e0, e1, e2]" using assms by (auto simp: eval_nat_numeral length_Suc_conv)
  from gdt3_init_eq [OF this, of gdt_addr] obtain t where t: "gdt3_init gdt_addr s = Inr t" "gp_limit (gp t) = 23"
    "gdt t = [gate_entry 0 0 0 0 e0, gate_entry 0 0xFFFFFFFF 0x9A 0xCF e1, gate_entry 0 0xFFFFFFFF 0x92 0xCF e2]"
    "io_log t = io_log s @ [Lgdt 23 gdt_addr, Load_Segments 0x10 0x08]" by blast
  have acc: "access (gate_entry b l a g e) = a" for b l a g e by (simp add: gate_entry_def)
  have "gdt t ! 1 = gate_entry 0 0xFFFFFFFF 0x9A 0xCF e1" "gdt t ! 2 = gate_entry 0 0xFFFFFFFF 0x92 0xCF e2"
    by (simp_all add: t(3))
  then have "\<forall>i \<in> {1, 2}. desc_base (gdt t ! i) = 0 \<and> desc_last_byte (gdt t ! i) = 0xFFFFFFFF"
    using full_segment [OF gate_entry_encodes] by simp
  moreover have "map access (gdt t) = [0, 0x9A, 0x92]" by (simp add: t(3) acc)
  ultimately show ?thesis
    using t(1,2,4) by (intro exI [of _ t]) (simp add: tss_only_init_def privileged_def)
qed

theorem gdt3_has_no_task_segment_witness:
  "let s = gdt_zero\<lparr>gdt := take 3 (gdt gdt_zero)\<rparr> in
   \<exists>t. gdt3_init 0x5000 s = Inr t \<and>
     (\<forall>i \<in> {1, 2}. desc_base (gdt t ! i) = 0 \<and> desc_last_byte (gdt t ! i) = 0xFFFFFFFF) \<and>
     map access (gdt t) = [0, 0x9A, 0x92] \<and>
     io_log (tss_only_init 0x9000 t) = io_log s @ [Lgdt 23 0x5000, Load_Segments 0x10 0x08, Ltr 0x28] \<and>
     t_esp0 (tss (tss_only_init 0x9000 t)) = 0x9000 \<and> gp_limit (gp t) < (0x28 AND NOT 7) + 7"
  unfolding Let_def by (rule gdt3_has_no_task_segment) (simp add: gdt_zero_def)

end
