(* ===== verification/Multiboot.thy ===== *)
theory Multiboot
  imports Commands
begin

text \<open>
  The boot information parser, \<^verbatim>\<open>kernel/larch/multiboot.c\<close> and \<^verbatim>\<open>multiboot.h\<close>: a walk
  over tags in memory that records two memory sizes. Memory is the flat 32-bit address
  space of bytes, little endian.
\<close>

section \<open>Operations\<close>

abbreviation MULTIBOOT2_TAG_TYPE_MMAP :: u32 where "MULTIBOOT2_TAG_TYPE_MMAP \<equiv> 6"

record mmap_entry =
  e_addr :: u64
  e_len :: u64
  e_type :: u32

text \<open>\<open>mmap->entries[i]\<close>: the array starts 16 bytes into the tag, its elements have 24 bytes.\<close>

definition mmap_entry_at :: "mem \<Rightarrow> u32 \<Rightarrow> int \<Rightarrow> mmap_entry" where
  "mmap_entry_at m tag i =
     (let a = tag + 16 + 24 * word_of_int i in
      \<lparr>e_addr = read64 m a, e_len = read64 m (a + 8), e_type = read32 m (a + 16)\<rparr>)"

definition mmap_step :: "mmap_entry \<Rightarrow> 'a machine_state_scheme \<Rightarrow> 'a machine_state_scheme" where
  "mmap_step e s =
     (if e_type e = 1
      then if e_addr e = 0 then s\<lparr>multiboot2_memory_lower := ucast (e_len e)\<rparr>
           else if e_addr e = 0x100000 then s\<lparr>multiboot2_memory_upper := ucast (e_len e)\<rparr>
           else s
      else s)"

text \<open>The body of the loop for one tag; the division is evaluated for the loop condition.\<close>

definition parse_tag :: "mem \<Rightarrow> u32 \<Rightarrow> 'a machine_state_scheme \<Rightarrow> 'a machine_state_scheme res" where
  "parse_tag m tag s =
     (if read32 m tag = MULTIBOOT2_TAG_TYPE_MMAP
      then if read32 m (tag + 8) = 0 then Inl Divide_Error
           else forR 0 (uint ((read32 m (tag + 4) - 16) div read32 m (tag + 8)))
                  (\<lambda>i s. Inr (mmap_step (mmap_entry_at m tag i) s)) s
      else Inr s)"

definition tag_stride :: "u32 \<Rightarrow> u32" where
  "tag_stride sz = (sz + 7) AND NOT 7"

text \<open>The walk; whether it ends depends on the memory, so it has a bound on the number of tags.\<close>

fun parse_tags :: "nat \<Rightarrow> mem \<Rightarrow> u32 \<Rightarrow> 'a machine_state_scheme \<Rightarrow> 'a machine_state_scheme res" where
  "parse_tags 0 m tag s = Inl No_Fuel"
| "parse_tags (Suc fuel) m tag s =
     (if read32 m tag \<noteq> 0 \<and> read32 m (tag + 4) \<noteq> 0
      then bindR (parse_tag m tag s) (parse_tags fuel m (tag + tag_stride (read32 m (tag + 4))))
      else Inr s)"

definition parse_multiboot2 ::
  "nat \<Rightarrow> mem \<Rightarrow> u32 \<Rightarrow> u32 \<Rightarrow> 'a machine_state_scheme \<Rightarrow> 'a machine_state_scheme res" where
  "parse_multiboot2 fuel m magic addr s =
     (if magic \<noteq> 0x36D76289 then Inr s else parse_tags fuel m addr s)"

section \<open>The boot information format\<close>

text \<open>
  What a boot loader writes, as the Multiboot2 specification lays it out: numbers in little
  endian bytes; a tag starts with its type and its size in bytes without padding; the next
  one starts at the following multiple of eight; a tag of type 0 and size 8 ends the list. The memory map is the tag of
  type 6: after the size and the version of its entries come the entries, 24 bytes each: eight for the
  base address, eight for the length, four for the type, four reserved.
\<close>

fun le_bytes :: "nat \<Rightarrow> nat \<Rightarrow> u8 list" where
  "le_bytes 0 v = []"
| "le_bytes (Suc n) v = of_nat v # le_bytes n (v div 256)"

fun holds :: "mem \<Rightarrow> u32 \<Rightarrow> u8 list \<Rightarrow> bool" where
  "holds m a [] = True"
| "holds m a (b # bs) = (m a = b \<and> holds m (a + 1) bs)"

datatype boot_tag =
    Memory_Map "mmap_entry list"
  | Other_Tag u32 "u8 list"

definition entry_bytes :: "mmap_entry \<Rightarrow> u8 list" where
  "entry_bytes e = le_bytes 8 (unat (e_addr e)) @ le_bytes 8 (unat (e_len e)) @ le_bytes 4 (unat (e_type e)) @ le_bytes 4 0"

fun tag_bytes :: "boot_tag \<Rightarrow> u8 list" where
  "tag_bytes (Memory_Map es) =
     le_bytes 4 6 @ le_bytes 4 (16 + 24 * length es) @ le_bytes 4 24 @ le_bytes 4 0 @ concat (map entry_bytes es)"
| "tag_bytes (Other_Tag t payload) = le_bytes 4 (unat t) @ le_bytes 4 (8 + length payload) @ payload"

fun tag_ok :: "boot_tag \<Rightarrow> bool" where
  "tag_ok (Memory_Map es) = (16 + 24 * length es < 2 ^ 32)"
| "tag_ok (Other_Tag t payload) = (t \<noteq> 0 \<and> t \<noteq> 6 \<and> 8 + length payload < 2 ^ 32)"

fun info_at :: "mem \<Rightarrow> u32 \<Rightarrow> boot_tag list \<Rightarrow> bool" where
  "info_at m a [] = holds m a (le_bytes 4 0 @ le_bytes 4 8)"
| "info_at m a (t # ts) =
     (tag_ok t \<and> holds m a (tag_bytes t) \<and>
      info_at m (a + of_nat (8 * ((length (tag_bytes t) + 7) div 8))) ts)"

text \<open>The memory map a list of tags describes, and the length of the last usable entry at an address.\<close>

fun tag_map :: "boot_tag \<Rightarrow> mmap_entry list" where
  "tag_map (Memory_Map es) = es"
| "tag_map (Other_Tag t payload) = []"

definition usable_at :: "u64 \<Rightarrow> mmap_entry list \<Rightarrow> u32 \<Rightarrow> u32" where
  "usable_at a es old =
     (let us = filter (\<lambda>e. e_type e = 1 \<and> e_addr e = a) es in if us = [] then old else ucast (e_len (last us)))"

text \<open>
  Any chain of tags in a memory, also one that no loader writes: the tags that lie one
  behind the other from an address on, and the entries of a map tag.
\<close>

fun tag_chain :: "mem \<Rightarrow> u32 \<Rightarrow> u32 list \<Rightarrow> bool" where
  "tag_chain m a [] = (read32 m a = 0 \<or> read32 m (a + 4) = 0)"
| "tag_chain m a (t # ts) =
     (t = a \<and> read32 m a \<noteq> 0 \<and> read32 m (a + 4) \<noteq> 0 \<and> (read32 m a = 6 \<longrightarrow> read32 m (a + 8) \<noteq> 0) \<and>
      tag_chain m (a + of_nat (8 * ((unat (read32 m (a + 4)) + 7) div 8))) ts)"

definition tag_entries :: "mem \<Rightarrow> u32 \<Rightarrow> mmap_entry list" where
  "tag_entries m tag =
     (if read32 m tag = 6
      then map (\<lambda>i. \<lparr>e_addr = read64 m (tag + of_nat (16 + 24 * i)), e_len = read64 m (tag + of_nat (24 + 24 * i)),
                    e_type = read32 m (tag + of_nat (32 + 24 * i))\<rparr>)
             [0..<unat ((read32 m (tag + 4) - 16) div read32 m (tag + 8))]
      else [])"

section \<open>Reading it\<close>

lemma length_le_bytes [simp]: "length (le_bytes n v) = n"
  by (induction n arbitrary: v) simp_all

lemma holds_append: "holds m a (xs @ ys) \<longleftrightarrow> holds m a xs \<and> holds m (a + of_nat (length xs)) ys"
  by (induction xs arbitrary: a) (simp_all add: ac_simps)

lemma le_bytes_add: "le_bytes (i + j) v = le_bytes i v @ le_bytes j (v div 256 ^ i)"
proof (induction i arbitrary: v)
  case (Suc i)
  have "v div 256 ^ Suc i = v div 256 div 256 ^ i" by (simp only: power_Suc div_mult2_eq)
  then show ?case using Suc.IH [of "v div 256"] by (simp only: le_bytes.simps add_Suc append_Cons)
qed simp

lemma le_bytes_4:
  "le_bytes 4 v = [of_nat v, of_nat (drop_bit 8 v), of_nat (drop_bit 16 v), of_nat (drop_bit 24 v)]"
proof -
  have "le_bytes (Suc (Suc (Suc (Suc 0)))) v = [of_nat v, of_nat (drop_bit 8 v), of_nat (drop_bit 16 v), of_nat (drop_bit 24 v)]"
    by (simp only: le_bytes.simps drop_bit_eq_div) (simp flip: div_mult2_eq)
  moreover have "Suc (Suc (Suc (Suc 0))) = 4" by simp
  ultimately show ?thesis by (simp only:)
qed

lemma read32_holds:
  assumes "holds m a (le_bytes 4 v)"
  shows "read32 m a = of_nat v"
proof (rule bit_word_eqI)
  fix n assume n: "n < LENGTH(32)"
  have m: "m a = of_nat v" "m (a + 1) = of_nat (drop_bit 8 v)" "m (a + 2) = of_nat (drop_bit 16 v)" "m (a + 3) = of_nat (drop_bit 24 v)"
    using assms by (simp_all add: le_bytes_4 add.assoc)
  have "n < 8 \<or> 8 \<le> n \<and> n < 16 \<or> 16 \<le> n \<and> n < 24 \<or> 24 \<le> n \<and> n < 32" using n by auto
  then show "bit (read32 m a) n = bit (of_nat v :: u32) n"
    using n by (elim disjE) (auto simp: read32_def m bit_simps)
qed

lemma read64_holds:
  assumes "holds m a (le_bytes 8 v)"
  shows "read64 m a = of_nat v"
proof -
  have "le_bytes 8 v = le_bytes 4 v @ le_bytes 4 (v div 256 ^ 4)" using le_bytes_add [of 4 4 v] by simp
  then have r: "read32 m a = of_nat v" "read32 m (a + 4) = of_nat (drop_bit 32 v)"
    using assms by (simp_all add: holds_append read32_holds drop_bit_eq_div)
  show ?thesis
  proof (rule bit_word_eqI)
    fix n assume "n < LENGTH(64)"
    then show "bit (read64 m a) n = bit (of_nat v :: u64) n"
      by (cases "n < 32") (auto simp: read64_def r bit_simps)
  qed
qed
lemma usable_at_simps [simp]:
  "usable_at a [] old = old"
  "usable_at a (e # es) old = usable_at a es (if e_type e = 1 \<and> e_addr e = a then ucast (e_len e) else old)"
  by (simp_all add: usable_at_def Let_def)

lemma usable_at_append: "usable_at a (xs @ ys) old = usable_at a ys (usable_at a xs old)"
  by (induction xs arbitrary: old) auto

lemma forR_total:
  "forR 0 (int n) (\<lambda>i s. Inr (f i s)) s = Inr (fold (\<lambda>i. f (int i)) [0..<n] s)"
proof -
  have "k \<le> n \<Longrightarrow> forR (int k) (int n) (\<lambda>i s. Inr (f i s)) s = Inr (fold (\<lambda>i. f (int i)) [k..<n] s)" for k s
  proof (induction "n - k" arbitrary: k s)
    case (Suc d)
    have "forR (int k + 1) (int n) (\<lambda>i s. Inr (f i s)) t = Inr (fold (\<lambda>i. f (int i)) [Suc k..<n] t)" for t
      using Suc.hyps(1) [of "Suc k" t] Suc.hyps(2) by (simp add: add.commute)
    then show ?case using Suc.hyps(2) by (simp add: forR_step upt_conv_Cons)
  qed simp
  from this [of 0 s] show ?thesis by simp
qed

lemma mmap_entry_at_eq:
  "mmap_entry_at m tag (int i) = \<lparr>e_addr = read64 m (tag + of_nat (16 + 24 * i)),
     e_len = read64 m (tag + of_nat (24 + 24 * i)), e_type = read32 m (tag + of_nat (32 + 24 * i))\<rparr>"
  by (simp add: mmap_entry_at_def Let_def ac_simps)

lemma parse_tag_eq:
  assumes "read32 m tag = MULTIBOOT2_TAG_TYPE_MMAP \<Longrightarrow> read32 m (tag + 8) \<noteq> 0"
  shows "parse_tag m tag s = Inr (fold mmap_step (tag_entries m tag) s)"
proof (cases "read32 m tag = MULTIBOOT2_TAG_TYPE_MMAP")
  case True
  let ?n = "(read32 m (tag + 4) - 16) div read32 m (tag + 8)"
  have "uint ?n = int (unat ?n)" by simp
  then have "forR 0 (uint ?n) (\<lambda>i s. Inr (mmap_step (mmap_entry_at m tag i) s)) s =
      Inr (fold (\<lambda>i. mmap_step (mmap_entry_at m tag (int i))) [0..<unat ?n] s)"
    using forR_total [of "unat ?n" "\<lambda>i. mmap_step (mmap_entry_at m tag i)" s] by (simp only:)
  then show ?thesis
    using True assms by (simp add: parse_tag_def tag_entries_def fold_map comp_def mmap_entry_at_eq)
qed (simp add: parse_tag_def tag_entries_def)

lemma tag_stride_eq: "tag_stride sz = of_nat (8 * ((unat sz + 7) div 8))"
proof -
  have "(of_nat n :: u32) AND NOT 7 = of_nat (push_bit 3 (drop_bit 3 n))" for n
  proof -
    have seven: "7 = (mask 3 :: u32)" by (simp add: mask_eq_exp_minus_1)
    show ?thesis unfolding seven by (intro bit_word_eqI) (auto simp: bit_simps)
  qed
  from this [of "unat sz + 7"] show ?thesis by (simp add: tag_stride_def push_bit_eq_mult drop_bit_eq_div mult.commute)
qed

lemma parse_tags_eq:
  "tag_chain m a ts \<Longrightarrow> length ts < fuel \<Longrightarrow>
   parse_tags fuel m a s = Inr (fold mmap_step (concat (map (tag_entries m) ts)) s)"
proof (induction ts arbitrary: a fuel s)
  case Nil
  then show ?case by (cases fuel) auto
next
  case (Cons t ts)
  then obtain n where "fuel = Suc n" by (cases fuel) auto
  then show ?case using Cons by (simp add: parse_tag_eq tag_stride_eq)
qed

lemma length_entry_bytes [simp]: "length (entry_bytes e) = 24"
  by (simp add: entry_bytes_def)

lemma length_entries [simp]: "length (concat (map entry_bytes es)) = 24 * length es"
  by (induction es) simp_all

lemma holds_entry:
  assumes "holds m a (entry_bytes e)"
  shows "read64 m a = e_addr e" "read64 m (a + 8) = e_len e" "read32 m (a + 16) = e_type e"
  using assms by (auto simp: entry_bytes_def holds_append add.assoc dest!: read64_holds read32_holds)

lemma holds_entries:
  "holds m a (concat (map entry_bytes es)) \<Longrightarrow> i < length es \<Longrightarrow> holds m (a + of_nat (24 * i)) (entry_bytes (es ! i))"
proof (induction es arbitrary: a i)
  case (Cons e es)
  show ?case
  proof (cases i)
    case (Suc j)
    then show ?thesis using Cons.IH [of "a + 24" j] Cons.prems by (simp add: holds_append add.assoc)
  qed (use Cons.prems in \<open>simp add: holds_append\<close>)
qed simp

lemma holds_tag:
  assumes "tag_ok t" "holds m a (tag_bytes t)"
  shows "read32 m a \<noteq> 0" "unat (read32 m (a + 4)) = length (tag_bytes t)" "read32 m a = 6 \<longrightarrow> read32 m (a + 8) \<noteq> 0"
    "tag_entries m a = tag_map t"
proof -
  have "read32 m a \<noteq> 0 \<and> unat (read32 m (a + 4)) = length (tag_bytes t) \<and> (read32 m a = 6 \<longrightarrow> read32 m (a + 8) \<noteq> 0) \<and>
      tag_entries m a = tag_map t"
  proof (cases t)
    case (Memory_Map es)
    let ?n = "16 + 24 * length es"
    have r: "read32 m a = of_nat 6" "read32 m (a + 4) = of_nat ?n" "read32 m (a + 8) = of_nat 24"
        "holds m (a + 16) (concat (map entry_bytes es))"
      using assms(2) Memory_Map by (auto simp: holds_append add.assoc dest!: read32_holds)
    have n: "?n < 2 ^ 32" using assms(1) Memory_Map by simp
    then have u: "unat (read32 m (a + 4)) = ?n" unfolding r(2) by (rule unat_of_nat_u32)
    have "read32 m (a + 4) - 16 = of_nat (24 * length es)" unfolding r(2) by simp
    then have c: "unat ((read32 m (a + 4) - 16) div read32 m (a + 8)) = length es"
      using n by (simp add: r(3) unat_div unat_of_nat_u32 del: of_nat_mult)
    have "tag_entries m a = es"
    proof (rule nth_equalityI)
      show "length (tag_entries m a) = length es" using c r(1) by (simp add: tag_entries_def)
      fix i assume "i < length (tag_entries m a)"
      then have i: "i < length es" using c r(1) by (simp add: tag_entries_def)
      from holds_entry [OF holds_entries [OF r(4) this]] show "tag_entries m a ! i = es ! i"
        using i c r(1) by (cases "es ! i") (simp add: tag_entries_def ac_simps)
    qed
    then show ?thesis using u r(1,3) Memory_Map by simp
  next
    case (Other_Tag ty payload)
    have "read32 m a = of_nat (unat ty)" "read32 m (a + 4) = of_nat (8 + length payload)"
      using assms(2) Other_Tag by (auto simp: holds_append add.assoc dest!: read32_holds)
    then show ?thesis using assms(1) Other_Tag by (simp add: tag_entries_def unat_of_nat_u32 del: of_nat_add)
  qed
  then show "read32 m a \<noteq> 0" "unat (read32 m (a + 4)) = length (tag_bytes t)" "read32 m a = 6 \<longrightarrow> read32 m (a + 8) \<noteq> 0"
    "tag_entries m a = tag_map t" by auto
qed

lemma tag_bytes_nonempty [simp]: "tag_bytes t \<noteq> []"
  by (cases t) (simp_all add: le_bytes_4)

text \<open>What a loader writes is a chain of tags whose entries are those of its memory map.\<close>

lemma info_chain:
  "info_at m a ts \<Longrightarrow> \<exists>as. tag_chain m a as \<and> length as = length ts \<and>
     concat (map (tag_entries m) as) = concat (map tag_map ts)"
proof (induction ts arbitrary: a)
  case Nil
  then have "read32 m a = of_nat 0" by (auto simp: holds_append dest!: read32_holds)
  then show ?case by (intro exI [of _ "[]"]) simp
next
  case (Cons t ts)
  note h = holds_tag [of t m a]
  obtain as where "tag_chain m (a + of_nat (8 * ((length (tag_bytes t) + 7) div 8))) as" "length as = length ts"
      "concat (map (tag_entries m) as) = concat (map tag_map ts)"
    using Cons by auto
  moreover have "read32 m (a + 4) \<noteq> 0" using h(2) Cons.prems by (auto simp: word_unat_eq_iff)
  ultimately show ?case using Cons.prems h by (intro exI [of _ "a # as"]) simp
qed

lemma mmap_steps_lower:
  "multiboot2_memory_lower (fold mmap_step es s) = usable_at 0 es (multiboot2_memory_lower s)"
  by (induction es arbitrary: s) (auto simp: mmap_step_def)

lemma mmap_steps_upper:
  "multiboot2_memory_upper (fold mmap_step es s) = usable_at 0x100000 es (multiboot2_memory_upper s)"
  by (induction es arbitrary: s) (auto simp: mmap_step_def)

lemma zero_stride: "unat sz \<ge> 0xFFFFFFF9 \<Longrightarrow> tag_stride sz = 0"
proof -
  assume "unat sz \<ge> 0xFFFFFFF9"
  moreover have "unat sz < 2 ^ 32" by (rule unat_u32_less)
  ultimately have "unat sz \<in> {0xFFFFFFF9, 0xFFFFFFFA, 0xFFFFFFFB, 0xFFFFFFFC, 0xFFFFFFFD, 0xFFFFFFFE, 0xFFFFFFFF}"
    by auto
  then have "sz \<in> {0xFFFFFFF9, 0xFFFFFFFA, 0xFFFFFFFB, 0xFFFFFFFC, 0xFFFFFFFD, 0xFFFFFFFE, 0xFFFFFFFF}"
    by (simp add: word_unat_eq_iff)
  then show ?thesis by (auto simp: tag_stride_def)
qed

text \<open>A memory with one map tag of one entry at 0x1000: 639 KB usable from address zero.\<close>

definition boot_mem :: mem where
  "boot_mem a = (if a = 0x1000 then 6 else if a = 0x1004 then 40 else if a = 0x1008 then 24
     else if a = 0x1019 then 0xFC else if a = 0x101A then 0x09 else if a = 0x1020 then 1 else 0)"

section \<open>Properties\<close>

text \<open>
  C32. The parser reads what a Multiboot2 loader writes. Let the memory hold, from the address
  given, any list of tags in the format of the specification (memory maps of any number of entries, and
  other tags with any payload; a tag of type 0 ends the list). Then the parser
  ends within one step more than there are tags, and the two sizes
  are the low 32 bits of the length of the last usable entry (type 1) at address zero and at one megabyte over all maps, or as before
  when there is none. The address is that of the first tag, not of the header in front of it.
\<close>

theorem parse_multiboot2_correct:
  assumes "info_at m addr ts" "length ts < fuel"
  shows "\<exists>s'. parse_multiboot2 fuel m 0x36D76289 addr s = Inr s' \<and>
     multiboot2_memory_lower s' = usable_at 0 (concat (map tag_map ts)) (multiboot2_memory_lower s) \<and>
     multiboot2_memory_upper s' = usable_at 0x100000 (concat (map tag_map ts)) (multiboot2_memory_upper s)"
proof -
  obtain as where as: "tag_chain m addr as" "length as = length ts" "concat (map (tag_entries m) as) = concat (map tag_map ts)"
    using info_chain [OF assms(1)] by blast
  then have "parse_tags fuel m addr s = Inr (fold mmap_step (concat (map tag_map ts)) s)"
    using parse_tags_eq [OF as(1), of fuel s] assms(2) by simp
  then show ?thesis by (simp add: parse_multiboot2_def mmap_steps_lower mmap_steps_upper)
qed

text \<open>A loader's name in a tag of type 2, and a map of three entries, written at 0x9000.\<close>

definition example_tags :: "boot_tag list" where
  "example_tags =
     [Other_Tag 2 [0x47, 0x52, 0x55, 0x42, 0],
      Memory_Map [\<lparr>e_addr = 0, e_len = 0x9FC00, e_type = 1\<rparr>, \<lparr>e_addr = 0x9FC00, e_len = 0x400, e_type = 2\<rparr>,
        \<lparr>e_addr = 0x100000, e_len = 0x7EE0000, e_type = 1\<rparr>]]"

definition mem_of :: "u32 \<Rightarrow> u8 list \<Rightarrow> mem" where
  "mem_of base bs a = (let i = unat (a - base) in if i < length bs then bs ! i else 0)"

definition example_info :: mem where
  "example_info =
     mem_of 0x9000 (tag_bytes (example_tags ! 0) @ [0, 0, 0] @ tag_bytes (example_tags ! 1) @ le_bytes 4 0 @ le_bytes 4 8)"

lemma holds_iff: "holds m a bs \<longleftrightarrow> (\<forall>i < length bs. m (a + of_nat i) = bs ! i)"
  by (induction bs arbitrary: a) (simp_all add: All_less_Suc2 ac_simps)

lemma holds_mem_of: "length bs < 2 ^ 32 \<Longrightarrow> holds (mem_of base bs) base bs"
  by (simp add: holds_iff mem_of_def Let_def unat_of_nat_u32)

lemma example_info_at: "info_at example_info 0x9000 example_tags"
proof -
  have "holds example_info 0x9000
      (tag_bytes (example_tags ! 0) @ [0, 0, 0] @ tag_bytes (example_tags ! 1) @ le_bytes 4 0 @ le_bytes 4 8)"
    unfolding example_info_def by (rule holds_mem_of) (simp add: example_tags_def)
  then show ?thesis by (simp add: example_tags_def holds_append)
qed

theorem parse_multiboot2_correct_witness:
  "\<exists>s'. parse_multiboot2 3 example_info 0x36D76289 0x9000 machine_example = Inr s' \<and>
     multiboot2_memory_lower s' = usable_at 0 (concat (map tag_map example_tags)) (multiboot2_memory_lower machine_example) \<and>
     multiboot2_memory_upper s' = usable_at 0x100000 (concat (map tag_map example_tags)) (multiboot2_memory_upper machine_example)"
  by (rule parse_multiboot2_correct [OF example_info_at]) (simp add: example_tags_def)

text \<open>
  Given the address of the boot information as the boot loader passes it, the parser
  finds nothing: the structure starts with its total size and a reserved zero word, which
  the parser takes for a tag of size zero, and it stops there with both memory sizes
  unchanged.
\<close>

theorem parse_multiboot2_stops_at_header:
  assumes "read32 m (addr + 4) = 0"
  shows "parse_multiboot2 (Suc fuel) m magic addr s = Inr s"
  using assms by (simp add: parse_multiboot2_def)

theorem parse_multiboot2_stops_at_header_witness:
  "parse_multiboot2 (Suc 0) boot_mem 0x36D76289 0xFF8 machine_example = Inr machine_example"
  by (rule parse_multiboot2_stops_at_header) (simp add: read32_def boot_mem_def)

text \<open>
  A damaged tag makes the parser loop for ever: for a size of 0xFFFFFFF9 or more the
  rounded size wraps to zero and the walk stays at the same tag; no bound is enough.
\<close>

theorem parse_multiboot2_can_loop:
  assumes "read32 m addr \<notin> {0, MULTIBOOT2_TAG_TYPE_MMAP}" "0xFFFFFFF9 \<le> unat (read32 m (addr + 4))"
  shows "parse_multiboot2 fuel m 0x36D76289 addr s = Inl No_Fuel"
proof -
  have "read32 m (addr + 4) \<noteq> 0" using assms(2) by (intro notI) simp
  then have "parse_tags fuel m addr s = Inl No_Fuel" for s :: "'a machine_state_scheme"
    using assms zero_stride [OF assms(2)] by (induction fuel) (simp_all add: parse_tag_def)
  then show ?thesis by (simp add: parse_multiboot2_def)
qed

theorem parse_multiboot2_can_loop_witness:
  "parse_multiboot2 1000 (\<lambda>a. 0xFF) 0x36D76289 0x1000 machine_example = Inl No_Fuel"
  by (rule parse_multiboot2_can_loop) (simp_all add: read32_def)

end
