(* ===== verification/Mouse.thy ===== *)
theory Mouse
  imports Larch_Prelude
begin

text \<open>
  The PS/2 mouse, \<^verbatim>\<open>kernel/drivers/ps2_mouse.c\<close>: bounded polling of the controller and the
  interrupt handler, a three-state machine that assembles packets and moves a clamped
  position.
\<close>

section \<open>Operations\<close>

record mouse_state = io_state +
  mouse_x :: int
  mouse_y :: int
  mouse_buttons :: int
  mouse_cycle :: int
  mouse_packet :: "u8 list"

text \<open>\<open>while (timeout--) { read status; if (ready status) return; }\<close>\<close>

fun mouse_poll :: "(u8 \<Rightarrow> bool) \<Rightarrow> nat \<Rightarrow> 'a io_state_scheme \<Rightarrow> 'a io_state_scheme res" where
  "mouse_poll ready 0 s = Inr s"
| "mouse_poll ready (Suc timeout) s =
     bindR (inb 0x64 s) (\<lambda>(status, s). if ready status then Inr s else mouse_poll ready timeout s)"

definition mouse_wait :: "u8 \<Rightarrow> 'a io_state_scheme \<Rightarrow> 'a io_state_scheme res" where
  "mouse_wait type s =
     (if type = 0 then mouse_poll (\<lambda>status. status AND 1 = 1) 100000 s
      else mouse_poll (\<lambda>status. status AND 2 = 0) 100000 s)"

definition mouse_write :: "u8 \<Rightarrow> 'a io_state_scheme \<Rightarrow> 'a io_state_scheme res" where
  "mouse_write value s =
     bindR (mouse_wait 1 s) (\<lambda>s.
     bindR (mouse_wait 1 (outb 0x64 0xD4 s)) (\<lambda>s.
     Inr (outb 0x60 value s)))"

definition mouse_read :: "'a io_state_scheme \<Rightarrow> (u8 \<times> 'a io_state_scheme) res" where
  "mouse_read s = bindR (mouse_wait 0 s) (inb 0x60)"

definition mouse_init :: "'a io_state_scheme \<Rightarrow> 'a io_state_scheme res" where
  "mouse_init s = bindR (mouse_write 0xF4 s) (\<lambda>s. bindR (mouse_read s) (\<lambda>(v, s). Inr s))"

definition mouse_store :: "int \<Rightarrow> u8 \<Rightarrow> 'a mouse_state_scheme \<Rightarrow> 'a mouse_state_scheme res" where
  "mouse_store i v s = bindR (buf_write (mouse_packet s) i v) (\<lambda>p. Inr (s\<lparr>mouse_packet := p\<rparr>))"

text \<open>The end of a packet: buttons, movement and the four clamping conditions.\<close>

definition mouse_move :: "'a mouse_state_scheme \<Rightarrow> 'a mouse_state_scheme res" where
  "mouse_move s =
     bindR (buf_read (mouse_packet s) 0) (\<lambda>p0.
     bindR (buf_read (mouse_packet s) 1) (\<lambda>p1.
     bindR (buf_read (mouse_packet s) 2) (\<lambda>p2.
     let s = s\<lparr>mouse_buttons := uint (p0 AND 0x07)\<rparr>;
         s = s\<lparr>mouse_x := mouse_x s + sint p1\<rparr>;
         s = s\<lparr>mouse_y := mouse_y s - sint p2\<rparr>;
         s = (if mouse_x s < 0 then s\<lparr>mouse_x := 0\<rparr> else s);
         s = (if mouse_y s < 0 then s\<lparr>mouse_y := 0\<rparr> else s);
         s = (if mouse_x s > 1024 then s\<lparr>mouse_x := 1024\<rparr> else s);
         s = (if mouse_y s > 768 then s\<lparr>mouse_y := 768\<rparr> else s) in
     Inr s)))"

definition mouse_byte :: "u8 \<Rightarrow> 'a mouse_state_scheme \<Rightarrow> 'a mouse_state_scheme res" where
  "mouse_byte data s =
     (if mouse_cycle s = 0
      then bindR (mouse_store 0 data s) (\<lambda>s.
           if data AND 0x08 = 0 then Inr s else Inr (s\<lparr>mouse_cycle := 1\<rparr>))
      else if mouse_cycle s = 1
      then bindR (mouse_store 1 data s) (\<lambda>s. Inr (s\<lparr>mouse_cycle := 2\<rparr>))
      else bindR (mouse_store 2 data s) (\<lambda>s. mouse_move (s\<lparr>mouse_cycle := 0\<rparr>)))"

definition mouse_handler :: "'a mouse_state_scheme \<Rightarrow> 'a mouse_state_scheme res" where
  "mouse_handler s =
     bindR (inb 0x64 s) (\<lambda>(status, s).
     if status AND 0x20 = 0 then Inr s
     else bindR (mouse_read s) (\<lambda>(data, s). mouse_byte data s))"

section \<open>Polling\<close>

lemma inb_mouse_fields:
  fixes s :: "'a mouse_state_scheme"
  assumes "inb p s = Inr (v, t)"
  shows "mouse_x t = mouse_x s" "mouse_y t = mouse_y s" "mouse_cycle t = mouse_cycle s"
    "mouse_packet t = mouse_packet s" "mouse_buttons t = mouse_buttons s" "length (ins t) < length (ins s)"
  using assms by (auto simp: inb_def split: list.splits)

text \<open>Polling only reads the port: it returns, or the environment has no answer left.\<close>

definition polled :: "'a mouse_state_scheme \<Rightarrow> 'a mouse_state_scheme \<Rightarrow> bool" where
  "polled s t \<longleftrightarrow> mouse_x t = mouse_x s \<and> mouse_y t = mouse_y s \<and> mouse_cycle t = mouse_cycle s \<and>
     mouse_packet t = mouse_packet s \<and> mouse_buttons t = mouse_buttons s"

lemma inb_polled: "safe (inb p s) (\<lambda>(v, t). polled s t)"
  by (cases "ins s") (auto simp: inb_def polled_def)

lemma polled_trans: "polled s t \<Longrightarrow> polled t u \<Longrightarrow> polled s u"
  by (simp add: polled_def)

lemma mouse_poll_hit:
  "0 < n \<Longrightarrow> ins s = v # vs \<Longrightarrow> ready v \<Longrightarrow>
   mouse_poll ready n s = Inr (s\<lparr>ins := vs, io_log := io_log s @ [In 0x64 v]\<rparr>)"
  by (cases n) (simp_all add: inb_Cons)

lemma mouse_poll_polled: "safe (mouse_poll ready n s) (polled s)"
proof (induction n arbitrary: s)
  case 0
  then show ?case by (simp add: polled_def)
next
  case (Suc n)
  have "safe (if ready v then Inr t else mouse_poll ready n t) (polled s)" if "polled s t" for v t
    using that safe_weaken [OF Suc.IH [of t] polled_trans [OF that]] by simp
  then show ?case by (auto intro!: safe_bind_pair [OF inb_polled])
qed

lemma mouse_read_polled: "safe (mouse_read s) (\<lambda>(v, t). polled s t)"
proof -
  have "safe (mouse_wait 0 s) (polled s)" by (simp add: mouse_wait_def mouse_poll_polled)
  then show ?thesis
    unfolding mouse_read_def
    by (rule safe_bindR) (rule safe_weaken [OF inb_polled], auto intro: polled_trans)
qed

section \<open>The packet machine\<close>

definition mouse_wf :: "'a mouse_state_scheme \<Rightarrow> bool" where
  "mouse_wf s \<longleftrightarrow> 0 \<le> mouse_x s \<and> mouse_x s \<le> 1024 \<and> 0 \<le> mouse_y s \<and> mouse_y s \<le> 768 \<and>
     mouse_cycle s \<in> {0, 1, 2} \<and> length (mouse_packet s) = 3"

definition clamp :: "int \<Rightarrow> int \<Rightarrow> int" where
  "clamp hi v = max 0 (min hi v)"

lemma mouse_move_eq:
  assumes "mouse_packet s = [p0, p1, p2]"
  shows "mouse_move s = Inr (s\<lparr>mouse_buttons := uint (p0 AND 0x07),
     mouse_x := clamp 1024 (mouse_x s + sint p1), mouse_y := clamp 768 (mouse_y s - sint p2)\<rparr>)"
  using assms by (simp add: mouse_move_def buf_read_def Let_def clamp_def max_def min_def)

lemma packet3:
  assumes "mouse_wf s"
  obtains p0 p1 p2 where "mouse_packet s = [p0, p1, p2]"
proof -
  have "length (mouse_packet s) = Suc (Suc (Suc 0))" using assms by (simp add: mouse_wf_def)
  then show ?thesis using that by (auto simp: length_Suc_conv)
qed

lemma mouse_byte_eq:
  assumes "mouse_wf s"
  shows "mouse_byte data s = Inr
    (if mouse_cycle s = 0 then s\<lparr>mouse_packet := (mouse_packet s)[0 := data], mouse_cycle := (if data AND 0x08 = 0 then 0 else 1)\<rparr>
     else if mouse_cycle s = 1 then s\<lparr>mouse_packet := (mouse_packet s)[1 := data], mouse_cycle := 2\<rparr>
     else s\<lparr>mouse_packet := (mouse_packet s)[2 := data], mouse_cycle := 0,
            mouse_buttons := uint (mouse_packet s ! 0 AND 0x07),
            mouse_x := clamp 1024 (mouse_x s + sint (mouse_packet s ! 1)),
            mouse_y := clamp 768 (mouse_y s - sint data)\<rparr>)"
proof -
  obtain p0 p1 p2 where p: "mouse_packet s = [p0, p1, p2]" using assms by (rule packet3)
  show ?thesis
    using assms p by (auto simp: mouse_byte_def mouse_store_def buf_write_def mouse_move_eq mouse_wf_def)
qed

lemma clamp_range: "0 \<le> hi \<Longrightarrow> 0 \<le> clamp hi v \<and> clamp hi v \<le> hi"
  by (simp add: clamp_def)

lemma mouse_byte_wf: "mouse_wf s \<Longrightarrow> succeeds (mouse_byte data s) mouse_wf"
  using clamp_range [of 1024] clamp_range [of 768] by (auto simp: mouse_byte_eq) (auto simp: mouse_wf_def)

text \<open>Delivering the bytes of an interrupt: status with the mouse bit, ready bit, data.\<close>

lemma mouse_handler_byte:
  assumes "ins s = status # ready # data # rest" "status AND 0x20 \<noteq> 0" "ready AND 1 = 1"
  shows "mouse_handler s = mouse_byte data (s\<lparr>ins := rest, io_log := io_log s @ [In 0x64 status, In 0x64 ready, In 0x60 data]\<rparr>)"
  using assms by (simp add: mouse_handler_def mouse_read_def mouse_wait_def mouse_poll_hit inb_def)

lemma mouse_handler_safe:
  assumes "mouse_wf s"
  shows "safe (mouse_handler s) mouse_wf"
proof -
  have k: "mouse_wf t" if "polled s t" for t using that assms by (simp add: polled_def mouse_wf_def)
  have "safe (bindR (mouse_read t) (\<lambda>(data, s). mouse_byte data s)) mouse_wf" if "polled s t" for t
    by (rule safe_bind_pair [OF mouse_read_polled [of t]])
       (use that k polled_trans in \<open>blast intro: succeeds_safe [OF mouse_byte_wf]\<close>)
  then show ?thesis
    unfolding mouse_handler_def by (auto intro!: safe_bind_pair [OF inb_polled] k)
qed

definition mouse_example :: mouse_state where
  "mouse_example = \<lparr>ins = [0x21, 0x21, 0x09], io_log = [], mouse_x = 0, mouse_y = 0, mouse_buttons = 0,
     mouse_cycle = 0, mouse_packet = [0, 0, 0]\<rparr>"

section \<open>Properties\<close>

text \<open>
  The mouse position never leaves the screen: from a well-formed state every
  interrupt, whatever the controller answers, keeps \<open>0 \<le> x \<le> 1024\<close>, \<open>0 \<le> y \<le> 768\<close>, a valid
  packet state and the packet array in bounds, or waits for the controller.
\<close>

theorem mouse_handler_in_bounds:
  assumes "mouse_wf s"
  shows "safe (mouse_handler s) mouse_wf"
  using assms by (rule mouse_handler_safe)

theorem mouse_handler_in_bounds_witness: "safe (mouse_handler mouse_example) mouse_wf"
  by (rule mouse_handler_in_bounds) (simp add: mouse_wf_def mouse_example_def)

text \<open>
  C39. A packet moves the pointer: let the driver be at the start of a packet cycle, its pointer on the screen, and the controller
  announce a byte of the mouse to each of three calls of \<open>mouse_handler\<close>, the first with its synchronisation bit set. The calls add the signed horizontal movement, subtract the
  signed vertical one, keep both within 0 to 1024 and 0 to 768, take over the three button bits and return to the
  start of the packet cycle, having read exactly the bytes of the packet and the status in front of each.
\<close>

theorem mouse_packet_moves:
  assumes "mouse_wf s" "mouse_cycle s = 0" "b0 AND 0x08 \<noteq> 0"
    and "ins s = concat (map (\<lambda>b. [st, rd, b]) [b0, b1, b2]) @ rest" "st AND 0x20 \<noteq> 0" "rd AND 1 = 1"
  shows "\<exists>t. foldR (\<lambda>_. mouse_handler) [0 :: nat, 1, 2] s = Inr t \<and> mouse_wf t \<and> mouse_cycle t = 0 \<and>
     mouse_x t = clamp 1024 (mouse_x s + sint b1) \<and> mouse_y t = clamp 768 (mouse_y s - sint b2) \<and>
     mouse_buttons t = uint (b0 AND 0x07) \<and> ins t = rest"
proof -
  obtain p0 p1 p2 where p: "mouse_packet s = [p0, p1, p2]" using assms(1) by (rule packet3)
  note wf = assms(1) [unfolded mouse_wf_def]
  let ?s1 = "s\<lparr>ins := concat (map (\<lambda>b. [st, rd, b]) [b1, b2]) @ rest,
      io_log := io_log s @ [In 0x64 st, In 0x64 rd, In 0x60 b0], mouse_packet := [b0, p1, p2], mouse_cycle := 1\<rparr>"
  let ?s2 = "?s1\<lparr>ins := [st, rd, b2] @ rest,
      io_log := io_log ?s1 @ [In 0x64 st, In 0x64 rd, In 0x60 b1], mouse_packet := [b0, b1, p2], mouse_cycle := 2\<rparr>"
  have h1: "mouse_handler s = Inr ?s1"
    using mouse_handler_byte [of s st rd b0] assms(2-6) p wf
    by (simp add: mouse_byte_eq mouse_wf_def)
  have h2: "mouse_handler ?s1 = Inr ?s2"
    using mouse_handler_byte [of ?s1 st rd b1] wf assms(5,6) by (simp add: mouse_byte_eq mouse_wf_def)
  have "\<exists>t. mouse_handler ?s2 = Inr t \<and> mouse_wf t \<and> mouse_cycle t = 0 \<and>
     mouse_x t = clamp 1024 (mouse_x s + sint b1) \<and> mouse_y t = clamp 768 (mouse_y s - sint b2) \<and>
     mouse_buttons t = uint (b0 AND 0x07) \<and> ins t = rest"
    using mouse_handler_byte [of ?s2 st rd b2 rest] wf assms(5,6)
      clamp_range [of 1024 "mouse_x s + sint b1"] clamp_range [of 768 "mouse_y s - sint b2"]
    by (simp add: mouse_byte_eq mouse_wf_def)
  then show ?thesis using h1 h2 by simp
qed

theorem mouse_packet_moves_witness:
  "let s = mouse_example\<lparr>ins := [0x21, 0x21, 0x09, 0x21, 0x21, 5, 0x21, 0x21, 0xFD]\<rparr> in
   \<exists>t. foldR (\<lambda>_. mouse_handler) [0 :: nat, 1, 2] s = Inr t \<and> mouse_wf t \<and> mouse_cycle t = 0 \<and>
     mouse_x t = clamp 1024 (mouse_x s + sint (5 :: u8)) \<and> mouse_y t = clamp 768 (mouse_y s - sint (0xFD :: u8)) \<and>
     mouse_buttons t = uint ((0x09 :: u8) AND 0x07) \<and> ins t = []"
  unfolding Let_def
  by (rule mouse_packet_moves [where st = "0x21" and rd = "0x21"]) (simp_all add: mouse_wf_def mouse_example_def)

end
