(* ===== verification/Serial.thy ===== *)
theory Serial
  imports Larch_Prelude
begin

text \<open>
  The serial port, \<^verbatim>\<open>kernel/drivers/serial.c\<close>. The status polls have no timeout; every
  poll consumes an answer of the device, which is what makes the loops recursive over the
  answers.
\<close>

section \<open>Operations\<close>

abbreviation COM1 :: u16 where "COM1 \<equiv> 0x3F8"

definition serial_received :: "'a io_state_scheme \<Rightarrow> (u8 \<times> 'a io_state_scheme) res" where
  "serial_received s = bindR (inb (COM1 + 5) s) (\<lambda>(v, s). Inr (v AND 1, s))"

definition is_transmit_empty :: "'a io_state_scheme \<Rightarrow> (u8 \<times> 'a io_state_scheme) res" where
  "is_transmit_empty s = bindR (inb (COM1 + 5) s) (\<lambda>(v, s). Inr (v AND 0x20, s))"

text \<open>\<open>while (status() == 0);\<close>\<close>

fun poll_until :: "nat \<Rightarrow> ('a io_state_scheme \<Rightarrow> (u8 \<times> 'a io_state_scheme) res) \<Rightarrow> 'a io_state_scheme \<Rightarrow> 'a io_state_scheme res" where
  "poll_until 0 status s = Inl No_Fuel"
| "poll_until (Suc n) status s =
     bindR (status s) (\<lambda>(v, s). if v = 0 then poll_until n status s else Inr s)"

definition read_serial :: "'a io_state_scheme \<Rightarrow> (u8 \<times> 'a io_state_scheme) res" where
  "read_serial s = bindR (poll_until (Suc (length (ins s))) serial_received s) (inb COM1)"

definition write_serial :: "u8 \<Rightarrow> 'a io_state_scheme \<Rightarrow> 'a io_state_scheme res" where
  "write_serial a s =
     bindR (poll_until (Suc (length (ins s))) is_transmit_empty s) (\<lambda>s. Inr (outb COM1 a s))"

definition serial_init :: "'a io_state_scheme \<Rightarrow> 'a io_state_scheme" where
  "serial_init s =
     outb (COM1 + 4) 0x0B (outb (COM1 + 2) 0xC7 (outb (COM1 + 3) 0x03 (outb (COM1 + 1) 0x00
       (outb (COM1 + 0) 0x03 (outb (COM1 + 3) 0x80 (outb (COM1 + 1) 0x00 s))))))"

fun serial_write_string :: "u8 list \<Rightarrow> 'a io_state_scheme \<Rightarrow> 'a io_state_scheme res" where
  "serial_write_string [] s = Inl Out_Of_Bounds"
| "serial_write_string (c # str) s =
     (if c \<noteq> 0 then bindR (write_serial c s) (serial_write_string str) else Inr s)"

section \<open>Polling\<close>

text \<open>The bound is enough: with no answer left the poll blocks before the bound runs out.\<close>

lemma poll_transmit_bound:
  "length (ins s) < n \<Longrightarrow> safe (poll_until n is_transmit_empty s) (\<lambda>t. True)"
proof (induction n arbitrary: s)
  case (Suc n)
  then show ?case by (cases "ins s") (auto simp: is_transmit_empty_def inb_def)
qed simp

lemma poll_transmit:
  assumes "\<forall>b \<in> set busy. b AND 0x20 = 0" "ready AND 0x20 \<noteq> 0" "ins s = busy @ ready # rest" "length busy < n"
  shows "poll_until n is_transmit_empty s =
     Inr (s\<lparr>ins := rest, io_log := io_log s @ map (In (COM1 + 5)) (busy @ [ready])\<rparr>)"
  using assms
proof (induction busy arbitrary: s n)
  case Nil
  then show ?case by (cases n) (simp_all add: is_transmit_empty_def inb_Cons)
next
  case (Cons b busy)
  then obtain k where n: "n = Suc k" by (cases n) auto
  with Cons show ?case by (simp add: is_transmit_empty_def inb_Cons)
qed

lemma write_serial_sends:
  assumes "\<forall>b \<in> set busy. b AND 0x20 = 0" "ready AND 0x20 \<noteq> 0" "ins s = busy @ ready # rest"
  shows "write_serial a s =
     Inr (s\<lparr>ins := rest, io_log := io_log s @ map (In (COM1 + 5)) (busy @ [ready]) @ [Out COM1 a]\<rparr>)"
  using poll_transmit [OF assms, of "Suc (length (ins s))"] assms(3)
  by (simp add: write_serial_def outb_def)

text \<open>The bytes written to ports, without the polls.\<close>

definition sent :: "io_event list \<Rightarrow> io_event list" where
  "sent log = filter (\<lambda>e. \<exists>p v. e = Out p v) log"

lemma sent_append [simp]: "sent (xs @ ys) = sent xs @ sent ys"
  by (simp add: sent_def)

lemma sent_polls [simp]: "sent (map (In p) vs) = []"
  by (simp add: sent_def filter_empty_conv)

lemma sent_out [simp]:
  "sent [] = []" "sent (Out p v # es) = Out p v # sent es" "sent (In p v # es) = sent es"
  by (simp_all add: sent_def)

lemma write_string_sends:
  assumes "\<forall>w \<in> set pauses. (\<forall>b \<in> set w. b AND 0x20 = 0)" "terminated str"
    and "length pauses = length (cstring str)" "ins s = concat (map (\<lambda>w. w @ [0x20]) pauses) @ rest"
  shows "\<exists>t. serial_write_string str s = Inr t \<and> ins t = rest \<and>
     sent (io_log t) = sent (io_log s) @ map (Out COM1) (cstring str)"
  using assms
proof (induction str arbitrary: s pauses)
  case (Cons c str)
  show ?case
  proof (cases "c = 0")
    case False
    then obtain w ws where w: "pauses = w # ws" using Cons.prems(3) by (cases pauses) auto
    have step: "write_serial c s = Inr (s\<lparr>ins := concat (map (\<lambda>w. w @ [0x20]) ws) @ rest,
        io_log := io_log s @ map (In (COM1 + 5)) (w @ [0x20]) @ [Out COM1 c]\<rparr>)"
      using Cons.prems w by (intro write_serial_sends) auto
    show ?thesis
      using Cons.IH [of ws "s\<lparr>ins := concat (map (\<lambda>w. w @ [0x20]) ws) @ rest,
        io_log := io_log s @ map (In (COM1 + 5)) (w @ [0x20]) @ [Out COM1 c]\<rparr>"] Cons.prems False w step
      by simp
  qed (use Cons.prems in simp)
qed simp

section \<open>Properties\<close>

text \<open>
  The serial port sends exactly the string: whenever the device reports a free
  transmitter after finitely many busy answers for each character, \<open>serial_write_string\<close>
  returns, having written the characters of the string to the data port in order and
  nothing else.
\<close>

theorem serial_sends_string:
  assumes "\<forall>w \<in> set pauses. (\<forall>b \<in> set w. b AND 0x20 = 0)" "terminated str"
    and "length pauses = length (cstring str)" "ins s = concat (map (\<lambda>w. w @ [0x20]) pauses) @ rest"
  shows "\<exists>t. serial_write_string str s = Inr t \<and> ins t = rest \<and>
     sent (io_log t) = sent (io_log s) @ map (Out COM1) (cstring str)"
  using assms by (rule write_string_sends)

theorem serial_sends_string_witness:
  "\<exists>t. serial_write_string (cstr ''ok'') \<lparr>ins = [0x00, 0x20, 0x20], io_log = []\<rparr> = Inr t \<and> ins t = [] \<and>
     sent (io_log t) = sent (io_log \<lparr>ins = [0x00, 0x20, 0x20], io_log = []\<rparr>) @ map (Out COM1) (cstring (cstr ''ok''))"
  by (rule serial_sends_string [where pauses = "[[0], []]"]) (simp_all add: cstring_cstr)

end
