(* ===== verification/Vga_Legacy.thy ===== *)
theory Vga_Legacy
  imports Vga
begin

text \<open>
  The older text driver \<^verbatim>\<open>kernel/drivers/vga.c\<close>, which the build does not link: it has no
  scrolling and starts again at the top.
\<close>

section \<open>Operations\<close>

record legacy_vga =
  lv_buffer :: "u16 list"
  lv_x :: int
  lv_y :: int

definition vga_color :: "u8 \<Rightarrow> u8 \<Rightarrow> u8" where
  "vga_color fg bg = push_bit 4 bg OR fg"

text \<open>\<open>(uint16_t)c | ((uint16_t)color << 8)\<close>; the \<open>char\<close> is converted with its sign.\<close>

definition legacy_cell :: "u8 \<Rightarrow> u8 \<Rightarrow> u16" where
  "legacy_cell c color = scast c OR push_bit 8 (ucast color)"

definition legacy_putchar :: "u8 \<Rightarrow> u8 \<Rightarrow> legacy_vga \<Rightarrow> legacy_vga res" where
  "legacy_putchar c color s =
     bindR (if c = 10 then Inr (s\<lparr>lv_x := 0, lv_y := lv_y s + 1\<rparr>)
            else bindR (buf_write (lv_buffer s) (lv_y s * 80 + lv_x s) (legacy_cell c color)) (\<lambda>b.
                 Inr (s\<lparr>lv_buffer := b, lv_x := lv_x s + 1\<rparr>))) (\<lambda>s.
     let s = (if lv_x s \<ge> 80 then s\<lparr>lv_x := 0, lv_y := lv_y s + 1\<rparr> else s);
         s = (if lv_y s \<ge> 25 then s\<lparr>lv_y := 0\<rparr> else s) in
     Inr s)"

fun vga_write :: "u8 list \<Rightarrow> u8 \<Rightarrow> legacy_vga \<Rightarrow> legacy_vga res" where
  "vga_write [] color s = Inl Out_Of_Bounds"
| "vga_write (c # str) color s =
     (if c \<noteq> 0 then bindR (legacy_putchar c color s) (vga_write str color) else Inr s)"

section \<open>The cursor is a counter modulo 2000\<close>

definition lv_wf :: "legacy_vga \<Rightarrow> bool" where
  "lv_wf s \<longleftrightarrow> length (lv_buffer s) = 2000 \<and> 0 \<le> lv_x s \<and> lv_x s < 80 \<and> 0 \<le> lv_y s \<and> lv_y s < 25"

definition lv_pos :: "legacy_vga \<Rightarrow> nat" where
  "lv_pos s = nat (lv_y s * 80 + lv_x s)"

definition lv_advance :: "u8 \<Rightarrow> nat \<Rightarrow> nat" where
  "lv_advance c p = (if c = 10 then (p div 80 + 1) * 80 else p + 1) mod 2000"

lemma lv_pos_wf: "lv_wf s \<Longrightarrow> lv_pos s < 2000 \<and> lv_pos s div 80 = nat (lv_y s) \<and> int (lv_pos s) = lv_y s * 80 + lv_x s"
proof -
  assume a: "lv_wf s"
  then have "lv_pos s = nat (lv_y s) * 80 + nat (lv_x s)" "nat (lv_x s) < 80" "nat (lv_y s) < 25"
    by (auto simp: lv_wf_def lv_pos_def nat_add_distrib nat_mult_distrib)
  with a show ?thesis by (auto simp: lv_wf_def)
qed

text \<open>The position behind a glyph: the next column, the next row, or the top.\<close>

lemma lv_glyph_position:
  assumes "lv_wf s"
  defines "t \<equiv> if lv_x s + 1 \<ge> 80 then (0, lv_y s + 1) else (lv_x s + 1, lv_y s)"
  shows "nat ((if snd t \<ge> 25 then 0 else snd t) * 80 + fst t) = Suc (lv_pos s) mod 2000"
proof -
  have p: "lv_pos s < 2000" "int (lv_pos s) = lv_y s * 80 + lv_x s" using lv_pos_wf [OF assms(1)] by auto
  have "lv_x s < 79 \<or> lv_x s = 79" "lv_y s < 24 \<or> lv_y s = 24" using assms(1) by (auto simp: lv_wf_def)
  then consider "lv_x s < 79 \<or> lv_y s < 24" | "lv_x s = 79" "lv_y s = 24" by blast
  then show ?thesis
  proof cases
    case 1
    then have "Suc (lv_pos s) < 2000" using assms(1) p by (auto simp: lv_wf_def)
    then show ?thesis using 1 p assms(1) by (auto simp: lv_wf_def t_def)
  next
    case 2
    then have "lv_pos s = 1999" using p by linarith
    then show ?thesis using 2 by (simp add: t_def)
  qed
qed

lemma legacy_putchar_ok:
  assumes "lv_wf s"
  shows "succeeds (legacy_putchar c color s) (\<lambda>t. lv_wf t \<and> lv_pos t = lv_advance c (lv_pos s) \<and>
     lv_buffer t = (if c = 10 then lv_buffer s else (lv_buffer s)[lv_pos s := legacy_cell c color]))"
proof -
  have i: "0 \<le> lv_y s * 80 + lv_x s" "lv_y s * 80 + lv_x s < int (length (lv_buffer s))"
    using assms by (auto simp: lv_wf_def)
  show ?thesis
  proof (cases "c = 10")
    case True
    have "lv_y s = 24 \<or> lv_y s < 24" "0 \<le> lv_y s" using assms by (auto simp: lv_wf_def)
    then show ?thesis
    proof (elim disjE)
      assume "lv_y s = 24"
      then show ?thesis
        using True assms lv_pos_wf [OF assms] by (simp add: legacy_putchar_def lv_wf_def lv_advance_def Let_def) (simp add: lv_pos_def)
    next
      assume y24: "lv_y s < 24"
      then have "nat (lv_y s + 1) * 80 < 2000" "nat ((lv_y s + 1) * 80) = (nat (lv_y s) + 1) * 80"
        using assms by (auto simp: lv_wf_def nat_mult_distrib nat_add_distrib)
      then show ?thesis
        using True y24 assms lv_pos_wf [OF assms]
        by (simp add: legacy_putchar_def lv_wf_def lv_advance_def Let_def) (simp add: lv_pos_def nat_add_distrib)
    qed
  next
    case False
    have p: "lv_pos s < 2000" "int (lv_pos s) = lv_y s * 80 + lv_x s" using lv_pos_wf [OF assms] by auto
    let ?t = "if lv_x s + 1 \<ge> 80 then (0, lv_y s + 1) else (lv_x s + 1, lv_y s)"
    have "legacy_putchar c color s = Inr (s\<lparr>lv_buffer := (lv_buffer s)[lv_pos s := legacy_cell c color],
        lv_x := fst ?t, lv_y := (if snd ?t \<ge> 25 then 0 else snd ?t)\<rparr>)"
      using False i by (simp add: legacy_putchar_def buf_simps lv_pos_def Let_def)
    moreover have "nat ((if snd ?t \<ge> 25 then 0 else snd ?t) * 80 + fst ?t) = Suc (lv_pos s) mod 2000"
      by (rule lv_glyph_position [OF assms])
    ultimately show ?thesis
      using False assms by (auto simp: lv_wf_def lv_pos_def [of "_\<lparr>lv_y := _\<rparr>"] lv_advance_def)
  qed
qed

lemma vga_write_ok:
  assumes "lv_wf s" "terminated str"
  shows "succeeds (vga_write str color s) (\<lambda>t. lv_wf t \<and> lv_pos t = fold lv_advance (cstring str) (lv_pos s))"
  using assms
proof (induction str arbitrary: s)
  case (Cons c str)
  show ?case
  proof (cases "c = 0")
    case False
    obtain t where "legacy_putchar c color s = Inr t" "lv_wf t" "lv_pos t = lv_advance c (lv_pos s)"
      using legacy_putchar_ok [OF Cons.prems(1), of c color] by (auto elim!: succeedsE)
    then show ?thesis using Cons.IH [of t] Cons.prems False by simp
  qed (use Cons.prems in simp)
qed simp

definition legacy_blank :: legacy_vga where
  "legacy_blank = \<lparr>lv_buffer = replicate 2000 0, lv_x = 0, lv_y = 0\<rparr>"

section \<open>Properties\<close>

text \<open>
  The old driver stays on the screen and wraps to its top: writing a terminated
  string from a well-formed state returns, and the cursor has advanced cell by cell, or
  to the next row for a line break, modulo the 2000 cells of the screen.
\<close>

theorem legacy_write_wraps:
  assumes "lv_wf s" "terminated str"
  shows "\<exists>t. vga_write str color s = Inr t \<and> lv_wf t \<and> lv_pos t = fold lv_advance (cstring str) (lv_pos s)"
  using vga_write_ok [OF assms, of color] by (simp add: succeeds_iff)

theorem legacy_write_wraps_witness:
  "\<exists>t. vga_write (cstr ''hi'') 0x0F legacy_blank = Inr t \<and> lv_wf t \<and>
     lv_pos t = fold lv_advance (cstring (cstr ''hi'')) (lv_pos legacy_blank)"
  by (rule legacy_write_wraps) (simp_all add: lv_wf_def legacy_blank_def)

end
