(* ===== verification/Permissions.thy ===== *)
theory Permissions
  imports Larch_Prelude
begin

text \<open>
  File permissions, \<^verbatim>\<open>security/perm/permissions.c\<close>: owner, group and other bits of a mode
  word, with the superuser allowed everything.
\<close>

section \<open>Operations\<close>

record file_perms_t =
  fp_uid :: u32
  fp_gid :: u32
  fp_mode :: u16

record user_cred_t =
  uc_uid :: u32
  uc_gid :: u32
  uc_groups :: "u32 list"
  uc_group_count :: u8

abbreviation PERM_READ :: int where "PERM_READ \<equiv> 1"
abbreviation PERM_WRITE :: int where "PERM_WRITE \<equiv> 2"
abbreviation PERM_EXEC :: int where "PERM_EXEC \<equiv> 4"

text \<open>The search for the file's group, which stops at the first match.\<close>

function in_group_loop :: "u32 \<Rightarrow> user_cred_t \<Rightarrow> int \<Rightarrow> bool res" where
  "in_group_loop gid user i =
     (if i < uint (uc_group_count user)
      then bindR (buf_read (uc_groups user) i) (\<lambda>g.
           if g = gid then Inr True else in_group_loop gid user (i + 1))
      else Inr False)"
  by pat_completeness auto
termination
  by (relation "measure (\<lambda>(gid, user, i). nat (uint (uc_group_count user) - i))") auto

declare in_group_loop.simps [simp del]

definition check_permission :: "file_perms_t \<Rightarrow> user_cred_t \<Rightarrow> int \<Rightarrow> int res" where
  "check_permission file_p user access_type =
     (if uc_uid user = 0 then Inr 1
      else
        bindR (if uc_uid user = fp_uid file_p then Inr (drop_bit 6 (fp_mode file_p) AND 0x7)
               else bindR (in_group_loop (fp_gid file_p) user 0) (\<lambda>in_group.
                    Inr (if in_group then drop_bit 3 (fp_mode file_p) AND 0x7
                         else fp_mode file_p AND 0x7))) (\<lambda>perm.
        Inr (if access_type = PERM_READ \<and> perm AND 4 \<noteq> 0 then 1
             else if access_type = PERM_WRITE \<and> perm AND 2 \<noteq> 0 then 1
             else if access_type = PERM_EXEC \<and> perm AND 1 \<noteq> 0 then 1
             else 0)))"

definition set_permission :: "file_perms_t \<Rightarrow> u32 \<Rightarrow> u32 \<Rightarrow> u16 \<Rightarrow> file_perms_t" where
  "set_permission file_p uid gid mode = file_p\<lparr>fp_uid := uid, fp_gid := gid, fp_mode := mode\<rparr>"

section \<open>The access model\<close>

datatype user_class = Owner | Group | Other

datatype request = Read | Write | Execute

text \<open>The groups a credential lists.\<close>

definition cred_groups :: "user_cred_t \<Rightarrow> u32 list" where
  "cred_groups user = take (unat (uc_group_count user)) (uc_groups user)"

definition class_of :: "file_perms_t \<Rightarrow> user_cred_t \<Rightarrow> user_class" where
  "class_of f user =
     (if uc_uid user = fp_uid f then Owner else if fp_gid f \<in> set (cred_groups user) then Group else Other)"

text \<open>The bit of the mode word for a class and a request, as in the octal notation \<open>rwxrwxrwx\<close>.\<close>

fun class_shift :: "user_class \<Rightarrow> nat" where
  "class_shift Owner = 6"
| "class_shift Group = 3"
| "class_shift Other = 0"

fun request_bit :: "request \<Rightarrow> nat" where
  "request_bit Read = 2"
| "request_bit Write = 1"
| "request_bit Execute = 0"

fun request_code :: "request \<Rightarrow> int" where
  "request_code Read = PERM_READ"
| "request_code Write = PERM_WRITE"
| "request_code Execute = PERM_EXEC"

definition allowed :: "file_perms_t \<Rightarrow> user_cred_t \<Rightarrow> request \<Rightarrow> bool" where
  "allowed f user r \<longleftrightarrow> uc_uid user = 0 \<or> bit (fp_mode f) (class_shift (class_of f user) + request_bit r)"

definition cred_wf :: "user_cred_t \<Rightarrow> bool" where
  "cred_wf user \<longleftrightarrow> length (uc_groups user) = 32 \<and> unat (uc_group_count user) \<le> 32"

lemma in_group_loop_spec:
  assumes "unat (uc_group_count user) \<le> length (uc_groups user)" "k \<le> unat (uc_group_count user)"
  shows "in_group_loop gid user (int k) = Inr (gid \<in> set (drop k (cred_groups user)))"
  using assms(2)
proof (induction "unat (uc_group_count user) - k" arbitrary: k)
  case 0
  have c: "uint (uc_group_count user) = int (unat (uc_group_count user))" by simp
  have "k = unat (uc_group_count user)" using 0 by simp
  then show ?case by (subst in_group_loop.simps) (simp add: cred_groups_def)
next
  case (Suc n)
  have c: "uint (uc_group_count user) = int (unat (uc_group_count user))" by simp
  have k: "k < unat (uc_group_count user)" "k < length (cred_groups user)"
    using Suc assms(1) by (auto simp: cred_groups_def)
  have "int k < uint (uc_group_count user)" using k(1) unfolding c by (simp only: of_nat_less_iff)
  moreover have "buf_read (uc_groups user) (int k) = Inr (cred_groups user ! k)"
    using k assms(1) by (simp add: buf_simps cred_groups_def)
  moreover have "drop k (cred_groups user) = cred_groups user ! k # drop (Suc k) (cred_groups user)"
    using k(2) by (simp add: Cons_nth_drop_Suc)
  moreover have "in_group_loop gid user (int k + 1) = Inr (gid \<in> set (drop (Suc k) (cred_groups user)))"
    using Suc.hyps(1) [of "Suc k"] Suc.hyps(2) k(1) by (simp add: add.commute)
  ultimately show ?case by (subst in_group_loop.simps) auto
qed

lemma mask7_bits:
  fixes x :: u16
  shows "(x AND 7) AND 4 \<noteq> 0 \<longleftrightarrow> bit x 2" "(x AND 7) AND 2 \<noteq> 0 \<longleftrightarrow> bit x 1" "(x AND 7) AND 1 \<noteq> 0 \<longleftrightarrow> bit x 0"
proof -
  have "(x AND 7) AND 4 = x AND 2 ^ 2" "(x AND 7) AND 2 = x AND 2 ^ 1" "(x AND 7) AND 1 = x AND 2 ^ 0"
    by (simp_all add: and.assoc)
  then show "(x AND 7) AND 4 \<noteq> 0 \<longleftrightarrow> bit x 2" "(x AND 7) AND 2 \<noteq> 0 \<longleftrightarrow> bit x 1" "(x AND 7) AND 1 \<noteq> 0 \<longleftrightarrow> bit x 0"
    using and_exp_eq_0_iff_not_bit [of x 2] and_exp_eq_0_iff_not_bit [of x 1] and_exp_eq_0_iff_not_bit [of x 0]
    by simp_all
qed

lemma check_permission_class:
  assumes "unat (uc_group_count user) \<le> length (uc_groups user)" "uc_uid user \<noteq> 0"
  shows "check_permission f user a =
    (let perm = drop_bit (class_shift (class_of f user)) (fp_mode f) AND 7 in
     Inr (if a = PERM_READ \<and> perm AND 4 \<noteq> 0 then 1 else if a = PERM_WRITE \<and> perm AND 2 \<noteq> 0 then 1
          else if a = PERM_EXEC \<and> perm AND 1 \<noteq> 0 then 1 else 0))"
  using in_group_loop_spec [OF assms(1), of 0 "fp_gid f"] assms(2)
  by (simp add: check_permission_def class_of_def Let_def)

section \<open>Properties\<close>

text \<open>
  C38. Permission checks implement the owner, group and other model: for a credential whose
  group count fits its array and a single requested access, \<open>check_permission\<close> returns one
  exactly when the user is the superuser or the mode has the request's bit set in the
  first class that applies to the user, and zero otherwise. The group class is that of the listed groups: the
  user's primary group (\<open>gid\<close> of the credential) does not count.
\<close>

theorem check_permission_correct:
  assumes "cred_wf user"
  shows "check_permission f user (request_code r) = Inr (if allowed f user r then 1 else 0)"
proof (cases "uc_uid user = 0")
  case True
  then show ?thesis by (simp add: check_permission_def allowed_def)
next
  case False
  have "unat (uc_group_count user) \<le> length (uc_groups user)" using assms by (simp add: cred_wf_def)
  note eq = check_permission_class [OF this False, of f "request_code r"]
  show ?thesis
    unfolding eq Let_def mask7_bits using False by (cases r) (simp_all add: allowed_def bit_simps add.commute)
qed

theorem check_permission_correct_witness:
  "check_permission \<lparr>fp_uid = 5, fp_gid = 7, fp_mode = 0x1A0\<rparr>
     \<lparr>uc_uid = 9, uc_gid = 9, uc_groups = 7 # replicate 31 0, uc_group_count = 1\<rparr> (request_code Read) =
   Inr (if allowed \<lparr>fp_uid = 5, fp_gid = 7, fp_mode = 0x1A0\<rparr>
     \<lparr>uc_uid = 9, uc_gid = 9, uc_groups = 7 # replicate 31 0, uc_group_count = 1\<rparr> Read then 1 else 0)"
  by (rule check_permission_correct) (simp add: cred_wf_def)

text \<open>
  The primary group is never consulted: two users who differ only in \<open>gid\<close> always get
  the same answer, so a member of the file's group whose supplementary list does not
  repeat it is treated as an outsider.
\<close>

theorem primary_group_ignored:
  "check_permission f (user\<lparr>uc_gid := g\<rparr>) a = check_permission f user a"
proof -
  have "in_group_loop gid (user\<lparr>uc_gid := g\<rparr>) i = in_group_loop gid user i" for gid i
  proof (induction gid user i rule: in_group_loop.induct)
    case (1 gid user i)
    show ?case
      using 1 by (subst (1 2) in_group_loop.simps) (auto intro!: bindR_cong)
  qed
  then show ?thesis by (simp add: check_permission_def)
qed

text \<open>
  A group count above thirty-two makes the check read past the array of groups: for a
  user who is neither the superuser nor the owner and none of whose thirty-two groups is
  the file's group.
\<close>

theorem group_count_overruns:
  assumes "length (uc_groups user) = 32" "32 < unat (uc_group_count user)"
    and "uc_uid user \<noteq> 0" "uc_uid user \<noteq> fp_uid f" "fp_gid f \<notin> set (uc_groups user)"
  shows "check_permission f user a = Inl Out_Of_Bounds"
proof -
  have c: "uint (uc_group_count user) = int (unat (uc_group_count user))" by simp
  have "k \<le> 32 \<Longrightarrow> in_group_loop (fp_gid f) user (int k) = Inl Out_Of_Bounds" for k
  proof (induction "32 - k" arbitrary: k)
    case 0
    then have k: "k = 32" by simp
    have "(32 :: int) < uint (uc_group_count user)"
      using assms(2) unfolding c by (simp only: of_nat_less_iff [symmetric] of_nat_numeral)
    then show ?case
      using assms(1) k by (subst in_group_loop.simps) (simp add: buf_read_def)
  next
    case (Suc n)
    have "k < 32" using Suc by simp
    then have "k < unat (uc_group_count user)" using assms(2) by simp
    then have "int k < uint (uc_group_count user)" unfolding c by (simp only: of_nat_less_iff)
    moreover have "uc_groups user ! k \<noteq> fp_gid f"
      using assms(1,5) \<open>k < 32\<close> by (metis nth_mem)
    moreover have "in_group_loop (fp_gid f) user (int k + 1) = Inl Out_Of_Bounds"
      using Suc.hyps(1) [of "Suc k"] Suc.hyps(2) \<open>k < 32\<close> by (simp add: add.commute)
    ultimately show ?case
      using assms(1) by (subst in_group_loop.simps) (simp add: buf_read_def)
  qed
  from this [of 0] show ?thesis using assms(3,4) by (simp add: check_permission_def)
qed

theorem group_count_overruns_witness:
  "check_permission \<lparr>fp_uid = 5, fp_gid = 7, fp_mode = 0\<rparr>
     \<lparr>uc_uid = 9, uc_gid = 9, uc_groups = replicate 32 0, uc_group_count = 33\<rparr> PERM_READ = Inl Out_Of_Bounds"
  by (rule group_count_overruns) simp_all

end
