(* ===== verification/Vfs.thy ===== *)
theory Vfs
  imports Libc "HOL-Library.Sublist"
begin

text \<open>
  The virtual file system, \<^verbatim>\<open>kernel/fs/vfs.c\<close>: a table of mounts searched from the newest,
  and a table of open files. File systems and their files are other modules' function
  pointers: optional functions on a state \<open>'s\<close> of their own, and a null pointer is
  \<open>None\<close>. A file's \<open>inode_t\<close> is taken by value when it is resolved: its function table
  does not change while the file is open.
\<close>

section \<open>State\<close>

text \<open>\<open>file_ops_t\<close> and \<open>inode_t\<close>: the members this file calls or hands out.\<close>

record 's file_ops =
  op_open :: "(u8 list \<Rightarrow> int \<Rightarrow> 's \<Rightarrow> int \<times> 's) option"
  op_read :: "(u8 list \<Rightarrow> u32 \<Rightarrow> u32 \<Rightarrow> 's \<Rightarrow> int \<times> u8 list \<times> 's) option"

record 's inode =
  ino :: u32
  imode :: u32
  isize :: u32
  iops :: "'s file_ops option"

record 's filesystem =
  fs_mount :: "(u8 list \<Rightarrow> u8 list \<Rightarrow> 's \<Rightarrow> int \<times> 's) option"
  get_inode :: "(u8 list \<Rightarrow> 's \<Rightarrow> 's inode option \<times> 's) option"

text \<open>
  The first \<open>mount_count\<close> elements of the array \<open>mounts[16]\<close> are the list \<open>mounts\<close>; a
  mount point is its path and its file system, the member \<open>data\<close> is always null.
\<close>

record 's vfs_state =
  mounts :: "(u8 list \<times> 's filesystem) list"
  fds :: "'s inode option list"
  fd_count :: int
  fsys :: 's

abbreviation MAX_MOUNTS :: nat where "MAX_MOUNTS \<equiv> 16"
abbreviation (input) MAX_FDS :: int where "MAX_FDS \<equiv> 256"

definition vfs_empty :: "'s \<Rightarrow> 's vfs_state" where
  "vfs_empty st = \<lparr>mounts = [], fds = replicate 256 None, fd_count = 0, fsys = st\<rparr>"

section \<open>Operations\<close>

definition vfs_mount :: "u8 list \<Rightarrow> u8 list \<Rightarrow> 's filesystem \<Rightarrow> 's vfs_state \<Rightarrow> (int \<times> 's vfs_state) res" where
  "vfs_mount source target fs s =
     (if length (mounts s) \<ge> MAX_MOUNTS then Inr (-1, s)
      else
        bindR (push_buf MAX_MOUNTS (mounts s) (target, fs)) (\<lambda>ms.
        let st = (case fs_mount fs of None \<Rightarrow> fsys s | Some f \<Rightarrow> snd (f source target (fsys s))) in
        Inr (0, s\<lparr>mounts := ms, fsys := st\<rparr>)))"

text \<open>The comparison loop: the first \<open>len\<close> bytes of the path against the mount path.\<close>

fun match_prefix :: "u8 list \<Rightarrow> u8 list \<Rightarrow> nat \<Rightarrow> bool res" where
  "match_prefix path mpath 0 = Inr True"
| "match_prefix (p # path) (m # mpath) (Suc n) = (if p \<noteq> m then Inr False else match_prefix path mpath n)"
| "match_prefix path mpath (Suc n) = Inl Out_Of_Bounds"

text \<open>The mounts are visited from the last to the first: \<open>ms\<close> is the reversed table.\<close>

fun resolve_loop :: "u8 list \<Rightarrow> (u8 list \<times> 's filesystem) list \<Rightarrow> 's \<Rightarrow> ('s inode option \<times> 's) res" where
  "resolve_loop path [] st = Inr (None, st)"
| "resolve_loop path ((mpath, fs) # ms) st =
     bindR (strlen mpath) (\<lambda>len.
     bindR (match_prefix path mpath len) (\<lambda>match.
     case get_inode fs of
       Some f \<Rightarrow> if match then Inr (f (drop len path) st) else resolve_loop path ms st
     | None \<Rightarrow> resolve_loop path ms st))"

definition vfs_resolve :: "u8 list \<Rightarrow> 's vfs_state \<Rightarrow> ('s inode option \<times> 's vfs_state) res" where
  "vfs_resolve path s =
     bindR (resolve_loop path (rev (mounts s)) (fsys s)) (\<lambda>(i, st). Inr (i, s\<lparr>fsys := st\<rparr>))"

definition vfs_open :: "u8 list \<Rightarrow> int \<Rightarrow> 's vfs_state \<Rightarrow> (int \<times> 's vfs_state) res" where
  "vfs_open path flags s =
     bindR (vfs_resolve path s) (\<lambda>(r, s).
     case r of
       None \<Rightarrow> Inr (-1, s)
     | Some inode \<Rightarrow>
         if fd_count s \<ge> MAX_FDS then Inr (-1, s)
         else
           bindR (buf_write (fds s) (fd_count s) (Some inode)) (\<lambda>t.
           let s = s\<lparr>fds := t\<rparr>;
               st = (case iops inode of
                       None \<Rightarrow> fsys s
                     | Some ops \<Rightarrow> (case op_open ops of None \<Rightarrow> fsys s | Some f \<Rightarrow> snd (f path flags (fsys s)))) in
           Inr (fd_count s, s\<lparr>fsys := st, fd_count := fd_count s + 1\<rparr>)))"

text \<open>The caller's buffer is returned with the result.\<close>

definition vfs_read :: "int \<Rightarrow> u8 list \<Rightarrow> u32 \<Rightarrow> 's vfs_state \<Rightarrow> (int \<times> u8 list \<times> 's vfs_state) res" where
  "vfs_read fd buf sz s =
     (if fd < 0 \<or> fd \<ge> fd_count s then Inr (-1, buf, s)
      else
        bindR (buf_read (fds s) fd) (\<lambda>e.
        case e of
          None \<Rightarrow> Inr (-1, buf, s)
        | Some inode \<Rightarrow>
            (case iops inode of
               None \<Rightarrow> Inr (-1, buf, s)
             | Some ops \<Rightarrow>
                 (case op_read ops of
                    None \<Rightarrow> Inr (-1, buf, s)
                  | Some f \<Rightarrow>
                      (case f buf sz 0 (fsys s) of (n, buf', st) \<Rightarrow> Inr (n, buf', s\<lparr>fsys := st\<rparr>))))))"

section \<open>Resolution\<close>

lemma match_prefix_eq:
  "terminated path \<Longrightarrow> terminated mpath \<Longrightarrow>
   match_prefix path mpath (length (cstring mpath)) = Inr (prefix (cstring mpath) (cstring path))"
proof (induction mpath arbitrary: path)
  case (Cons m mpath)
  then obtain p path' where "path = p # path'" by (cases path) auto
  with Cons show ?case by auto
qed simp

text \<open>The mount that is responsible for a path: the newest whose path is a prefix.\<close>

definition mount_matches :: "u8 list \<Rightarrow> u8 list \<times> 's filesystem \<Rightarrow> bool" where
  "mount_matches path m \<longleftrightarrow> prefix (cstring (fst m)) (cstring path) \<and> get_inode (snd m) \<noteq> None"

definition responsible :: "u8 list \<Rightarrow> (u8 list \<times> 's filesystem) list \<Rightarrow> (u8 list \<times> 's filesystem) option" where
  "responsible path ms = find (mount_matches path) (rev ms)"

lemma resolve_loop_eq:
  assumes "terminated path" "\<forall>m \<in> set ms. terminated (fst m)"
  shows "resolve_loop path ms st =
    Inr (case find (mount_matches path) ms of
           None \<Rightarrow> (None, st)
         | Some m \<Rightarrow> the (get_inode (snd m)) (drop (length (cstring (fst m))) path) st)"
  using assms(2)
proof (induction ms)
  case (Cons m ms)
  obtain mp fs where m: "m = (mp, fs)" by (cases m)
  then show ?case
    using Cons assms(1) by (auto simp: strlen_terminated match_prefix_eq mount_matches_def split: option.split)
qed simp

definition vfs_wf :: "'s vfs_state \<Rightarrow> bool" where
  "vfs_wf s \<longleftrightarrow> length (mounts s) \<le> MAX_MOUNTS \<and> (\<forall>m \<in> set (mounts s). terminated (fst m)) \<and>
     length (fds s) = 256 \<and> 0 \<le> fd_count s \<and> fd_count s \<le> MAX_FDS"

lemma vfs_resolve_eq:
  assumes "vfs_wf s" "terminated path"
  shows "vfs_resolve path s =
    (case (case responsible path (mounts s) of
             None \<Rightarrow> (None, fsys s)
           | Some m \<Rightarrow> the (get_inode (snd m)) (drop (length (cstring (fst m))) path) (fsys s)) of
       (i, st) \<Rightarrow> Inr (i, s\<lparr>fsys := st\<rparr>))"
  using assms resolve_loop_eq [of path "rev (mounts s)" "fsys s"]
  by (simp add: vfs_resolve_def vfs_wf_def responsible_def split: option.split prod.split)

text \<open>
  A table with one file system, mounted at \<open>/mnt\<close>, that knows the file \<open>/a\<close>; its state
  counts the lookups.
\<close>

definition example_inode :: "nat inode" where
  "example_inode = \<lparr>ino = 1, imode = 0, isize = 2,
     iops = Some \<lparr>op_open = None, op_read = Some (\<lambda>buf n ofs st. (2, [72, 105], st))\<rparr>\<rparr>"

definition vfs_example :: "nat vfs_state" where
  "vfs_example = (vfs_empty 0)\<lparr>mounts := [(cstr ''/mnt'',
     \<lparr>fs_mount = None,
      get_inode = Some (\<lambda>p st. (if p = cstr ''/a'' then Some example_inode else None, st + 1))\<rparr>)]\<rparr>"

lemma vfs_example_wf: "vfs_wf vfs_example"
  by (simp add: vfs_wf_def vfs_example_def vfs_empty_def)

lemma vfs_example_open_read:
  "\<exists>t. vfs_open (cstr ''/mnt/a'') 0 vfs_example = Inr (0, t) \<and> vfs_read 0 [0, 0] 2 t = Inr (2, [72, 105], t)"
  by (simp add: vfs_open_def vfs_read_def vfs_resolve_def vfs_example_def vfs_empty_def example_inode_def
      cstr_def buf_write_def buf_read_def Let_def)

section \<open>Properties\<close>

text \<open>
  C37. Path resolution asks the right mount: on a well-formed table and a terminated path
  \<open>vfs_resolve\<close> returns; it passes the rest of the path to the newest mount that has a
  lookup function and whose path is a prefix of the given path, and answers with a
  null pointer if there is none.
\<close>

theorem vfs_resolve_correct:
  assumes "vfs_wf s" "terminated path"
  shows "vfs_resolve path s =
    (case (case responsible path (mounts s) of
             None \<Rightarrow> (None, fsys s)
           | Some m \<Rightarrow> the (get_inode (snd m)) (drop (length (cstring (fst m))) path) (fsys s)) of
       (i, st) \<Rightarrow> Inr (i, s\<lparr>fsys := st\<rparr>))"
  using assms by (rule vfs_resolve_eq)

theorem vfs_resolve_correct_witness:
  "vfs_resolve (cstr ''/mnt/a'') vfs_example =
    (case (case responsible (cstr ''/mnt/a'') (mounts vfs_example) of
             None \<Rightarrow> (None, fsys vfs_example)
           | Some m \<Rightarrow> the (get_inode (snd m)) (drop (length (cstring (fst m))) (cstr ''/mnt/a'')) (fsys vfs_example)) of
       (i, st) \<Rightarrow> Inr (i, vfs_example\<lparr>fsys := st\<rparr>))"
  by (rule vfs_resolve_correct) (simp_all add: vfs_example_wf)

text \<open>
  Opening allocates descriptors in order and never more than 256: on a well-formed
  state \<open>vfs_open\<close> returns and keeps the tables well-formed; it answers \<open>-1\<close> and opens
  nothing, or it answers the number of files opened before, and a read from the new
  descriptor calls the read function of the resolved file, always at offset zero.
\<close>

theorem vfs_open_read:
  assumes "vfs_wf s" "terminated path"
  shows "\<exists>fd t. vfs_open path flags s = Inr (fd, t) \<and> vfs_wf t \<and>
     (fd = -1 \<and> fds t = fds s \<and> fd_count t = fd_count s \<or>
      fd = fd_count s \<and> fd_count t = fd_count s + 1 \<and>
      (\<exists>inode st. vfs_resolve path s = Inr (Some inode, s\<lparr>fsys := st\<rparr>) \<and>
         (\<forall>ops rd. iops inode = Some ops \<and> op_read ops = Some rd \<longrightarrow>
            vfs_read fd buf sz t =
              (case rd buf sz 0 (fsys t) of (n, buf', st) \<Rightarrow> Inr (n, buf', t\<lparr>fsys := st\<rparr>)))))"
proof -
  obtain i st where r: "vfs_resolve path s = Inr (i, s\<lparr>fsys := st\<rparr>)"
    using vfs_resolve_eq [OF assms] by (auto split: prod.splits)
  show ?thesis
  proof (cases "i = None \<or> fd_count s \<ge> 256")
    case True
    then have "vfs_open path flags s = Inr (-1, s\<lparr>fsys := st\<rparr>)"
      using r by (cases i) (auto simp: vfs_open_def)
    then show ?thesis using assms(1) by (simp add: vfs_wf_def)
  next
    case False
    then obtain inode where i: "i = Some inode" "fd_count s < 256" by auto
    define st' where "st' = (case iops inode of None \<Rightarrow> st | Some ops \<Rightarrow>
        (case op_open ops of None \<Rightarrow> st | Some f \<Rightarrow> snd (f path flags st)))"
    let ?t = "s\<lparr>fsys := st', fds := (fds s)[nat (fd_count s) := Some inode], fd_count := fd_count s + 1\<rparr>"
    have c: "0 \<le> fd_count s" "length (fds s) = 256" using assms(1) by (auto simp: vfs_wf_def)
    have o: "vfs_open path flags s = Inr (fd_count s, ?t)"
      using r i c by (auto simp: vfs_open_def buf_write_def Let_def st'_def split: option.split)
    have w: "vfs_wf ?t" using assms(1) i(2) by (simp add: vfs_wf_def)
    have rd: "vfs_read (fd_count s) buf sz ?t =
        (case rd buf sz 0 (fsys ?t) of (n, buf', st) \<Rightarrow> Inr (n, buf', ?t\<lparr>fsys := st\<rparr>))"
      if "iops inode = Some ops" "op_read ops = Some rd" for ops rd
      using that c i(2) by (simp add: vfs_read_def buf_read_def)
    show ?thesis
      by (rule exI [of _ "fd_count s"], rule exI [of _ ?t]) (use o r i(1) w rd in auto)
  qed
qed

theorem vfs_open_read_witness:
  "\<exists>fd t. vfs_open (cstr ''/mnt/a'') 0 vfs_example = Inr (fd, t) \<and> vfs_wf t \<and>
     (fd = -1 \<and> fds t = fds vfs_example \<and> fd_count t = fd_count vfs_example \<or>
      fd = fd_count vfs_example \<and> fd_count t = fd_count vfs_example + 1 \<and>
      (\<exists>inode st. vfs_resolve (cstr ''/mnt/a'') vfs_example = Inr (Some inode, vfs_example\<lparr>fsys := st\<rparr>) \<and>
         (\<forall>ops rd. iops inode = Some ops \<and> op_read ops = Some rd \<longrightarrow>
            vfs_read fd [0, 0] 2 t =
              (case rd [0, 0] 2 0 (fsys t) of (n, buf', st) \<Rightarrow> Inr (n, buf', t\<lparr>fsys := st\<rparr>)))))"
  by (rule vfs_open_read) (simp_all add: vfs_example_wf)

text \<open>
  Mount paths match inside names: a file system mounted at \<open>/mnt\<close> is also asked for
  \<open>/mntx\<close>, as the file \<open>x\<close>, because the comparison does not look for a separator.
\<close>

theorem vfs_prefix_without_separator:
  "vfs_resolve (cstr ''/mntx'') ((vfs_empty st)\<lparr>mounts := [(cstr ''/mnt'', \<lparr>fs_mount = None, get_inode = Some f\<rparr>)]\<rparr>) =
   (case f (cstr ''x'') st of (i, st') \<Rightarrow>
      Inr (i, (vfs_empty st)\<lparr>mounts := [(cstr ''/mnt'', \<lparr>fs_mount = None, get_inode = Some f\<rparr>)], fsys := st'\<rparr>))"
  by (simp add: vfs_resolve_def vfs_empty_def cstr_def split: prod.split)

end
