(* ===== verification/Elf.thy ===== *)
theory Elf
  imports Libc Process
begin

text \<open>
  The program loader, \<^verbatim>\<open>kernel/userspace/elf_loader.c\<close>. The image and the program share
  one flat address space. The page allocator and the page mapper it calls,
  \<open>sys_alloc_page\<close> and \<open>sys_map_page\<close>, are defined nowhere in the sources: they are
  parameters, the mapper free to change memory (a new page appears at the address).
\<close>

section \<open>State and file format\<close>

record 's loader =
  lmem :: mem
  pager :: 's

type_synonym 's page_alloc = "'s \<Rightarrow> u32 \<times> 's"
type_synonym 's page_map = "u32 \<Rightarrow> u32 \<Rightarrow> u32 \<Rightarrow> 's loader \<Rightarrow> 's loader"

text \<open>\<open>elf32_header_t\<close>, its members at their offsets, and those that the loader uses.\<close>

record elf32_header_t =
  eh_magic :: "u8 list"
  eh_bits :: u8
  eh_endian :: u8
  eh_version :: u8
  eh_osabi :: u8
  eh_abiversion :: u8
  eh_pad :: "u8 list"
  eh_type :: u16
  eh_machine :: u16
  eh_version2 :: u32
  eh_entry :: u32
  eh_phoff :: u32
  eh_shoff :: u32
  eh_flags :: u32
  eh_ehsize :: u16
  eh_phentsize :: u16
  eh_phnum :: u16
  eh_shentsize :: u16
  eh_shnum :: u16
  eh_shstrndx :: u16

definition header_at :: "mem \<Rightarrow> u32 \<Rightarrow> elf32_header_t" where
  "header_at m h =
     \<lparr>eh_magic = [m h, m (h + 1), m (h + 2), m (h + 3)], eh_bits = m (h + 4), eh_endian = m (h + 5),
      eh_version = m (h + 6), eh_osabi = m (h + 7), eh_abiversion = m (h + 8),
      eh_pad = map (\<lambda>i. m (h + 9 + of_nat i)) [0..<7], eh_type = read16 m (h + 16), eh_machine = read16 m (h + 18),
      eh_version2 = read32 m (h + 20), eh_entry = read32 m (h + 24), eh_phoff = read32 m (h + 28),
      eh_shoff = read32 m (h + 32), eh_flags = read32 m (h + 36), eh_ehsize = read16 m (h + 40),
      eh_phentsize = read16 m (h + 42), eh_phnum = read16 m (h + 44), eh_shentsize = read16 m (h + 46),
      eh_shnum = read16 m (h + 48), eh_shstrndx = read16 m (h + 50)\<rparr>"

definition e_magic :: "mem \<Rightarrow> u32 \<Rightarrow> u8 list" where "e_magic m h = eh_magic (header_at m h)"
definition e_filetype :: "mem \<Rightarrow> u32 \<Rightarrow> u16" where "e_filetype m h = eh_type (header_at m h)"
definition e_entry :: "mem \<Rightarrow> u32 \<Rightarrow> u32" where "e_entry m h = eh_entry (header_at m h)"
definition e_phoff :: "mem \<Rightarrow> u32 \<Rightarrow> u32" where "e_phoff m h = eh_phoff (header_at m h)"
definition e_phentsize :: "mem \<Rightarrow> u32 \<Rightarrow> u16" where "e_phentsize m h = eh_phentsize (header_at m h)"
definition e_phnum :: "mem \<Rightarrow> u32 \<Rightarrow> u16" where "e_phnum m h = eh_phnum (header_at m h)"

lemmas header_defs = header_at_def e_magic_def e_filetype_def e_entry_def e_phoff_def e_phentsize_def e_phnum_def

text \<open>\<open>elf32_phdr_t\<close>: the whole entry, and its address in the table.\<close>

record elf32_phdr_t =
  ph_type :: u32
  ph_offset :: u32
  ph_vaddr :: u32
  ph_paddr :: u32
  ph_filesz :: u32
  ph_memsz :: u32
  ph_flags :: u32
  ph_align :: u32

definition phdr_at :: "mem \<Rightarrow> u32 \<Rightarrow> elf32_phdr_t" where
  "phdr_at m a =
     \<lparr>ph_type = read32 m a, ph_offset = read32 m (a + 4), ph_vaddr = read32 m (a + 8),
      ph_paddr = read32 m (a + 12), ph_filesz = read32 m (a + 16), ph_memsz = read32 m (a + 20),
      ph_flags = read32 m (a + 24), ph_align = read32 m (a + 28)\<rparr>"

definition phdr_addr :: "mem \<Rightarrow> u32 \<Rightarrow> u32 \<Rightarrow> u32" where
  "phdr_addr m h i = h + e_phoff m h + i * ucast (e_phentsize m h)"

abbreviation PT_LOAD :: u32 where "PT_LOAD \<equiv> 1"

section \<open>Operations\<close>

definition alloc_page_at :: "'s page_alloc \<Rightarrow> 's page_map \<Rightarrow> u32 \<Rightarrow> 's loader \<Rightarrow> u32 \<times> 's loader" where
  "alloc_page_at sys_alloc_page sys_map_page vaddr s =
     (let (phys, st) = sys_alloc_page (pager s); s = s\<lparr>pager := st\<rparr> in
      if phys = 0 then (0, s) else (vaddr, sys_map_page vaddr phys 0x07 s))"

text \<open>
  The loop over the pages of a segment; the result says whether every page was allocated.
  The counter could run past the end without stopping if it wrapped around; the bound
  \<open>page_fuel\<close> is the number of pages of the address space.
\<close>

fun page_loop :: "nat \<Rightarrow> 's page_alloc \<Rightarrow> 's page_map \<Rightarrow> u32 \<Rightarrow> u32 \<Rightarrow> 's loader \<Rightarrow> (bool \<times> 's loader) res" where
  "page_loop 0 al mp page end_page s = Inl No_Fuel"
| "page_loop (Suc fuel) al mp page end_page s =
     (if page < end_page
      then (case alloc_page_at al mp page s of
              (v, s) \<Rightarrow> if v = 0 then Inr (False, s) else page_loop fuel al mp (page + 4096) end_page s)
      else Inr (True, s))"

definition page_fuel :: nat where "page_fuel = 2 ^ 20"

definition start_page :: "elf32_phdr_t \<Rightarrow> u32" where
  "start_page ph = ph_vaddr ph AND NOT 0xFFF"

definition end_page :: "elf32_phdr_t \<Rightarrow> u32" where
  "end_page ph = (ph_vaddr ph + ph_memsz ph + 0xFFF) AND NOT 0xFFF"

text \<open>
  The body of the segment loop. The entry is read again from memory after the pages have
  been mapped and after the file contents have been copied.
\<close>

definition copy_file :: "u32 \<Rightarrow> u32 \<Rightarrow> 's loader \<Rightarrow> 's loader" where
  "copy_file h a s =
     (let ph = phdr_at (lmem s) a in
      if ph_filesz ph > 0 then s\<lparr>lmem := memcpy (lmem s) (ph_vaddr ph) (h + ph_offset ph) (ph_filesz ph)\<rparr> else s)"

definition clear_bss :: "u32 \<Rightarrow> 's loader \<Rightarrow> 's loader" where
  "clear_bss a s =
     (let ph = phdr_at (lmem s) a in
      if ph_memsz ph > ph_filesz ph
      then s\<lparr>lmem := fold (set_byte (ph_vaddr ph + ph_filesz ph) 0) [0..<unat (ph_memsz ph - ph_filesz ph)] (lmem s)\<rparr>
      else s)"

definition load_segment :: "'s page_alloc \<Rightarrow> 's page_map \<Rightarrow> u32 \<Rightarrow> u32 \<Rightarrow> 's loader \<Rightarrow> (bool \<times> 's loader) res" where
  "load_segment al mp h a s =
     (let ph = phdr_at (lmem s) a in
      if ph_type ph = PT_LOAD \<and> ph_memsz ph > 0
      then bindR (page_loop page_fuel al mp (start_page ph) (end_page ph) s)
             (\<lambda>(ok, s). Inr (ok, if ok then clear_bss a (copy_file h a s) else s))
      else Inr (True, s))"

lemma phnum_bound: "(i :: u32) < ucast (n :: u16) \<Longrightarrow> unat (i + 1) = Suc (unat i) \<and> unat i < 65536"
proof
  assume i: "i < ucast n"
  then show "unat (i + 1) = Suc (unat i)" by (rule unat_inc)
  have "unat (ucast n :: u32) = unat n" by (simp add: unsigned_ucast_eq take_bit_nat_eq_self_iff
        unsigned_less [where 'a = nat, of n, THEN less_trans])
  then show "unat i < 65536"
    using i unsigned_less [where 'a = nat, of n] by (simp add: word_less_nat_alt)
qed

function load_segments :: "'s page_alloc \<Rightarrow> 's page_map \<Rightarrow> u32 \<Rightarrow> u32 \<Rightarrow> 's loader \<Rightarrow> (u32 \<times> 's loader) res" where
  "load_segments al mp h i s =
     (if i < ucast (e_phnum (lmem s) h)
      then bindR (load_segment al mp h (phdr_addr (lmem s) h i) s)
             (\<lambda>(ok, s). if ok then load_segments al mp h (i + 1) s else Inr (0, s))
      else Inr (e_entry (lmem s) h, s))"
  by pat_completeness auto
termination
  by (relation "measure (\<lambda>(al, mp, h, i, s). 65536 - unat i)") (auto dest!: phnum_bound)

declare load_segments.simps [simp del]

definition elf_load :: "'s page_alloc \<Rightarrow> 's page_map \<Rightarrow> u32 \<Rightarrow> 's loader \<Rightarrow> (u32 \<times> 's loader) res" where
  "elf_load al mp elf_data s =
     (if e_magic (lmem s) elf_data \<noteq> [0x7F, of_char (CHR ''E''), of_char (CHR ''L''), of_char (CHR ''F'')] then Inr (0, s)
      else if e_filetype (lmem s) elf_data \<noteq> 2 then Inr (0, s)
      else load_segments al mp elf_data 0 s)"

text \<open>
  \<open>exec_user_program\<close> puts the entry point into \<open>eax\<close> and raises interrupt 0x80; the
  other registers hold whatever they held, the frame \<open>regs\<close>.
\<close>

definition exec_user_program ::
  "'s page_alloc \<Rightarrow> 's page_map \<Rightarrow> (interrupt_frame \<Rightarrow> 's loader \<Rightarrow> interrupt_frame \<times> 's loader) \<Rightarrow>
   interrupt_frame \<Rightarrow> u32 \<Rightarrow> 's loader \<Rightarrow> (u32 \<times> 's loader) res" where
  "exec_user_program al mp int80 regs elf_data s =
     bindR (elf_load al mp elf_data s) (\<lambda>(entry, s).
     if entry = 0 then Inr (0, s)
     else let (frame, s) = int80 (regs\<lparr>f_eax := entry\<rparr>) s in Inr (f_eax frame, s))"

section \<open>Pages\<close>

lemma unat_page: "unat (x AND NOT 0xFFF) = unat x div 4096 * 4096" for x :: u32
proof -
  have "x AND NOT 0xFFF = push_bit 12 (drop_bit 12 x)"
  proof -
    have "x AND NOT (mask 12) = push_bit 12 (drop_bit 12 x)"
      by (rule bit_word_eqI) (auto simp: bit_simps)
    then show ?thesis by (simp add: mask_eq_exp_minus_1)
  qed
  moreover have "unat x div 4096 * 4096 < 2 ^ 32"
    using unat_u32_less [of x] div_times_less_eq_dividend [of "unat x" 4096] by linarith
  ultimately show ?thesis
    by (simp add: push_bit_eq_mult drop_bit_eq_div unat_word_ariths unat_div)
qed

text \<open>
  What the loader relies on: mapping a page at an address changes memory in that page
  only, and there are enough pages. How many the allocator still has is a number \<open>avail\<close> of its
  state: above zero it answers a page, a call takes at most one, and mapping takes none.
\<close>

definition maps_pages :: "'s page_map \<Rightarrow> bool" where
  "maps_pages mp \<longleftrightarrow> (\<forall>v p f s a. a \<notin> block v 4096 \<longrightarrow> lmem (mp v p f s) a = lmem s a)"

definition supplies :: "('s \<Rightarrow> nat) \<Rightarrow> 's page_alloc \<Rightarrow> 's page_map \<Rightarrow> bool" where
  "supplies avail al mp \<longleftrightarrow>
     (\<forall>st. 0 < avail st \<longrightarrow> fst (al st) \<noteq> 0 \<and> avail st \<le> Suc (avail (snd (al st)))) \<and>
     (\<forall>v p f s. avail (pager s) \<le> avail (pager (mp v p f s)))"

lemma in_block_range:
  assumes "unat v + n \<le> 2 ^ 32"
  shows "a \<in> block v n \<longleftrightarrow> unat v \<le> unat a \<and> unat a < unat v + n"
proof
  assume "a \<in> block v n"
  then obtain i where i: "i < n" "a = v + of_nat i" by (auto simp: block_def)
  then have "unat v + i < 2 ^ 32" using assms by simp
  then have "unat a = unat v + i"
    using i(2) by (metis of_nat_add of_nat_unat ucast_id unat_of_nat_u32)
  then show "unat v \<le> unat a \<and> unat a < unat v + n" using i(1) by simp
next
  assume a: "unat v \<le> unat a \<and> unat a < unat v + n"
  then have "a = v + of_nat (unat a - unat v)" by (simp add: of_nat_diff)
  moreover have "unat a - unat v < n" using a by linarith
  ultimately show "a \<in> block v n" unfolding block_def by blast
qed

lemma page_loop_ok:
  assumes "maps_pages mp" "supplies avail al mp"
    and "unat page = 4096 * k" "unat endp = 4096 * k'" "0 < k" "k' - k < fuel" "k' - k \<le> avail (pager s)"
  shows "\<exists>s'. page_loop fuel al mp page endp s = Inr (True, s') \<and> avail (pager s) \<le> avail (pager s') + (k' - k) \<and>
           (\<forall>a. \<not> (page \<le> a \<and> a < endp) \<longrightarrow> lmem s' a = lmem s a)"
  using assms(3-)
proof (induction fuel arbitrary: page k s)
  case (Suc fuel)
  show ?case
  proof (cases "page < endp")
    case True
    have k: "k < k'" using True Suc.prems(1,2) by (simp add: word_less_nat_alt)
    have "4096 * k + 4096 \<le> unat endp" using k Suc.prems(2) by simp
    then have b: "4096 * k + 4096 < 2 ^ 32" using unat_u32_less [of endp] by linarith
    then have page': "unat (page + 4096) = 4096 * Suc k"
      using Suc.prems(1) by (simp add: unat_word_ariths)
    obtain phys st where st: "al (pager s) = (phys, st)" by fastforce
    have "0 < avail (pager s)" using Suc.prems(5) k by simp
    then have al: "al (pager s) = (phys, st)" "phys \<noteq> 0" "avail (pager s) \<le> Suc (avail st)"
      using assms(2) st unfolding supplies_def by (metis fst_conv snd_conv)+
    define t where "t = mp page phys 0x07 (s\<lparr>pager := st\<rparr>)"
    have av: "avail (pager s) \<le> Suc (avail (pager t))"
    proof -
      have "avail (pager (s\<lparr>pager := st\<rparr>)) \<le> avail (pager t)" using assms(2) unfolding supplies_def t_def by blast
      then show ?thesis using al(3) by simp
    qed
    have nz: "page \<noteq> 0" using Suc.prems(1,3) by auto
    then have step: "alloc_page_at al mp page s = (page, t)"
      using al by (simp add: alloc_page_at_def t_def)
    obtain s' where s': "page_loop fuel al mp (page + 4096) endp t = Inr (True, s')"
      "avail (pager t) \<le> avail (pager s') + (k' - Suc k)"
      "\<forall>a. \<not> (page + 4096 \<le> a \<and> a < endp) \<longrightarrow> lmem s' a = lmem t a"
    proof -
      have "k' - Suc k < fuel" "k' - Suc k \<le> avail (pager t)" using Suc.prems(4,5) k av by linarith+
      then show thesis using Suc.IH [OF page' Suc.prems(2), of t] that by auto
    qed
    have frame: "lmem s' a = lmem s a" if a: "\<not> (page \<le> a \<and> a < endp)" for a
    proof -
      have "a \<notin> block page 4096"
        using a k b Suc.prems(1,2) by (auto simp: in_block_range word_le_nat_alt word_less_nat_alt)
      then have "lmem t a = lmem s a" using assms(1) by (auto simp: maps_pages_def t_def)
      moreover have "\<not> (page + 4096 \<le> a \<and> a < endp)"
        using a page' Suc.prems(1) by (auto simp: word_le_nat_alt)
      ultimately show ?thesis using s'(3) by simp
    qed
    have "avail (pager s) \<le> avail (pager s') + (k' - k)" using s'(2) av k by linarith
    then show ?thesis using True nz step s'(1) frame by auto
  qed auto
qed simp

section \<open>Segments\<close>

definition loadable :: "elf32_phdr_t \<Rightarrow> bool" where
  "loadable ph \<longleftrightarrow> ph_type ph = PT_LOAD \<and> ph_memsz ph > 0"

definition span :: "elf32_phdr_t \<Rightarrow> u32 set" where
  "span ph = {a. start_page ph \<le> a \<and> a < end_page ph}"

text \<open>The number of its pages.\<close>

definition seg_pages :: "elf32_phdr_t \<Rightarrow> nat" where
  "seg_pages ph = (unat (end_page ph) - unat (start_page ph)) div 4096"

text \<open>What a segment holds once loaded: the bytes of the file, then zeros.\<close>

definition seg_byte :: "mem \<Rightarrow> u32 \<Rightarrow> elf32_phdr_t \<Rightarrow> nat \<Rightarrow> u8" where
  "seg_byte m h ph j = (if j < unat (ph_filesz ph) then m (h + ph_offset ph + of_nat j) else 0)"

text \<open>
  A segment that the loader handles: it starts above the first page and ends a page below
  the top of the address space, it is not longer in the file than in memory, and its pages
  do not overlap the image \<open>I\<close>, which holds its bytes.
\<close>

definition seg_ok :: "u32 set \<Rightarrow> u32 \<Rightarrow> elf32_phdr_t \<Rightarrow> bool" where
  "seg_ok I h ph \<longleftrightarrow> 4096 \<le> unat (ph_vaddr ph) \<and> unat (ph_vaddr ph) + unat (ph_memsz ph) + 4095 < 2 ^ 32 \<and>
     ph_filesz ph \<le> ph_memsz ph \<and> span ph \<inter> I = {} \<and> block (h + ph_offset ph) (unat (ph_filesz ph)) \<subseteq> I"

lemma unat_end_page:
  assumes "seg_ok I h ph"
  shows "unat (end_page ph) = (unat (ph_vaddr ph) + unat (ph_memsz ph) + 4095) div 4096 * 4096"
proof -
  have "unat (ph_vaddr ph + ph_memsz ph + 0xFFF) = unat (ph_vaddr ph) + unat (ph_memsz ph) + 4095"
    using assms by (simp add: seg_ok_def unat_word_ariths)
  then show ?thesis unfolding end_page_def unat_page by simp
qed

lemma unat_start_page: "unat (start_page ph) = unat (ph_vaddr ph) div 4096 * 4096"
  unfolding start_page_def by (rule unat_page)

lemma round_up_ge: "n \<le> (n + 4095) div 4096 * (4096 :: nat)"
  using div_mult_mod_eq [of "n + 4095" 4096] mod_less_divisor [of 4096 "n + 4095"] by linarith

lemma segment_in_span:
  assumes "seg_ok I h ph"
  shows "block (ph_vaddr ph) (unat (ph_memsz ph)) \<subseteq> span ph"
proof
  fix a assume "a \<in> block (ph_vaddr ph) (unat (ph_memsz ph))"
  then have a: "unat (ph_vaddr ph) \<le> unat a" "unat a < unat (ph_vaddr ph) + unat (ph_memsz ph)"
    using assms by (auto simp: in_block_range seg_ok_def)
  moreover have "unat (ph_vaddr ph) div 4096 * 4096 \<le> unat (ph_vaddr ph)" by simp
  moreover have "unat (ph_vaddr ph) + unat (ph_memsz ph) \<le> (unat (ph_vaddr ph) + unat (ph_memsz ph) + 4095) div 4096 * 4096"
    by (rule round_up_ge)
  ultimately show "a \<in> span ph"
    by (simp add: span_def word_le_nat_alt word_less_nat_alt unat_start_page unat_end_page [OF assms])
qed

lemma phdr_at_cong: "(\<And>x. x \<in> block a 32 \<Longrightarrow> m x = m' x) \<Longrightarrow> phdr_at m a = phdr_at m' a"
proof -
  assume eq: "\<And>x. x \<in> block a 32 \<Longrightarrow> m x = m' x"
  have "m (a + of_nat i) = m' (a + of_nat i)" if "i < 32" for i
    using that by (intro eq nth_in_block)
  from this [of 0] this [of 1] this [of 2] this [of 3] this [of 4] this [of 5] this [of 6] this [of 7]
    this [of 8] this [of 9] this [of 10] this [of 11] this [of 12] this [of 13] this [of 14] this [of 15]
    this [of 16] this [of 17] this [of 18] this [of 19] this [of 20] this [of 21] this [of 22] this [of 23]
    this [of 24] this [of 25] this [of 26] this [of 27] this [of 28] this [of 29] this [of 30] this [of 31]
  show ?thesis by (simp add: phdr_at_def read32_def add.assoc)
qed

lemma copy_file_eq:
  "lmem (copy_file h a s) =
     memcpy (lmem s) (ph_vaddr (phdr_at (lmem s) a)) (h + ph_offset (phdr_at (lmem s) a)) (ph_filesz (phdr_at (lmem s) a))"
  by (auto simp: copy_file_def Let_def memcpy_def word_neq_0_conv [symmetric])

lemma clear_bss_eq:
  assumes "ph = phdr_at (lmem s) a" "ph_filesz ph \<le> ph_memsz ph"
  shows "lmem (clear_bss a s) x =
    (if x \<in> block (ph_vaddr ph + ph_filesz ph) (unat (ph_memsz ph - ph_filesz ph)) then 0 else lmem s x)"
proof (cases "ph_memsz ph > ph_filesz ph")
  case True
  then show ?thesis using assms(1) by (simp add: clear_bss_def Let_def set_fold_spec)
next
  case False
  then have "ph_memsz ph = ph_filesz ph" using assms(2) by simp
  then show ?thesis using assms(1) by (simp add: clear_bss_def Let_def block_def)
qed

text \<open>File contents and cleared rest divide the segment.\<close>

lemma fill_segment:
  assumes ok: "seg_ok I h ph" and ph: "phdr_at (lmem s) a = ph" and a: "block a 32 \<subseteq> I"
    and s': "s' = clear_bss a (copy_file h a s)"
  shows "(\<forall>j < unat (ph_memsz ph). lmem s' (ph_vaddr ph + of_nat j) = seg_byte (lmem s) h ph j) \<and>
         (\<forall>x. x \<notin> block (ph_vaddr ph) (unat (ph_memsz ph)) \<longrightarrow> lmem s' x = lmem s x)"
proof -
  let ?v = "ph_vaddr ph" and ?f = "unat (ph_filesz ph)" and ?n = "unat (ph_memsz ph)"
  let ?c = "copy_file h a s"
  have le: "?f \<le> ?n" "ph_filesz ph \<le> ph_memsz ph" and v: "unat ?v + ?n < 2 ^ 32"
    using ok by (auto simp: seg_ok_def word_le_nat_alt)
  have diff: "unat (ph_memsz ph - ph_filesz ph) = ?n - ?f" using le by (simp add: unat_sub)
  have vf: "unat (?v + ph_filesz ph) = unat ?v + ?f" using v le by (simp add: unat_word_ariths)
  have dest: "block ?v ?f \<subseteq> block ?v ?n" using le by (auto simp: block_def)
  have disj: "block ?v ?n \<inter> I = {}" using segment_in_span [OF ok] ok by (auto simp: seg_ok_def)
  have c: "lmem ?c = memcpy (lmem s) ?v (h + ph_offset ph) (ph_filesz ph)" by (simp add: copy_file_eq ph)
  have "lmem ?c x = lmem s x" if "x \<in> block a 32" for x
    using that a disj dest by (auto simp: c intro!: memcpy_frame)
  then have phc: "ph = phdr_at (lmem ?c) a" using ph phdr_at_cong [of a "lmem ?c" "lmem s"] by simp
  have bss: "lmem s' x = (if x \<in> block (?v + ph_filesz ph) (?n - ?f) then 0 else lmem ?c x)" for x
    using clear_bss_eq [OF phc le(2), of x] by (simp add: s' diff)
  have in_bss: "x \<in> block (?v + ph_filesz ph) (?n - ?f) \<longleftrightarrow> unat ?v + ?f \<le> unat x \<and> unat x < unat ?v + ?n" for x
    using v vf le by (subst in_block_range) auto
  have src: "block ?v ?f \<inter> block (h + ph_offset ph) ?f = {}"
    using ok dest disj by (auto simp: seg_ok_def)
  have "lmem s' (?v + of_nat j) = seg_byte (lmem s) h ph j" if j: "j < ?n" for j
  proof -
    have "unat (?v + of_nat j) = unat ?v + j"
      using j v unat_u32_less [of "ph_memsz ph"] by (simp add: unat_word_ariths)
    then show ?thesis
      using j memcpy_inside [OF src, of j "lmem s"] by (simp add: bss in_bss seg_byte_def c)
  qed
  moreover have "lmem s' x = lmem s x" if x: "x \<notin> block ?v ?n" for x
  proof -
    have "x \<notin> block (?v + ph_filesz ph) (?n - ?f)" "x \<notin> block ?v ?f"
      using x dest v by (auto simp: in_bss in_block_range)
    then show ?thesis by (simp add: bss c memcpy_frame)
  qed
  ultimately show ?thesis by blast
qed

lemma load_segment_ok:
  assumes mp: "maps_pages mp" "supplies avail al mp"
    and ok: "seg_ok I h ph" "loadable ph" and ph: "phdr_at (lmem s) a = ph" and a: "block a 32 \<subseteq> I"
    and av: "seg_pages ph \<le> avail (pager s)"
  shows "\<exists>s'. load_segment al mp h a s = Inr (True, s') \<and> avail (pager s) \<le> avail (pager s') + seg_pages ph \<and>
           (\<forall>j < unat (ph_memsz ph). lmem s' (ph_vaddr ph + of_nat j) = seg_byte (lmem s) h ph j) \<and>
           (\<forall>x. x \<notin> span ph \<longrightarrow> lmem s' x = lmem s x)"
proof -
  let ?k = "unat (ph_vaddr ph) div 4096"
  let ?k' = "(unat (ph_vaddr ph) + unat (ph_memsz ph) + 4095) div 4096"
  have k: "unat (start_page ph) = 4096 * ?k" "unat (end_page ph) = 4096 * ?k'" "0 < ?k"
    using unat_start_page [of ph] unat_end_page [OF ok(1)] ok(1)
    by (simp_all add: seg_ok_def div_greater_zero_iff)
  have "?k' < 2 ^ 20" using ok(1) by (simp add: seg_ok_def less_mult_imp_div_less)
  then have f: "?k' - ?k < page_fuel" by (simp add: page_fuel_def)
  have sp: "?k' - ?k = seg_pages ph" unfolding seg_pages_def k(1,2) by (simp flip: diff_mult_distrib2)
  from page_loop_ok [OF mp k f, of s] av obtain t where
    t: "page_loop page_fuel al mp (start_page ph) (end_page ph) s = Inr (True, t)"
      "\<forall>x. x \<notin> span ph \<longrightarrow> lmem t x = lmem s x" "avail (pager s) \<le> avail (pager t) + seg_pages ph"
    unfolding sp by (auto simp: span_def)
  have I: "lmem t x = lmem s x" if "x \<in> I" for x using that t(2) ok(1) by (auto simp: seg_ok_def)
  then have pht: "phdr_at (lmem t) a = ph" using a ph phdr_at_cong [of a "lmem t" "lmem s"] by auto
  define s' where "s' = clear_bss a (copy_file h a t)"
  have "pager s' = pager t" by (simp add: s'_def clear_bss_def copy_file_def Let_def)
  then have "avail (pager s) \<le> avail (pager s') + seg_pages ph" using t(3) by simp
  moreover have "seg_byte (lmem t) h ph j = seg_byte (lmem s) h ph j" for j
    using ok(1) nth_in_block [of j "unat (ph_filesz ph)" "h + ph_offset ph"]
    by (auto simp: seg_byte_def seg_ok_def intro!: I)
  moreover have "x \<notin> block (ph_vaddr ph) (unat (ph_memsz ph))" if "x \<notin> span ph" for x
    using that segment_in_span [OF ok(1)] by auto
  moreover have "load_segment al mp h a s = Inr (True, s')"
    using ok(2) t(1) by (simp add: load_segment_def ph loadable_def s'_def)
  ultimately show ?thesis
    using fill_segment [OF ok(1) pht a s'_def] t(2) by auto
qed

lemma load_segment_skips:
  "\<not> loadable (phdr_at (lmem s) a) \<Longrightarrow> load_segment al mp h a s = Inr (True, s)"
  by (auto simp: load_segment_def loadable_def Let_def)

section \<open>Programs\<close>

definition phdr :: "mem \<Rightarrow> u32 \<Rightarrow> nat \<Rightarrow> elf32_phdr_t" where
  "phdr m h i = phdr_at m (phdr_addr m h (of_nat i))"

abbreviation phnum :: "mem \<Rightarrow> u32 \<Rightarrow> nat" where
  "phnum m h \<equiv> unat (e_phnum m h)"

text \<open>
  An executable image: header, table of segments and file contents lie in the set of
  addresses \<open>I\<close>, every segment to load is as required above, and no two of them share a
  page.
\<close>

definition elf_image :: "u32 set \<Rightarrow> mem \<Rightarrow> u32 \<Rightarrow> bool" where
  "elf_image I m h \<longleftrightarrow>
     e_magic m h = [0x7F, of_char (CHR ''E''), of_char (CHR ''L''), of_char (CHR ''F'')] \<and> e_filetype m h = 2 \<and>
     block h 52 \<subseteq> I \<and>
     (\<forall>i < phnum m h. block (phdr_addr m h (of_nat i)) 32 \<subseteq> I \<and> (loadable (phdr m h i) \<longrightarrow> seg_ok I h (phdr m h i))) \<and>
     (\<forall>i < phnum m h. \<forall>j < i. loadable (phdr m h i) \<longrightarrow> loadable (phdr m h j) \<longrightarrow> span (phdr m h i) \<inter> span (phdr m h j) = {})"

lemma elf_image_disjoint:
  assumes "elf_image I m h" "i < phnum m h" "x \<in> I"
  shows "loadable (phdr m h i) \<longrightarrow> x \<notin> span (phdr m h i)"
  using assms unfolding elf_image_def seg_ok_def by blast

lemma header_cong:
  assumes "\<And>x. x \<in> block h 52 \<Longrightarrow> m x = m' x"
  shows "e_entry m h = e_entry m' h" "e_phnum m h = e_phnum m' h" "phdr_addr m h i = phdr_addr m' h i"
proof -
  have "m (h + of_nat i) = m' (h + of_nat i)" if "i < 52" for i
    using that by (intro assms nth_in_block)
  from this [of 24] this [of 25] this [of 26] this [of 27] this [of 28] this [of 29] this [of 30] this [of 31]
    this [of 42] this [of 43] this [of 44] this [of 45]
  show "e_entry m h = e_entry m' h" "e_phnum m h = e_phnum m' h" "phdr_addr m h i = phdr_addr m' h i"
    by (simp_all add: header_defs phdr_addr_def read16_def read32_def add.assoc)
qed

text \<open>The pages that loading takes from segment number \<open>i\<close> on.\<close>

definition image_pages :: "mem \<Rightarrow> u32 \<Rightarrow> nat \<Rightarrow> nat" where
  "image_pages m h i =
     sum_list (map (\<lambda>k. if loadable (phdr m h k) then seg_pages (phdr m h k) else 0) [i..<phnum m h])"

lemma image_pages_step:
  "i < phnum m h \<Longrightarrow> image_pages m h i =
     (if loadable (phdr m h i) then seg_pages (phdr m h i) else 0) + image_pages m h (Suc i)"
  by (simp add: image_pages_def upt_conv_Cons)

text \<open>The segments from number \<open>i\<close> on are loaded, and nothing else has changed.\<close>

definition loaded_from :: "nat \<Rightarrow> mem \<Rightarrow> u32 \<Rightarrow> mem \<Rightarrow> mem \<Rightarrow> bool" where
  "loaded_from i m h before after \<longleftrightarrow>
     (\<forall>k. i \<le> k \<longrightarrow> k < phnum m h \<longrightarrow> loadable (phdr m h k) \<longrightarrow>
        (\<forall>j < unat (ph_memsz (phdr m h k)). after (ph_vaddr (phdr m h k) + of_nat j) = seg_byte m h (phdr m h k) j)) \<and>
     (\<forall>x. (\<forall>k. i \<le> k \<longrightarrow> k < phnum m h \<longrightarrow> loadable (phdr m h k) \<longrightarrow> x \<notin> span (phdr m h k)) \<longrightarrow> after x = before x)"

lemma loaded_from_step:
  assumes img: "elf_image I m h" and i: "i < phnum m h" and same: "\<forall>x \<in> I. before x = m x"
    and now: "loadable (phdr m h i) \<Longrightarrow> \<forall>j < unat (ph_memsz (phdr m h i)).
      mid (ph_vaddr (phdr m h i) + of_nat j) = seg_byte before h (phdr m h i) j"
    and frame: "\<forall>x. (loadable (phdr m h i) \<longrightarrow> x \<notin> span (phdr m h i)) \<longrightarrow> mid x = before x"
    and rest: "loaded_from (Suc i) m h mid after"
  shows "loaded_from i m h before after"
proof -
  let ?p = "phdr m h i"
  have later: "after x = mid x"
    if "\<And>k. i < k \<Longrightarrow> k < phnum m h \<Longrightarrow> loadable (phdr m h k) \<Longrightarrow> x \<notin> span (phdr m h k)" for x
    using rest that by (auto simp: loaded_from_def Suc_le_eq)
  have "after (ph_vaddr ?p + of_nat j) = seg_byte m h ?p j"
    if p: "loadable ?p" and j: "j < unat (ph_memsz ?p)" for j
  proof -
    have ok: "seg_ok I h ?p" using img i p by (simp add: elf_image_def)
    have "ph_vaddr ?p + of_nat j \<in> span ?p" using segment_in_span [OF ok] nth_in_block [OF j] by auto
    then have "after (ph_vaddr ?p + of_nat j) = mid (ph_vaddr ?p + of_nat j)"
      using img p i by (intro later) (auto simp: elf_image_def disjoint_iff)
    also have "\<dots> = seg_byte before h ?p j" using now p j by blast
    also have "\<dots> = seg_byte m h ?p j"
      using ok same nth_in_block [of j "unat (ph_filesz ?p)" "h + ph_offset ?p"]
      by (auto simp: seg_byte_def seg_ok_def)
    finally show ?thesis .
  qed
  moreover have "after x = before x"
    if x: "\<forall>k. i \<le> k \<longrightarrow> k < phnum m h \<longrightarrow> loadable (phdr m h k) \<longrightarrow> x \<notin> span (phdr m h k)" for x
    using later [of x] frame x i by auto
  moreover have "after (ph_vaddr (phdr m h k) + of_nat j) = seg_byte m h (phdr m h k) j"
    if "i < k" "k < phnum m h" "loadable (phdr m h k)" "j < unat (ph_memsz (phdr m h k))" for k j
    using rest that unfolding loaded_from_def by (blast intro: Suc_leI)
  ultimately show ?thesis
    unfolding loaded_from_def by (metis le_less)
qed

text \<open>A segment of the image, loadable or not: it is loaded or skipped, and nothing else changes.\<close>

lemma load_segment_step:
  assumes mp: "maps_pages mp" "supplies avail al mp" and img: "elf_image I m h" and i: "i < phnum m h"
    and ph: "phdr_at (lmem s) (phdr_addr m h (of_nat i)) = phdr m h i" and av: "image_pages m h i \<le> avail (pager s)"
  shows "\<exists>t. load_segment al mp h (phdr_addr m h (of_nat i)) s = Inr (True, t) \<and> image_pages m h (Suc i) \<le> avail (pager t) \<and>
    (loadable (phdr m h i) \<longrightarrow>
      (\<forall>j < unat (ph_memsz (phdr m h i)). lmem t (ph_vaddr (phdr m h i) + of_nat j) = seg_byte (lmem s) h (phdr m h i) j)) \<and>
    (\<forall>x. (loadable (phdr m h i) \<longrightarrow> x \<notin> span (phdr m h i)) \<longrightarrow> lmem t x = lmem s x)"
proof (cases "loadable (phdr m h i)")
  case True
  have "seg_ok I h (phdr m h i)" "block (phdr_addr m h (of_nat i)) 32 \<subseteq> I" using True img i by (simp_all add: elf_image_def)
  moreover have p: "image_pages m h i = seg_pages (phdr m h i) + image_pages m h (Suc i)"
    using image_pages_step [OF i] True by simp
  moreover have "seg_pages (phdr m h i) \<le> avail (pager s)" using av p by simp
  ultimately obtain t where t: "load_segment al mp h (phdr_addr m h (of_nat i)) s = Inr (True, t)"
    "avail (pager s) \<le> avail (pager t) + seg_pages (phdr m h i)"
    "\<forall>j < unat (ph_memsz (phdr m h i)). lmem t (ph_vaddr (phdr m h i) + of_nat j) = seg_byte (lmem s) h (phdr m h i) j"
    "\<forall>x. x \<notin> span (phdr m h i) \<longrightarrow> lmem t x = lmem s x"
    using load_segment_ok [OF mp _ True ph] by blast
  have "image_pages m h (Suc i) \<le> avail (pager t)" using t(2) av p by linarith
  then show ?thesis using t True by blast
next
  case False
  then have "load_segment al mp h (phdr_addr m h (of_nat i)) s = Inr (True, s)"
    using load_segment_skips [of s "phdr_addr m h (of_nat i)"] ph by simp
  then show ?thesis using False av image_pages_step [OF i] by simp
qed

lemma load_segments_ok:
  assumes mp: "maps_pages mp" "supplies avail al mp" and img: "elf_image I m h"
    and same: "\<forall>x \<in> I. lmem s x = m x" and i: "i \<le> phnum m h" and av: "image_pages m h i \<le> avail (pager s)"
  shows "\<exists>s'. load_segments al mp h (of_nat i) s = Inr (e_entry m h, s') \<and> loaded_from i m h (lmem s) (lmem s')"
  using same i av
proof (induction "phnum m h - i" arbitrary: i s)
  case 0
  have hdr: "e_phnum (lmem s) h = e_phnum m h" "e_entry (lmem s) h = e_entry m h"
    using header_cong [of h "lmem s" m] 0(2) img by (auto simp: elf_image_def)
  have "i = phnum m h" using 0 by simp
  then have "\<not> (of_nat i :: u32) < ucast (e_phnum m h)" by simp
  then have "load_segments al mp h (of_nat i) s = Inr (e_entry m h, s)"
    using hdr by (subst load_segments.simps) simp
  then show ?case using \<open>i = phnum m h\<close> by (auto simp: loaded_from_def)
next
  case (Suc n)
  then have i: "i < phnum m h" by simp
  have "phnum m h < 2 ^ 16" using unsigned_less [where 'a = nat, of "e_phnum m h"] by simp
  then have lt: "(of_nat i :: u32) < ucast (e_phnum m h)"
    using i by (simp add: word_less_nat_alt unsigned_ucast_eq take_bit_nat_eq_self)
  let ?a = "phdr_addr m h (of_nat i)" and ?p = "phdr m h i"
  have hdr: "e_phnum (lmem s) h = e_phnum m h" "phdr_addr (lmem s) h (of_nat i) = ?a"
    using header_cong [of h "lmem s" m] Suc(3) img by (auto simp: elf_image_def)
  have a: "block ?a 32 \<subseteq> I" using img i by (simp add: elf_image_def)
  have ph: "phdr_at (lmem s) ?a = ?p" unfolding phdr_def using a Suc(3) by (intro phdr_at_cong) auto
  obtain t where t: "load_segment al mp h ?a s = Inr (True, t)" "image_pages m h (Suc i) \<le> avail (pager t)"
    "loadable ?p \<Longrightarrow> \<forall>j < unat (ph_memsz ?p). lmem t (ph_vaddr ?p + of_nat j) = seg_byte (lmem s) h ?p j"
    "\<forall>x. (loadable ?p \<longrightarrow> x \<notin> span ?p) \<longrightarrow> lmem t x = lmem s x"
    using load_segment_step [OF mp img i ph Suc(5)] by blast
  have same_t: "\<forall>x \<in> I. lmem t x = m x"
  proof
    fix x assume x: "x \<in> I"
    have "lmem t x = lmem s x" using t(4) elf_image_disjoint [OF img i x] by simp
    then show "lmem t x = m x" using Suc(3) x by simp
  qed
  have n: "n = phnum m h - Suc i" "Suc i \<le> phnum m h" using Suc(2) i by simp_all
  have inc: "of_nat (Suc i) = (of_nat i + 1 :: u32)" by simp
  from Suc(1) [OF n(1) same_t n(2) t(2), unfolded inc] obtain s' where
    s': "load_segments al mp h (of_nat i + 1) t = Inr (e_entry m h, s')" "loaded_from (Suc i) m h (lmem t) (lmem s')"
    by blast
  have "load_segments al mp h (of_nat i) s = Inr (e_entry m h, s')"
    using lt hdr t(1) s'(1) by (subst load_segments.simps) simp
  moreover have "loaded_from i m h (lmem s) (lmem s')"
    by (rule loaded_from_step [OF img i Suc(3) t(3,4) s'(2)])
  ultimately show ?case by blast
qed

lemma elf_load_loads:
  assumes "maps_pages mp" "supplies avail al mp" "elf_image I (lmem s) h" "image_pages (lmem s) h 0 \<le> avail (pager s)"
  shows "\<exists>s'. elf_load al mp h s = Inr (e_entry (lmem s) h, s') \<and> loaded_from 0 (lmem s) h (lmem s) (lmem s')"
  using load_segments_ok [OF assms(1-3), of s 0] assms(3,4) by (simp add: elf_load_def elf_image_def)

text \<open>A page loop that starts at address zero, or that gets no page, fails at once.\<close>

lemma page_loop_fails:
  assumes "page < endp" "page = 0 \<or> (\<forall>st. fst (al st) = 0)"
  shows "\<exists>s'. page_loop page_fuel al mp page endp s = Inr (False, s')"
proof -
  have "page_fuel \<noteq> 0" by (simp add: page_fuel_def)
  then obtain n where n: "page_fuel = Suc n" by (cases page_fuel) auto
  obtain phys st where al: "al (pager s) = (phys, st)" by (cases "al (pager s)")
  then have "page = 0 \<or> phys = 0" using assms(2) by (metis fst_conv)
  then have "\<exists>s'. alloc_page_at al mp page s = (0, s')" using al by (auto simp: alloc_page_at_def Let_def)
  then show ?thesis unfolding n using assms(1) by auto
qed

text \<open>
  A small program for concrete instances: one segment of two bytes in the file and four
  in memory, at address 0x5000; the image starts at 0x1000. The mapper fills a new page
  with a pattern; the allocator has the frames 0xA000 and 0x9000.
\<close>

definition hello_elf :: "u8 list" where
  "hello_elf =
     [0x7F, 0x45, 0x4C, 0x46, 1, 1, 1, 0, 0, 0, 0, 0, 0, 0, 0, 0,
      2, 0, 3, 0, 1, 0, 0, 0, 0x00, 0x50, 0, 0, 52, 0, 0, 0, 0, 0, 0, 0, 0, 0, 0, 0,
      52, 0, 32, 0, 1, 0, 0, 0, 0, 0, 0, 0] @
     [1, 0, 0, 0, 84, 0, 0, 0, 0x00, 0x50, 0, 0, 0, 0, 0, 0, 2, 0, 0, 0, 4, 0, 0, 0, 5, 0, 0, 0, 0, 0x10, 0, 0] @
     [0xEB, 0xFE]"

definition elf_example :: "nat loader" where
  "elf_example = \<lparr>lmem = (\<lambda>a. if unat (a - 0x1000) < 86 then hello_elf ! unat (a - 0x1000) else 0xFF), pager = 2\<rparr>"

definition example_alloc :: "nat page_alloc" where
  "example_alloc n = (if n = 0 then (0, 0) else if n = 1 then (0x9000, 0) else (0xA000, n - 1))"

definition example_map :: "nat page_map" where
  "example_map v p f s = s\<lparr>lmem := (\<lambda>a. if unat (a - v) < 4096 then 0xCC else lmem s a)\<rparr>"

lemma in_block_diff: "a \<in> block v n" if "unat (a - v) < n" for a v :: u32
  unfolding block_def using that by (intro image_eqI [of _ _ "unat (a - v)"]) simp_all

lemma example_pages: "maps_pages example_map" "supplies id example_alloc example_map"
proof -
  show "maps_pages example_map" using in_block_diff by (auto simp: maps_pages_def example_map_def)
  have "fst (example_alloc n) \<noteq> 0 \<and> n \<le> Suc (snd (example_alloc n))" if "0 < n" for n
    using that by (auto simp: example_alloc_def)
  then show "supplies id example_alloc example_map" by (simp add: supplies_def example_map_def)
qed

lemma example_header:
  "e_magic (lmem elf_example) 0x1000 = [0x7F, of_char (CHR ''E''), of_char (CHR ''L''), of_char (CHR ''F'')]"
  "e_filetype (lmem elf_example) 0x1000 = 2" "e_phnum (lmem elf_example) 0x1000 = 1"
  "phdr_addr (lmem elf_example) 0x1000 0 = 0x1034"
  "e_entry (lmem elf_example) 0x1000 = 0x5000"
proof -
  note elf_example_def [simp] hello_elf_def [simp]
  show "e_magic (lmem elf_example) 0x1000 = [0x7F, of_char (CHR ''E''), of_char (CHR ''L''), of_char (CHR ''F'')]"
    by (simp add: header_defs)
  show "e_filetype (lmem elf_example) 0x1000 = 2" by (simp add: header_defs read16_def)
  show "e_phnum (lmem elf_example) 0x1000 = 1" by (simp add: header_defs read16_def)
  show "phdr_addr (lmem elf_example) 0x1000 0 = 0x1034" by (simp add: phdr_addr_def header_defs read32_def)
  show "e_entry (lmem elf_example) 0x1000 = 0x5000" by (simp add: header_defs read32_def)
qed

lemma example_phdr:
  "phdr_at (lmem elf_example) 0x1034 = \<lparr>ph_type = 1, ph_offset = 84, ph_vaddr = 0x5000, ph_paddr = 0,
     ph_filesz = 2, ph_memsz = 4, ph_flags = 5, ph_align = 0x1000\<rparr>"
  by (simp add: phdr_at_def read32_def elf_example_def hello_elf_def)

lemma elf_example_image: "elf_image (block 0x1000 86) (lmem elf_example) 0x1000"
proof -
  have p: "phdr (lmem elf_example) 0x1000 0 = \<lparr>ph_type = 1, ph_offset = 84, ph_vaddr = 0x5000, ph_paddr = 0,
     ph_filesz = 2, ph_memsz = 4, ph_flags = 5, ph_align = 0x1000\<rparr>"
    using example_phdr example_header(4) by (simp add: phdr_def)
  have "block 0x1000 52 \<subseteq> block 0x1000 86" "block 0x1034 32 \<subseteq> block 0x1000 86" "block 0x1054 2 \<subseteq> block 0x1000 86"
    by (auto simp: in_block_range)
  moreover have "span (phdr (lmem elf_example) 0x1000 0) \<inter> block 0x1000 86 = {}"
    by (auto simp: p span_def start_page_def end_page_def in_block_range word_le_nat_alt)
  ultimately show ?thesis
    using example_header by (simp add: elf_image_def p seg_ok_def)
qed

lemma example_room: "image_pages (lmem elf_example) 0x1000 0 \<le> id (pager elf_example)"
  using example_header(3,4) example_phdr
  by (simp add: image_pages_def phdr_def loadable_def seg_pages_def start_page_def end_page_def) (simp add: elf_example_def)

section \<open>Properties\<close>



text \<open>
  Out of memory is reported, and so is page zero: if the first segment is to be loaded
  and the allocator has no page, or the segment starts in the first page (whose address the
  loader cannot tell from the failure value), \<open>elf_load\<close> answers with a null pointer.
\<close>

theorem elf_load_fails:
  assumes "e_magic (lmem s) h = [0x7F, of_char (CHR ''E''), of_char (CHR ''L''), of_char (CHR ''F'')]"
    and "e_filetype (lmem s) h = 2" and "0 < e_phnum (lmem s) h"
    and "loadable (phdr (lmem s) h 0)" and "start_page (phdr (lmem s) h 0) < end_page (phdr (lmem s) h 0)"
    and "start_page (phdr (lmem s) h 0) = 0 \<or> (\<forall>st. fst (al st) = 0)"
  shows "\<exists>s'. elf_load al mp h s = Inr (0, s')"
proof -
  let ?p = "phdr (lmem s) h 0"
  obtain t where t: "page_loop page_fuel al mp (start_page ?p) (end_page ?p) s = Inr (False, t)"
    using page_loop_fails [OF assms(5,6)] by blast
  have p: "phdr_at (lmem s) (phdr_addr (lmem s) h 0) = ?p" by (simp add: phdr_def)
  have "load_segment al mp h (phdr_addr (lmem s) h 0) s = Inr (False, t)"
    using assms(4) t by (simp add: load_segment_def p loadable_def)
  moreover have "(0 :: u32) < ucast (e_phnum (lmem s) h)"
    using assms(3) by (simp add: word_less_nat_alt unsigned_ucast_eq take_bit_nat_eq_self
        unsigned_less [where 'a = nat, THEN less_trans])
  ultimately have "load_segments al mp h 0 s = Inr (0, t)" by (subst load_segments.simps) simp
  then show ?thesis using assms(1,2) by (simp add: elf_load_def)
qed

theorem elf_load_fails_witness:
  "\<exists>s'. elf_load (\<lambda>st. (0, st)) example_map 0x1000 elf_example = Inr (0, s')"
  by (rule elf_load_fails)
    (simp_all add: example_header example_phdr phdr_def loadable_def start_page_def end_page_def)

text \<open>
  C12. \<open>exec_user_program\<close> does not start the program. For an image as above whose entry point
  lies in one of its loadable segments, and with enough pages, it loads the program, puts the entry point into \<open>eax\<close> and raises interrupt 0x80; the
  handler of \<^verbatim>\<open>syscall_handler.c\<close> takes it for a system call number, and as the segments lie above the first
  page no call has such a number: the answer is \<open>-1\<close> and the machine is left as the loader
  left it. That the interrupt reaches this handler is granted to the code: the interrupt table the kernel loads has
  no gate for it.
\<close>

theorem exec_never_starts:
  assumes "maps_pages mp" "supplies avail al mp" "elf_image I (lmem s) h" "image_pages (lmem s) h 0 \<le> avail (pager s)"
    and "k < phnum (lmem s) h" "loadable (phdr (lmem s) h k)"
    and "e_entry (lmem s) h \<in> block (ph_vaddr (phdr (lmem s) h k)) (unat (ph_memsz (phdr (lmem s) h k)))"
  shows "\<exists>s'. elf_load al mp h s = Inr (e_entry (lmem s) h, s') \<and>
    exec_user_program al mp (syscall_int80_handler terminal_write sys_alloc sys_free) regs h s = Inr (- 1, s')"
proof -
  have ok: "seg_ok I h (phdr (lmem s) h k)" using assms(3,5,6) by (simp add: elf_image_def)
  then have "4096 \<le> unat (e_entry (lmem s) h)" using assms(7) by (auto simp: seg_ok_def in_block_range)
  then have "e_entry (lmem s) h \<notin> {0, SYS_EXIT, SYS_WRITE, SYS_ALLOC, SYS_FREE}" by auto
  then show ?thesis
    using elf_load_loads [OF assms(1-4)]
    by (auto simp: exec_user_program_def syscall_int80_handler_def syscall_handler_def)
qed

theorem exec_never_starts_witness:
  "\<exists>s'. elf_load example_alloc example_map 0x1000 elf_example = Inr (e_entry (lmem elf_example) 0x1000, s') \<and>
    exec_user_program example_alloc example_map
      (syscall_int80_handler (\<lambda>a n s. s) (\<lambda>n s. (0, s)) (\<lambda>p n s. s))
      \<lparr>f_ds = 0, f_edi = 0, f_esi = 0, f_ebp = 0, f_esp = 0, f_ebx = 0, f_edx = 0, f_ecx = 0, f_eax = 0,
       f_int_no = 0, f_err_code = 0, f_eip = 0, f_cs = 0, f_eflags = 0, f_useresp = 0, f_ss = 0\<rparr>
      0x1000 elf_example = Inr (- 1, s')"
proof (rule exec_never_starts [OF example_pages elf_example_image example_room])
  have p: "phdr (lmem elf_example) 0x1000 0 = \<lparr>ph_type = 1, ph_offset = 84, ph_vaddr = 0x5000, ph_paddr = 0,
     ph_filesz = 2, ph_memsz = 4, ph_flags = 5, ph_align = 0x1000\<rparr>"
    using example_phdr example_header(4) by (simp add: phdr_def)
  show "0 < phnum (lmem elf_example) 0x1000" "loadable (phdr (lmem elf_example) 0x1000 0)"
    by (simp_all add: example_header p loadable_def)
  show "e_entry (lmem elf_example) 0x1000 \<in>
      block (ph_vaddr (phdr (lmem elf_example) 0x1000 0)) (unat (ph_memsz (phdr (lmem elf_example) 0x1000 0)))"
    by (simp add: example_header p in_block_range)
qed

end
