(* ===== verification/Kernel_Main.thy ===== *)
theory Kernel_Main
  imports Shell Descriptors Multiboot Timer
begin

text \<open>
  The kernel's entry point, \<^verbatim>\<open>kernel/kernel_main.c\<close>: the order in which the components
  are started, on one state that holds the variables of all of them. Five of the functions
  it calls (\<open>terminal_writestring\<close>, \<open>pmm_init\<close>, \<open>initramfs_init\<close>, \<open>keyboard_init\<close>,
  \<open>scheduler_init\<close>) are declared but defined nowhere in the sources: they are parameters.
\<close>

section \<open>State\<close>

text \<open>The shell's state extended by the descriptor tables of \<open>gdt_full.c\<close> and \<open>idt.c\<close>.\<close>

record kernel_state = shell_state +
  k_gdt :: "gdt_entry list"
  k_gp :: gdt_ptr
  k_tss :: tss_entry
  k_idt :: "idt_entry list"
  k_idtp :: idt_ptr

text \<open>The functions of the descriptor components work on their part of the state.\<close>

definition on_gdt ::
  "(gdt_state \<Rightarrow> gdt_state res) \<Rightarrow> 'a kernel_state_scheme \<Rightarrow> 'a kernel_state_scheme res" where
  "on_gdt f s =
     bindR (f \<lparr>ins = ins s, io_log = io_log s, gdt = k_gdt s, gp = k_gp s, tss = k_tss s\<rparr>) (\<lambda>g.
     Inr (s\<lparr>ins := ins g, io_log := io_log g, k_gdt := gdt g, k_gp := gp g, k_tss := tss g\<rparr>))"

definition on_idt ::
  "(idt_state \<Rightarrow> idt_state) \<Rightarrow> 'a kernel_state_scheme \<Rightarrow> 'a kernel_state_scheme" where
  "on_idt f s =
     (let t = f \<lparr>ins = ins s, io_log = io_log s, idt = k_idt s, idtp = k_idtp s\<rparr> in
      s\<lparr>ins := ins t, io_log := io_log t, k_idt := idt t, k_idtp := idtp t\<rparr>)"

text \<open>The functions that are only declared, and the addresses the linker chooses.\<close>

record 's services =
  terminal_writestring :: "u8 list \<Rightarrow> 's \<Rightarrow> 's res"
  pmm_init :: "u32 \<Rightarrow> u32 \<Rightarrow> u32 \<Rightarrow> 's \<Rightarrow> 's res"
  initramfs_init :: "'s \<Rightarrow> 's res"
  keyboard_init :: "'s \<Rightarrow> 's res"
  scheduler_init :: "'s \<Rightarrow> 's res"

record layout =
  gdt_address :: u32
  tss_address :: u32
  idt_address :: u32

section \<open>Operations\<close>

definition say :: "'s services \<Rightarrow> string \<Rightarrow> 's \<Rightarrow> 's res" where
  "say E t = terminal_writestring E (cstr t)"

text \<open>Every part is started between a message and an acknowledgement.\<close>

definition stage :: "'s services \<Rightarrow> string \<Rightarrow> ('s \<Rightarrow> 's res) \<Rightarrow> 's \<Rightarrow> 's res" where
  "stage E msg f = seqR [say E (msg @ [NL]), f, say E (''OK'' @ [NL])]"

text \<open>\<open>kernel_main\<close> up to the final loop. The memory \<open>m\<close> holds the boot information.\<close>

definition kernel_boot ::
  "'a kernel_state_scheme services \<Rightarrow> layout \<Rightarrow> nat \<Rightarrow> mem \<Rightarrow> u32 \<Rightarrow> u32 \<Rightarrow>
   'a kernel_state_scheme \<Rightarrow> 'a kernel_state_scheme res" where
  "kernel_boot E L fuel m magic addr = seqR
     [vga_init,
      say E (''Larch OS v1.0'' @ [NL]),
      stage E ''Parsing multiboot...'' (parse_multiboot2 fuel m magic addr),
      stage E ''Initializing GDT...'' (on_gdt (gdt_init (gdt_address L) (tss_address L))),
      stage E ''Initializing IDT...'' (Inr \<circ> on_idt (idt_init (idt_address L))),
      stage E ''Initializing PMM...''
        (\<lambda>s. pmm_init E (multiboot2_memory_lower s) (multiboot2_memory_upper s) 0x200000 s),
      stage E ''Initializing TSS...'' (on_gdt (tss_init (tss_address L) 0x300000)),
      stage E ''Initializing printf...'' printf_init,
      stage E ''Initializing PIT...'' (Inr \<circ> pit_init),
      stage E ''Initializing initramfs...'' (initramfs_init E),
      stage E ''Initializing keyboard...'' (keyboard_init E),
      stage E ''Starting scheduler...'' (scheduler_init E),
      stage E ''Initializing shell...'' shell_init,
      say E (''Larch OS is ready.'' @ [NL]),
      Inr \<circ> privileged Sti]"

text \<open>The final loop halts for ever.\<close>

definition halt_forever :: "'a io_state_scheme \<Rightarrow> 'a io_state_scheme res" where
  "halt_forever s = Inl (Spinning (io_log s @ [Hlt]))"

definition kernel_main ::
  "'a kernel_state_scheme services \<Rightarrow> layout \<Rightarrow> nat \<Rightarrow> mem \<Rightarrow> u32 \<Rightarrow> u32 \<Rightarrow>
   'a kernel_state_scheme \<Rightarrow> 'a kernel_state_scheme res" where
  "kernel_main E L fuel m magic addr s = bindR (kernel_boot E L fuel m magic addr s) halt_forever"

text \<open>The counting loop has no effect; the parameter \<open>line\<close> is not used.\<close>

definition kernel_panic ::
  "'a io_state_scheme services \<Rightarrow> u8 list \<Rightarrow> u8 list \<Rightarrow> int \<Rightarrow> 'a io_state_scheme \<Rightarrow> 'a io_state_scheme res" where
  "kernel_panic E msg source line s =
     bindR (seqR [say E ([NL, NL] @ '' KERNEL PANIC '' @ [NL]), say E ''Message: '', terminal_writestring E msg,
                  say E ([NL] @ ''Location: ''), terminal_writestring E source, say E '':'',
                  say E ([NL] @ ''System halted.'' @ [NL])] s) halt_forever"

section \<open>Steps that leave the other components alone\<close>

text \<open>
  \<open>foreign s s'\<close>: between \<open>s\<close> and \<open>s'\<close> only the console, the devices and variables
  outside the modelled components have changed.
\<close>

definition foreign :: "'a kernel_state_scheme \<Rightarrow> 'a kernel_state_scheme \<Rightarrow> bool" where
  "foreign s s' \<longleftrightarrow> vga_wf s' \<and> tick_count s' = tick_count s \<and>
     multiboot2_memory_lower s' = multiboot2_memory_lower s \<and>
     multiboot2_memory_upper s' = multiboot2_memory_upper s \<and> initrd s' = initrd s \<and>
     shell_history s' = shell_history s \<and> input_buf s' = input_buf s \<and> cmd_pos s' = cmd_pos s \<and>
     escape_sequence s' = escape_sequence s \<and> k_gdt s' = k_gdt s \<and> k_gp s' = k_gp s \<and> k_tss s' = k_tss s \<and>
     k_idt s' = k_idt s \<and> k_idtp s' = k_idtp s"

lemma foreign_refl: "vga_wf s \<Longrightarrow> foreign s s"
  by (simp add: foreign_def)

lemma foreign_trans: "foreign s s' \<Longrightarrow> foreign s' s'' \<Longrightarrow> foreign s s''"
  by (simp add: foreign_def)

lemma foreign_wf: "foreign s s' \<Longrightarrow> vga_wf s'"
  by (simp add: foreign_def)

lemma kept_foreign: "kept s s' \<Longrightarrow> foreign s s'"
  by (cases s; cases s'; simp add: kept_def foreign_def vga_state.defs)

lemma on_screen_foreign: "succeeds m (on_screen s) \<Longrightarrow> succeeds m (foreign s)"
  by (erule succeeds_weaken) (intro kept_foreign on_screen_kept)

lemma foreign_log:
  "vga_wf s \<Longrightarrow> foreign s (privileged e s)" "vga_wf s \<Longrightarrow> foreign s (pit_init s)"
  for s :: "'a kernel_state_scheme"
  by (simp_all add: foreign_def vga_wf_def privileged_def pit_init_def outb_def Let_def)

lemma vga_init_foreign: "vga_wf s \<Longrightarrow> succeeds (vga_init s) (foreign s)"
proof (rule on_screen_foreign)
  assume "vga_wf s"
  then obtain t where t: "vga_clear s = Inr t" "on_screen s t"
    using clear_on_screen [of s] by (auto simp: cmd_clear_def succeeds_iff)
  then have "on_screen t (vga_set_color 0x0F 0x00 t)"
    by (intro vga_set_color_on_screen) (simp add: on_screen_def)
  then show "succeeds (vga_init s) (on_screen s)"
    using t on_screen_trans [OF t(2)] by (simp add: vga_init_def)
qed

lemma shell_init_foreign: "vga_wf s \<Longrightarrow> succeeds (shell_init s) (foreign s)"
  unfolding shell_init_def
  by (rule on_screen_foreign, rule seqR_on_screen) (auto intro!: console_steps prompt_on_screen)

lemma printf_init_foreign: "vga_wf s \<Longrightarrow> succeeds (printf_init s) (foreign s)"
proof -
  assume s: "vga_wf s"
  have "kprintf (cstr (''[INFO] printf initialized'' @ [CHR 0x0A])) [] s =
      emit (map of_char (''[INFO] printf initialized'' @ [CHR 0x0A])) s"
    unfolding emit_def by (rule kprintf_render) (simp_all add: cstring_cstr)
  then show ?thesis
    unfolding printf_init_def using emit_on_screen [OF s]
    by (simp only:) (rule on_screen_foreign, rule succeeds_weaken, assumption, simp)
qed

section \<open>What the missing functions have to do\<close>

definition files_ok :: "fs_state \<Rightarrow> bool" where
  "files_ok fs \<longleftrightarrow> fs_wf fs \<and> (\<forall>e \<in> set (fs_dir fs). length (snd e) + 256 < 2 ^ 32)"

text \<open>
  They return, use the console and devices only as allowed, and touch no variable of
  another component; \<open>initramfs_init\<close> leaves a well-formed table of files.
\<close>

definition services_ok :: "'a kernel_state_scheme services \<Rightarrow> bool" where
  "services_ok E \<longleftrightarrow>
     (\<forall>p s. terminated p \<longrightarrow> vga_wf s \<longrightarrow> succeeds (terminal_writestring E p s) (foreign s)) \<and>
     (\<forall>l u b s. vga_wf s \<longrightarrow> succeeds (pmm_init E l u b s) (foreign s)) \<and>
     (\<forall>s. vga_wf s \<longrightarrow> succeeds (keyboard_init E s) (foreign s)) \<and>
     (\<forall>s. vga_wf s \<longrightarrow> succeeds (scheduler_init E s) (foreign s)) \<and>
     (\<forall>s. vga_wf s \<longrightarrow> succeeds (initramfs_init E s) (\<lambda>s'. foreign (s\<lparr>initrd := initrd s'\<rparr>) s' \<and> files_ok (initrd s')))"

lemma say_foreign: "services_ok E \<Longrightarrow> vga_wf s \<Longrightarrow> succeeds (say E t s) (foreign s)"
  by (simp add: services_ok_def say_def)

lemma service_foreign:
  assumes "services_ok E" "vga_wf s"
  shows "succeeds (pmm_init E l u b s) (foreign s)" "succeeds (keyboard_init E s) (foreign s)"
    "succeeds (scheduler_init E s) (foreign s)"
    "succeeds (initramfs_init E s) (\<lambda>s'. foreign (s\<lparr>initrd := initrd s'\<rparr>) s' \<and> files_ok (initrd s'))"
  using assms by (simp_all add: services_ok_def)

lemmas foreign_steps = say_foreign service_foreign(1-3) vga_init_foreign shell_init_foreign printf_init_foreign foreign_log

section \<open>The special steps\<close>

lemma mmap_step_eq:
  "mmap_step e s = s\<lparr>multiboot2_memory_lower := (if e_type e = 1 \<and> e_addr e = 0 then ucast (e_len e) else multiboot2_memory_lower s),
     multiboot2_memory_upper := (if e_type e = 1 \<and> e_addr e = 0x100000 then ucast (e_len e) else multiboot2_memory_upper s)\<rparr>"
  by (auto simp: mmap_step_def)

lemma mmap_steps_eq:
  "fold mmap_step es s = s\<lparr>multiboot2_memory_lower := usable_at 0 es (multiboot2_memory_lower s),
     multiboot2_memory_upper := usable_at 0x100000 es (multiboot2_memory_upper s)\<rparr>"
  by (induction es arbitrary: s) (simp_all add: mmap_step_eq)

lemma parse_step:
  assumes "tag_chain m addr ts" "length ts < fuel"
  shows "parse_multiboot2 fuel m 0x36D76289 addr s =
    Inr (s\<lparr>multiboot2_memory_lower := usable_at 0 (concat (map (tag_entries m) ts)) (multiboot2_memory_lower s),
           multiboot2_memory_upper := usable_at 0x100000 (concat (map (tag_entries m) ts)) (multiboot2_memory_upper s)\<rparr>)"
  by (simp add: parse_multiboot2_def parse_tags_eq [OF assms] mmap_steps_eq)

lemma gdt_step:
  fixes s :: "'a kernel_state_scheme"
  assumes "length (k_gdt s) = 6"
  shows "\<exists>g :: gdt_state. on_gdt (gdt_init a b) s =
      Inr (s\<lparr>ins := ins g, io_log := io_log g, k_gdt := gdt g, k_gp := gp g, k_tss := tss g\<rparr>) \<and> flat_table b (gdt g)"
proof -
  let ?g = "\<lparr>ins = ins s, io_log = io_log s, gdt = k_gdt s, gp = k_gp s, tss = k_tss s\<rparr>"
  obtain g where "gdt_init a b ?g = Inr g" "flat_table b (gdt g)"
    using gdt_init_ok [of ?g a b] assms by auto
  then show ?thesis by (intro exI [of _ g]) (simp add: on_gdt_def)
qed

lemma tss_step:
  fixes s :: "'a kernel_state_scheme"
  assumes "flat_table b (k_gdt s)"
  shows "\<exists>g :: gdt_state. on_gdt (tss_init b k) s =
      Inr (s\<lparr>ins := ins g, io_log := io_log g, k_gdt := gdt g, k_gp := gp g, k_tss := tss g\<rparr>) \<and>
      flat_table b (gdt g) \<and> t_esp0 (tss g) = k"
proof -
  let ?g = "\<lparr>ins = ins s, io_log = io_log s, gdt = k_gdt s, gp = k_gp s, tss = k_tss s\<rparr>"
  obtain g where "tss_init b k ?g = Inr g" "flat_table b (gdt g)" "t_esp0 (tss g) = k"
    using tss_init_ok [of b ?g k] assms by auto
  then show ?thesis by (intro exI [of _ g]) (simp add: on_gdt_def)
qed

lemma idt_step:
  "on_idt (idt_init a) s = s\<lparr>io_log := io_log s @ [Lidt 2047 a], k_idtp := \<lparr>idtp_limit = 2047, idtp_base = a\<rparr>\<rparr>"
  for s :: "'a kernel_state_scheme"
  by (simp add: on_idt_def idt_init_def Let_def privileged_def)

lemma vga_wf_tables [simp]:
  "vga_wf (s\<lparr>ins := i\<rparr>) = vga_wf s" "vga_wf (s\<lparr>io_log := l\<rparr>) = vga_wf s"
  "vga_wf (s\<lparr>multiboot2_memory_lower := x\<rparr>) = vga_wf s" "vga_wf (s\<lparr>multiboot2_memory_upper := y\<rparr>) = vga_wf s"
  "vga_wf (s\<lparr>k_gdt := g\<rparr>) = vga_wf s" "vga_wf (s\<lparr>k_gp := p\<rparr>) = vga_wf s" "vga_wf (s\<lparr>k_tss := t\<rparr>) = vga_wf s"
  "vga_wf (s\<lparr>k_idtp := q\<rparr>) = vga_wf s" "vga_wf (s\<lparr>initrd := fs\<rparr>) = vga_wf s"
  for s :: "'a kernel_state_scheme"
  by (simp_all add: vga_wf_def)

section \<open>The boot sequence\<close>

text \<open>The state the boot loader starts the kernel in: static variables, zeroed or initialised.\<close>

definition cold :: "'a kernel_state_scheme \<Rightarrow> bool" where
  "cold s \<longleftrightarrow> vga_wf s \<and> tick_count s = 0 \<and> shell_history s = hist_init \<and> input_buf s = replicate 256 0 \<and>
     cmd_pos s = 0 \<and> escape_sequence s = 0 \<and> length (k_gdt s) = 6 \<and>
     k_idt s = idt idt_zero"

text \<open>What is true when the kernel waits for its first interrupt.\<close>

definition booted :: "layout \<Rightarrow> u32 \<Rightarrow> u32 \<Rightarrow> 'a kernel_state_scheme \<Rightarrow> bool" where
  "booted L lower upper s \<longleftrightarrow> editor_wf s \<and> editor_line s = [] \<and> escape_sequence s = 0 \<and> tick_count s = 0 \<and>
     hist_entries (shell_history s) = [] \<and>
     multiboot2_memory_lower s = lower \<and> multiboot2_memory_upper s = upper \<and>
     flat_table (tss_address L) (k_gdt s) \<and> t_esp0 (k_tss s) = 0x300000 \<and>
     idtp_base (k_idtp s) = idt_address L \<and> filter gate_present (k_idt s) = [] \<and>
     last (io_log s) = Sti"

text \<open>
  Assertions between the steps: \<open>triple Q f R\<close> says that from a well-formed console with
  \<open>Q\<close> the step returns with \<open>R\<close>. A stable assertion survives foreign steps.
\<close>

definition triple :: "('a kernel_state_scheme \<Rightarrow> bool) \<Rightarrow> ('a kernel_state_scheme \<Rightarrow> 'a kernel_state_scheme res) \<Rightarrow>
    ('a kernel_state_scheme \<Rightarrow> bool) \<Rightarrow> bool" where
  "triple Q f R \<longleftrightarrow> (\<forall>s. vga_wf s \<longrightarrow> Q s \<longrightarrow> succeeds (f s) (\<lambda>s'. vga_wf s' \<and> R s'))"

definition stable :: "('a kernel_state_scheme \<Rightarrow> bool) \<Rightarrow> bool" where
  "stable Q \<longleftrightarrow> (\<forall>s s'. Q s \<longrightarrow> foreign s s' \<longrightarrow> Q s')"

lemma triple_Cons:
  assumes "triple Q f R" "triple R (seqR fs) T"
  shows "triple Q (seqR (f # fs)) T"
  unfolding triple_def seqR.simps
proof (intro allI impI)
  fix s assume "vga_wf s" "Q s"
  then have "succeeds (f s) (\<lambda>s'. vga_wf s' \<and> R s')" using assms(1) by (simp add: triple_def)
  then show "succeeds (bindR (f s) (seqR fs)) (\<lambda>s'. vga_wf s' \<and> T s')"
    by (rule succeeds_bindR) (use assms(2) in \<open>simp add: triple_def\<close>)
qed

lemma triple_Nil: "triple Q (seqR []) Q"
  by (simp add: triple_def)

lemma triple_foreign:
  assumes "stable Q" "\<And>s. vga_wf s \<Longrightarrow> succeeds (f s) (foreign s)"
  shows "triple Q f Q"
  unfolding triple_def
proof (intro allI impI)
  fix s assume s: "vga_wf s" "Q s"
  then have "succeeds (f s) (foreign s)" by (intro assms(2))
  then show "succeeds (f s) (\<lambda>s'. vga_wf s' \<and> Q s')"
    by (rule succeeds_weaken) (use assms(1) s(2) in \<open>auto simp: stable_def foreign_wf\<close>)
qed

lemma triple_stage:
  assumes "services_ok E" "stable Q" "triple Q f R" "stable R"
  shows "triple Q (stage E msg f) R"
  unfolding stage_def using assms
  by (intro triple_Cons [of Q _ Q] triple_Cons [of Q f R] triple_Cons [of R _ R] triple_Nil triple_foreign say_foreign)

text \<open>
  The assertions of the boot sequence: the shell's variables are untouched, the memory
  sizes are known, and \<open>X\<close> holds of the tables and the files.
\<close>

definition boot_inv ::
  "u32 \<Rightarrow> u32 \<Rightarrow> (gdt_entry list \<Rightarrow> tss_entry \<Rightarrow> idt_ptr \<Rightarrow> fs_state \<Rightarrow> bool) \<Rightarrow> 'a kernel_state_scheme \<Rightarrow> bool" where
  "boot_inv l u X s \<longleftrightarrow> tick_count s = 0 \<and> shell_history s = hist_init \<and> input_buf s = replicate 256 0 \<and>
     cmd_pos s = 0 \<and> escape_sequence s = 0 \<and> k_idt s = idt idt_zero \<and>
     multiboot2_memory_lower s = l \<and> multiboot2_memory_upper s = u \<and>
     X (k_gdt s) (k_tss s) (k_idtp s) (initrd s)"

lemma boot_inv_stable: "stable (boot_inv l u X)"
  by (simp add: stable_def boot_inv_def foreign_def)

lemma parse_triple:
  assumes "tag_chain m addr ts" "length ts < fuel"
  shows "triple (boot_inv l u X) (parse_multiboot2 fuel m 0x36D76289 addr)
    (boot_inv (usable_at 0 (concat (map (tag_entries m) ts)) l) (usable_at 0x100000 (concat (map (tag_entries m) ts)) u) X)"
  by (simp add: triple_def parse_step [OF assms] boot_inv_def)

lemma gdt_triple:
  "triple (boot_inv l u (\<lambda>g t i f. length g = 6)) (on_gdt (gdt_init a b)) (boot_inv l u (\<lambda>g t i f. flat_table b g))"
  unfolding triple_def
proof (intro allI impI)
  fix s :: "'a kernel_state_scheme" assume s: "vga_wf s" "boot_inv l u (\<lambda>g t i f. length g = 6) s"
  then obtain g :: gdt_state where "on_gdt (gdt_init a b) s =
      Inr (s\<lparr>ins := ins g, io_log := io_log g, k_gdt := gdt g, k_gp := gp g, k_tss := tss g\<rparr>)" "flat_table b (gdt g)"
    using gdt_step [of s a b] by (auto simp: boot_inv_def)
  then show "succeeds (on_gdt (gdt_init a b) s) (\<lambda>s'. vga_wf s' \<and> boot_inv l u (\<lambda>g t i f. flat_table b g) s')"
    using s by (simp add: boot_inv_def)
qed

lemma idt_triple:
  "triple (boot_inv l u (\<lambda>g t i f. flat_table b g)) (Inr \<circ> on_idt (idt_init a))
     (boot_inv l u (\<lambda>g t i f. flat_table b g \<and> idtp_base i = a))"
  by (simp add: triple_def idt_step boot_inv_def)

lemma tss_triple:
  "triple (boot_inv l u (\<lambda>g t i f. flat_table b g \<and> idtp_base i = a)) (on_gdt (tss_init b k))
     (boot_inv l u (\<lambda>g t i f. flat_table b g \<and> idtp_base i = a \<and> t_esp0 t = k))"
  unfolding triple_def
proof (intro allI impI)
  fix s :: "'a kernel_state_scheme" assume s: "vga_wf s" "boot_inv l u (\<lambda>g t i f. flat_table b g \<and> idtp_base i = a) s"
  then obtain g :: gdt_state where "on_gdt (tss_init b k) s =
      Inr (s\<lparr>ins := ins g, io_log := io_log g, k_gdt := gdt g, k_gp := gp g, k_tss := tss g\<rparr>)"
      "flat_table b (gdt g)" "t_esp0 (tss g) = k"
    using tss_step [of b s k] by (auto simp: boot_inv_def)
  then show "succeeds (on_gdt (tss_init b k) s)
      (\<lambda>s'. vga_wf s' \<and> boot_inv l u (\<lambda>g t i f. flat_table b g \<and> idtp_base i = a \<and> t_esp0 t = k) s')"
    using s by (simp add: boot_inv_def)
qed

lemma initramfs_triple:
  assumes "services_ok E"
  shows "triple (boot_inv l u (\<lambda>g t i f. Y g t i)) (initramfs_init E)
     (boot_inv l u (\<lambda>g t i f. Y g t i \<and> files_ok f))"
  unfolding triple_def
proof (intro allI impI)
  fix s :: "'a kernel_state_scheme" assume s: "vga_wf s" "boot_inv l u (\<lambda>g t i f. Y g t i) s"
  show "succeeds (initramfs_init E s) (\<lambda>s'. vga_wf s' \<and> boot_inv l u (\<lambda>g t i f. Y g t i \<and> files_ok f) s')"
    by (rule succeeds_weaken [OF service_foreign(4) [OF assms s(1)]])
      (use s in \<open>simp add: boot_inv_def foreign_def\<close>)
qed

lemma sti_triple:
  "triple (boot_inv l u X) (seqR [Inr \<circ> privileged Sti]) (\<lambda>s. boot_inv l u X s \<and> last (io_log s) = Sti)"
  by (simp add: triple_def boot_inv_def privileged_def)

lemma kernel_boot_triple:
  assumes E: "services_ok E" and ts: "tag_chain m addr ts" "length ts < fuel"
  shows "triple (boot_inv l u (\<lambda>g t i f. length g = 6)) (kernel_boot E L fuel m 0x36D76289 addr)
    (\<lambda>s. boot_inv (usable_at 0 (concat (map (tag_entries m) ts)) l) (usable_at 0x100000 (concat (map (tag_entries m) ts)) u)
       (\<lambda>g t i f. (flat_table (tss_address L) g \<and> idtp_base i = idt_address L \<and> t_esp0 t = 0x300000) \<and> files_ok f) s \<and>
       last (io_log s) = Sti)"
proof -
  note st = triple_stage [OF E boot_inv_stable _ boot_inv_stable]
  note fo = triple_foreign [OF boot_inv_stable]
  note steps = say_foreign [OF E] service_foreign [OF E] vga_init_foreign shell_init_foreign printf_init_foreign
  show ?thesis
    unfolding kernel_boot_def
    apply (rule triple_Cons, rule fo, erule steps)
    apply (rule triple_Cons, rule fo, erule steps)
    apply (rule triple_Cons, rule st, rule parse_triple [OF ts])
    apply (rule triple_Cons, rule st, rule gdt_triple)
    apply (rule triple_Cons, rule st, rule idt_triple)
    apply (rule triple_Cons, rule st, rule fo, erule steps)
    apply (rule triple_Cons, rule st, rule tss_triple)
    apply (rule triple_Cons, rule st, rule fo, erule steps)
    apply (rule triple_Cons, rule st, rule fo, simp add: foreign_log)
    apply (rule triple_Cons, rule st, rule initramfs_triple [OF E])
    apply (rule triple_Cons, rule st, rule fo, erule steps)
    apply (rule triple_Cons, rule st, rule fo, erule steps)
    apply (rule triple_Cons, rule st, rule fo, erule steps)
    apply (rule triple_Cons, rule fo, erule steps)
    by (rule sti_triple)
qed

lemma boot_inv_booted:
  fixes s :: "'a kernel_state_scheme"
  assumes "vga_wf s" "last (io_log s) = Sti"
    "boot_inv l u (\<lambda>g t i f. (flat_table (tss_address L) g \<and> idtp_base i = idt_address L \<and> t_esp0 t = 0x300000) \<and> files_ok f) s"
  shows "booted L l u s"
proof -
  have "filter gate_present (idt idt_zero) = []" by (simp add: idt_zero_def gate_present_def)
  moreover have "hist_entries hist_init = []" by (simp add: hist_entries_def hist_init_def)
  ultimately show ?thesis
    using assms hist_init_wf
    by (auto simp: booted_def boot_inv_def editor_wf_def machine_wf_def files_ok_def editor_line_def)
qed

lemma boot_ok:
  fixes s :: "'a kernel_state_scheme"
  assumes "services_ok E" "cold s" "tag_chain m addr ts" "length ts < fuel"
  shows "succeeds (kernel_boot E L fuel m 0x36D76289 addr s)
    (booted L (usable_at 0 (concat (map (tag_entries m) ts)) (multiboot2_memory_lower s))
       (usable_at 0x100000 (concat (map (tag_entries m) ts)) (multiboot2_memory_upper s)))"
proof -
  have "boot_inv (multiboot2_memory_lower s) (multiboot2_memory_upper s) (\<lambda>g t i f. length g = 6) s" "vga_wf s"
    using assms(2) by (simp_all add: cold_def boot_inv_def)
  from kernel_boot_triple [OF assms(1,3,4), of "multiboot2_memory_lower s" "multiboot2_memory_upper s" L,
      unfolded triple_def, rule_format, OF this(2,1)]
  show ?thesis by (rule succeeds_weaken) (blast intro: boot_inv_booted)
qed

text \<open>
  An instance: the terminal is the console, the file table is the example's, the other
  functions do nothing; all tables are zero.
\<close>

definition example_services :: "kernel_state services" where
  "example_services = \<lparr>terminal_writestring = vga_writestring, pmm_init = (\<lambda>l u b s. Inr s),
     initramfs_init = (\<lambda>s. Inr (s\<lparr>initrd := hello_fs\<rparr>)), keyboard_init = Inr, scheduler_init = Inr\<rparr>"

definition example_layout :: layout where
  "example_layout = \<lparr>gdt_address = 0x105000, tss_address = 0x105040, idt_address = 0x106000\<rparr>"

definition cold_example :: kernel_state where
  "cold_example = \<lparr>ins = [], io_log = [], vga_buffer = replicate 2000 (blank_cell 0x0F),
     cursor_x = 0, cursor_y = 0, current_color = 0x0F, tick_count = 0,
     multiboot2_memory_lower = 0, multiboot2_memory_upper = 0, initrd = fs_init,
     shell_history = hist_init, input_buf = replicate 256 0, cmd_pos = 0, escape_sequence = 0,
     k_gdt = gdt gdt_zero, k_gp = gp gdt_zero, k_tss = tss gdt_zero, k_idt = idt idt_zero, k_idtp = idtp idt_zero\<rparr>"

lemma example_services_ok: "services_ok example_services"
proof -
  have "files_ok hello_fs" by (simp add: files_ok_def hello_fs_wf hello_fs_dir)
  then show ?thesis
    by (auto simp: services_ok_def example_services_def foreign_refl
        intro!: on_screen_foreign vga_writestring_on_screen)
qed

lemma cold_example_cold: "cold cold_example"
  by (simp add: cold_def cold_example_def vga_wf_def gdt_zero_def)

lemma boot_mem_chain: "tag_chain boot_mem 0x1000 [0x1000]"
  by (simp add: read32_def boot_mem_def)

section \<open>Properties\<close>

text \<open>
  C9. The kernel boots. Assumed are that the five functions it calls and no source defines return, use the
  console and the ports only and leave a well-formed file table, and a
  chain of boot information tags from the given address to an end. Then \<open>kernel_main\<close> gets through every step to its final loop.
  There the shell waits with an empty line and an empty history, the two memory sizes are
  those of the last usable entries of the map tags in the chain (the low 32 bits of their lengths, or as before), the segment table is flat with the kernel stack at 0x300000,
  and interrupts are enabled although the loaded interrupt table has no gate.
\<close>

theorem kernel_boots:
  assumes "services_ok E" "cold s" "tag_chain m addr ts" "length ts < fuel"
  shows "\<exists>t. kernel_boot E L fuel m 0x36D76289 addr s = Inr t \<and>
    kernel_main E L fuel m 0x36D76289 addr s = Inl (Spinning (io_log t @ [Hlt])) \<and>
    editor_wf t \<and> editor_line t = [] \<and> hist_entries (shell_history t) = [] \<and>
    multiboot2_memory_lower t = usable_at 0 (concat (map (tag_entries m) ts)) (multiboot2_memory_lower s) \<and>
    multiboot2_memory_upper t = usable_at 0x100000 (concat (map (tag_entries m) ts)) (multiboot2_memory_upper s) \<and>
    flat_table (tss_address L) (k_gdt t) \<and> t_esp0 (k_tss t) = 0x300000 \<and>
    idtp_base (k_idtp t) = idt_address L \<and> filter gate_present (k_idt t) = [] \<and> last (io_log t) = Sti"
  using boot_ok [OF assms, of L]
  by (auto simp: succeeds_iff kernel_main_def halt_forever_def booted_def)

theorem kernel_boots_witness:
  "\<exists>t. kernel_boot example_services example_layout 2 boot_mem 0x36D76289 0x1000 cold_example = Inr t \<and>
    kernel_main example_services example_layout 2 boot_mem 0x36D76289 0x1000 cold_example = Inl (Spinning (io_log t @ [Hlt])) \<and>
    editor_wf t \<and> editor_line t = [] \<and> hist_entries (shell_history t) = [] \<and>
    multiboot2_memory_lower t =
      usable_at 0 (concat (map (tag_entries boot_mem) [0x1000])) (multiboot2_memory_lower cold_example) \<and>
    multiboot2_memory_upper t =
      usable_at 0x100000 (concat (map (tag_entries boot_mem) [0x1000])) (multiboot2_memory_upper cold_example) \<and>
    flat_table (tss_address example_layout) (k_gdt t) \<and> t_esp0 (k_tss t) = 0x300000 \<and>
    idtp_base (k_idtp t) = idt_address example_layout \<and> filter gate_present (k_idt t) = [] \<and> last (io_log t) = Sti"
  by (rule kernel_boots [OF example_services_ok cold_example_cold boot_mem_chain]) simp

text \<open>
  From power-on to any key: booting and then handling any sequence of keys never leaves
  an array, divides by zero or overflows, and keeps the invariant of the console, the
  files, the history and the line editor; it returns unless a command waits for a device
  or reboots.
\<close>

theorem boot_then_keys_safe:
  assumes "services_ok E" "cold s" "tag_chain m addr ts" "length ts < fuel"
  shows "safe (bindR (kernel_boot E L fuel m 0x36D76289 addr s) (foldR (shell_handle_key build) keys)) editor_wf"
  by (rule safe_bindR [OF succeeds_safe [OF boot_ok [OF assms]]])
    (auto simp: booted_def intro!: safe_foldR handle_key_safe)

theorem boot_then_keys_safe_witness:
  "safe (bindR (kernel_boot example_services example_layout 2 boot_mem 0x36D76289 0x1000 cold_example)
     (foldR (shell_handle_key ''now'') [0x6C, 0x73, 10])) editor_wf"
  by (rule boot_then_keys_safe [OF example_services_ok cold_example_cold boot_mem_chain]) simp

end
