(* ===== verification/Compositor.thy ===== *)
theory Compositor
  imports Libc
begin

text \<open>
  The desktop compositor, \<^verbatim>\<open>usr/bin/de_compositor.c\<close> (the same text as
  \<^verbatim>\<open>de_compositor.cpp\<close>): windows with a buffer of pixels that are drawn, one over the
  other, into the 32-bit words from address 0xB8000 on, 1024 to a row. Screen and buffers are words of the same memory.
\<close>

section \<open>State\<close>

text \<open>
  A \<open>Window\<close>, with the address of its buffer; the memory by the byte address of a word, as all
  accesses of the program are to aligned 32-bit words. Windows are shared through pointers,
  so the compositor holds their names and a store maps a name to the window; the objects
  themselves do not lie in the memory that is drawn to.
\<close>

record window =
  win_x :: int
  win_y :: int
  win_width :: int
  win_height :: int
  win_buffer :: u32

type_synonym words = "u32 \<Rightarrow> u32"
type_synonym win_store = "nat \<Rightarrow> window"

abbreviation (input) MAX_WINDOWS :: int where "MAX_WINDOWS \<equiv> 64"

record compositor =
  comp_windows :: "nat option list"
  window_count :: int

section \<open>Operations\<close>

text \<open>
  The constructor: operator \<open>new\<close> answers the address of \<open>w * h\<close> words, the parameter
  \<open>buffer\<close>; a negative size is not an array.
\<close>

definition new_window :: "u32 \<Rightarrow> int \<Rightarrow> int \<Rightarrow> window res" where
  "new_window buffer w h =
     bindR (chk32 (w * h)) (\<lambda>n.
     if n < 0 then Inl Bad_Argument
     else Inr \<lparr>win_x = 0, win_y = 0, win_width = w, win_height = h, win_buffer = buffer\<rparr>)"

definition win_move :: "int \<Rightarrow> int \<Rightarrow> window \<Rightarrow> window" where
  "win_move new_x new_y w = w\<lparr>win_x := new_x, win_y := new_y\<rparr>"

text \<open>
  The index of the word that pixel \<open>i\<close> goes to. Signed division truncates; every
  intermediate result has to be an \<open>int\<close>.
\<close>

definition win_index :: "window \<Rightarrow> int \<Rightarrow> int res" where
  "win_index w i =
     bindR (chk32 (win_y w + i sdiv win_width w)) (\<lambda>row.
     bindR (chk32 (row * 1024)) (\<lambda>a.
     bindR (chk32 (a + win_x w)) (\<lambda>b.
     chk32 (b + i smod win_width w))))"

text \<open>\<open>((uint32_t* )0xB8000)[k]\<close> and \<open>buffer[i]\<close>: byte addresses of 32 bits.\<close>

definition pixel_address :: "int \<Rightarrow> u32" where
  "pixel_address k = 0xB8000 + 4 * word_of_int k"

definition buffer_address :: "window \<Rightarrow> int \<Rightarrow> u32" where
  "buffer_address w i = win_buffer w + 4 * word_of_int i"

definition win_draw :: "window \<Rightarrow> words \<Rightarrow> words res" where
  "win_draw w m =
     bindR (chk32 (win_width w * win_height w)) (\<lambda>n.
     forR 0 n (\<lambda>i m.
       bindR (win_index w i) (\<lambda>k. Inr (m(pixel_address k := m (buffer_address w i))))) m)"

definition new_compositor :: compositor where
  "new_compositor = \<lparr>comp_windows = replicate 64 None, window_count = 0\<rparr>"

definition add_window :: "nat \<Rightarrow> compositor \<Rightarrow> compositor res" where
  "add_window win c =
     (if window_count c < MAX_WINDOWS
      then bindR (buf_write (comp_windows c) (window_count c) (Some win)) (\<lambda>ws.
           Inr (c\<lparr>comp_windows := ws, window_count := window_count c + 1\<rparr>))
      else Inr c)"

definition render :: "win_store \<Rightarrow> compositor \<Rightarrow> words \<Rightarrow> words res" where
  "render st c m =
     forR 0 (window_count c) (\<lambda>i m.
       bindR (buf_read (comp_windows c) i) (\<lambda>p.
       case p of None \<Rightarrow> Inr m | Some win \<Rightarrow> win_draw (st win) m)) m"

text \<open>\<open>main\<close> up to its endless loop.\<close>

definition compositor_main :: "u32 \<Rightarrow> words \<Rightarrow> words res" where
  "compositor_main buffer m =
     bindR (new_window buffer 800 600) (\<lambda>main_win.
     bindR (add_window 0 new_compositor) (\<lambda>comp.
     render (\<lambda>_. main_win) comp m))"

section \<open>What a window shows\<close>

text \<open>
  Windows that lie on the rows of 1024 words, above which the address space ends, with a buffer of aligned words inside the address space.
\<close>

definition win_area :: "window \<Rightarrow> int" where
  "win_area w = win_width w * win_height w"

definition win_wf :: "window \<Rightarrow> bool" where
  "win_wf w \<longleftrightarrow> 0 < win_width w \<and> 0 < win_height w \<and> 0 \<le> win_x w \<and> win_x w + win_width w \<le> 1024 \<and>
     0 \<le> win_y w \<and> win_y w + win_height w \<le> 1048392 \<and>
     4 dvd uint (win_buffer w) \<and> uint (win_buffer w) + 4 * win_area w \<le> 2 ^ 32"

text \<open>The buffer of \<open>v\<close> lies below or above the rows that \<open>w\<close> is drawn in.\<close>

definition apart :: "window \<Rightarrow> window \<Rightarrow> bool" where
  "apart w v \<longleftrightarrow> uint (win_buffer v) + 4 * win_area v \<le> 0xB8000 + 4096 * win_y w \<or>
     0xB8000 + 4096 * (win_y w + win_height w) \<le> uint (win_buffer v)"

text \<open>The word number \<open>k\<close> of the screen is in row \<open>k div 1024\<close> and column \<open>k mod 1024\<close>.\<close>

definition covers :: "window \<Rightarrow> int \<Rightarrow> bool" where
  "covers w k \<longleftrightarrow> win_x w \<le> k mod 1024 \<and> k mod 1024 < win_x w + win_width w \<and>
     win_y w \<le> k div 1024 \<and> k div 1024 < win_y w + win_height w"

text \<open>The same by address, and the address of the pixel that a window has for a word of the screen.\<close>

definition screen_word :: "u32 \<Rightarrow> int" where
  "screen_word a = (uint a - 0xB8000) div 4"

definition covers_at :: "window \<Rightarrow> u32 \<Rightarrow> bool" where
  "covers_at w a \<longleftrightarrow> 0xB8000 \<le> uint a \<and> 4 dvd uint a \<and> covers w (screen_word a)"

definition pixel_source :: "window \<Rightarrow> u32 \<Rightarrow> u32" where
  "pixel_source w a =
     win_buffer w + 4 * word_of_int ((screen_word a div 1024 - win_y w) * win_width w + (screen_word a mod 1024 - win_x w))"

definition paint :: "window \<Rightarrow> words \<Rightarrow> words \<Rightarrow> words" where
  "paint w src m a = (if covers_at w a then src (pixel_source w a) else m a)"

lemma smod_nonneg: "0 \<le> a \<Longrightarrow> 0 < b \<Longrightarrow> a smod b = a mod b" for a b :: int
  by (simp add: sdiv_nonneg minus_div_mult_eq_mod flip: minus_sdiv_mult_eq_smod)

definition win_target :: "window \<Rightarrow> int \<Rightarrow> int" where
  "win_target w i = (win_y w + i div win_width w) * 1024 + (win_x w + i mod win_width w)"

lemma win_rows:
  assumes "win_wf w" "0 \<le> i" "i < win_area w"
  shows "0 \<le> i div win_width w" "i div win_width w < win_height w" "0 \<le> i mod win_width w" "i mod win_width w < win_width w"
proof -
  have n: "0 < win_width w" using assms(1) by (simp add: win_wf_def)
  then show "0 \<le> i div win_width w" "0 \<le> i mod win_width w" "i mod win_width w < win_width w"
    using assms(2) by (simp_all add: pos_imp_zdiv_nonneg_iff)
  have "i < win_height w * win_width w" using assms(3) by (simp add: win_area_def mult.commute)
  moreover have "i div win_width w * win_width w \<le> i"
    using div_mult_mod_eq [of i "win_width w"] pos_mod_sign [OF n, of i] by linarith
  ultimately have "i div win_width w * win_width w < win_height w * win_width w" by linarith
  then show "i div win_width w < win_height w" using n by simp
qed

lemma target_parts:
  assumes "win_wf w" "0 \<le> i" "i < win_area w"
  shows "win_target w i div 1024 = win_y w + i div win_width w" "win_target w i mod 1024 = win_x w + i mod win_width w"
proof -
  have "0 \<le> win_x w + i mod win_width w" "win_x w + i mod win_width w < 1024"
    using win_rows [OF assms] assms(1) by (auto simp: win_wf_def)
  then show "win_target w i div 1024 = win_y w + i div win_width w" "win_target w i mod 1024 = win_x w + i mod win_width w"
    unfolding win_target_def by (simp_all del: distrib_right_numeral)
qed

lemma target_covered:
  assumes "win_wf w" "0 \<le> i" "i < win_area w"
  shows "covers w (win_target w i)"
  using target_parts [OF assms] win_rows [OF assms] by (auto simp: covers_def)

text \<open>The position of a covered word in the window's buffer.\<close>

definition win_offset :: "window \<Rightarrow> int \<Rightarrow> int" where
  "win_offset w k = (k div 1024 - win_y w) * win_width w + (k mod 1024 - win_x w)"

lemma covered_offset:
  assumes "win_wf w" "covers w k"
  shows "0 \<le> win_offset w k" "win_offset w k < win_area w" "win_target w (win_offset w k) = k"
proof -
  let ?r = "k div 1024 - win_y w" and ?c = "k mod 1024 - win_x w" and ?n = "win_width w"
  have r: "0 \<le> ?r" "?r \<le> win_height w - 1" and c: "0 \<le> ?c" "?c < ?n" and n: "0 < ?n"
    using assms by (auto simp: covers_def win_wf_def)
  show "0 \<le> win_offset w k" using r c n by (simp add: win_offset_def)
  have "?r * ?n \<le> (win_height w - 1) * ?n" using r(2) n by (intro mult_right_mono) auto
  then show "win_offset w k < win_area w"
    using c(2) by (simp add: win_offset_def win_area_def algebra_simps)
  have "win_offset w k div ?n = ?r" "win_offset w k mod ?n = ?c"
    using c n by (simp_all add: win_offset_def)
  then show "win_target w (win_offset w k) = k" by (simp add: win_target_def)
qed

lemma target_offset:
  assumes "win_wf w" "0 \<le> i" "i < win_area w"
  shows "win_offset w (win_target w i) = i"
  using target_parts [OF assms] by (simp add: win_offset_def)

lemma win_index_eq:
  assumes "win_wf w" "0 \<le> i" "i < win_area w"
  shows "win_index w i = Inr (win_target w i)"
proof -
  have b: "0 < win_width w" "0 \<le> win_y w" "win_y w + win_height w \<le> 1048392" "0 \<le> win_x w" "win_x w + win_width w \<le> 1024"
    using assms(1) by (auto simp: win_wf_def)
  note r = win_rows [OF assms]
  show ?thesis
    using b r assms(2) by (simp add: win_index_def sdiv_nonneg smod_nonneg chk32_def win_target_def)
qed

text \<open>Addresses: the words of the screen up to the end of the address space, and of a buffer.\<close>

lemma uint_u32_mod: "uint (word_of_int x :: u32) = x mod 2 ^ 32"
  by (simp add: uint_word_of_int)

lemma pixel_uint:
  assumes "0 \<le> k" "k < 1048392 * 1024"
  shows "uint (pixel_address k) = 0xB8000 + 4 * k"
proof -
  have "pixel_address k = word_of_int (0xB8000 + 4 * k)" by (simp add: pixel_address_def)
  then show ?thesis using assms by (simp only: uint_u32_mod) simp
qed

lemma buffer_uint:
  assumes "win_wf w" "0 \<le> i" "i < win_area w"
  shows "uint (buffer_address w i) = uint (win_buffer w) + 4 * i"
proof -
  have "buffer_address w i = word_of_int (uint (win_buffer w) + 4 * i)" by (simp add: buffer_address_def)
  moreover have "uint (win_buffer w) + 4 * i < 2 ^ 32" "0 \<le> uint (win_buffer w)" using assms by (auto simp: win_wf_def)
  ultimately show ?thesis using assms(2) by (simp only: uint_u32_mod) simp
qed

lemma covers_range:
  assumes "win_wf w" "covers w k"
  shows "0 \<le> k" "k < 1048392 * 1024" "1024 * win_y w \<le> k" "k < 1024 * (win_y w + win_height w)"
proof -
  have k: "0 \<le> win_y w" "win_y w \<le> k div 1024" "k div 1024 < win_y w + win_height w" "win_y w + win_height w \<le> 1048392"
    using assms by (auto simp: covers_def win_wf_def)
  obtain q where q: "k div 1024 = q" by blast
  have "k = 1024 * q + k mod 1024" "0 \<le> k mod 1024" "k mod 1024 < 1024" unfolding q [symmetric] by simp_all
  then have "1024 * q \<le> k" "k < 1024 * q + 1024" by linarith+
  moreover have "1024 * win_y w \<le> 1024 * q" "1024 * (q + 1) \<le> 1024 * (win_y w + win_height w)" using k(2,3) q by simp_all
  ultimately show "1024 * win_y w \<le> k" "k < 1024 * (win_y w + win_height w)" by simp_all
  then show "0 \<le> k" "k < 1048392 * 1024" using k(1,4) by simp_all
qed

lemma covers_pixel:
  assumes "win_wf w" "covers w k"
  shows "covers_at w (pixel_address k)" "screen_word (pixel_address k) = k"
  using pixel_uint [OF covers_range(1,2) [OF assms]] covers_range(1) [OF assms] assms(2)
  by (simp_all add: covers_at_def screen_word_def)

lemma screen_word_eq: "covers_at w a \<Longrightarrow> 0xB8000 + 4 * screen_word a = uint a"
  by (auto simp: covers_at_def screen_word_def elim!: dvdE)

lemma covers_at_pixel:
  assumes "win_wf w" "covers_at w a"
  shows "pixel_address (screen_word a) = a" "pixel_source w a = buffer_address w (win_offset w (screen_word a))"
proof -
  have "covers w (screen_word a)" using assms(2) by (simp add: covers_at_def)
  then have "uint (pixel_address (screen_word a)) = uint a"
    using screen_word_eq [OF assms(2)] pixel_uint [OF covers_range(1,2) [OF assms(1)]] by simp
  then show "pixel_address (screen_word a) = a" by (simp add: word_uint_eq_iff)
  show "pixel_source w a = buffer_address w (win_offset w (screen_word a))"
    by (simp add: pixel_source_def buffer_address_def win_offset_def)
qed

lemma buffer_not_covered:
  assumes "win_wf w" "win_wf v" "apart w v" "0 \<le> i" "i < win_area v"
  shows "\<not> covers_at w (buffer_address v i)"
proof
  assume c: "covers_at w (buffer_address v i)"
  have "0xB8000 + 4 * screen_word (buffer_address v i) = uint (win_buffer v) + 4 * i"
    using screen_word_eq [OF c] buffer_uint [OF assms(2,4,5)] by simp
  moreover have "covers w (screen_word (buffer_address v i))" using c by (simp add: covers_at_def)
  note covers_range(3,4) [OF assms(1) this]
  ultimately show False using assms(3,4,5) unfolding apart_def by linarith
qed

lemma win_draw_paint:
  assumes w: "win_wf w" and ap: "apart w w"
  shows "win_draw w m = Inr (paint w m m)"
proof -
  let ?n = "win_area w"
  let ?body = "\<lambda>i m. bindR (win_index w i) (\<lambda>k. Inr (m(pixel_address k := m (buffer_address w i))))"
  have b: "win_width w \<le> 1024" "win_height w \<le> 1048392" "0 < win_width w" "0 < win_height w"
    using w by (auto simp: win_wf_def)
  then have "?n \<le> 1024 * 1048392" unfolding win_area_def by (intro mult_mono) auto
  then have n: "0 < ?n" "?n \<le> 1073553408" using b(3,4) by (simp_all add: win_area_def)
  define I where "I i q \<longleftrightarrow> (\<forall>a. q a = (if covers_at w a \<and> win_offset w (screen_word a) < i then m (pixel_source w a) else m a))" for i q
  have step: "succeeds (?body i q) (I (i + 1))" if i: "0 \<le> i" "i < ?n" "I i q" for i q
  proof -
    let ?a = "pixel_address (win_target w i)"
    note c = covers_pixel [OF w target_covered [OF w i(1,2)]] and o = target_offset [OF w i(1,2)]
    have v: "q (buffer_address w i) = m (pixel_source w ?a)"
      using i(3) buffer_not_covered [OF w w ap i(1,2)] covers_at_pixel(2) [OF w c(1)] by (simp add: I_def c(2) o)
    have "covers_at w a \<Longrightarrow> win_offset w (screen_word a) = i \<longleftrightarrow> a = ?a" for a
      using covered_offset(3) [OF w, of "screen_word a"] covers_at_pixel(1) [OF w, of a] c(2) o by (auto simp: covers_at_def)
    then have "covers_at w a \<and> win_offset w (screen_word a) < i + 1 \<longleftrightarrow> covers_at w a \<and> (win_offset w (screen_word a) < i \<or> a = ?a)" for a
      using zless_add1_eq [of "win_offset w (screen_word a)" i] by blast
    then have "I (i + 1) (q(?a := q (buffer_address w i)))"
      unfolding I_def v using i(3) c(1) by (auto simp: I_def)
    then show ?thesis using i by (simp add: win_index_eq [OF w i(1,2)])
  qed
  have "\<not> (covers_at w a \<and> win_offset w (screen_word a) < 0)" for a
    using covered_offset(1) [OF w, of "screen_word a"] by (auto simp: covers_at_def)
  then have "I 0 m" unfolding I_def by metis
  have "succeeds (forR 0 ?n ?body m) (I ?n)"
    by (rule succeeds_forR [where I = I]) (use step n \<open>I 0 m\<close> in simp_all)
  then obtain q where q: "forR 0 ?n ?body m = Inr q" "I ?n q" by (rule succeedsE)
  have "q = paint w m m"
  proof
    fix a show "q a = paint w m m a"
      using q(2) covered_offset(2) [OF w, of "screen_word a"] by (auto simp: I_def paint_def covers_at_def)
  qed
  then show ?thesis using q(1) n by (simp add: win_draw_def chk32_def flip: win_area_def)
qed

section \<open>Composition\<close>

definition comp_wf :: "compositor \<Rightarrow> bool" where
  "comp_wf c \<longleftrightarrow> length (comp_windows c) = 64 \<and> 0 \<le> window_count c \<and> window_count c \<le> MAX_WINDOWS"

text \<open>The windows in the order they were added.\<close>

definition shown :: "compositor \<Rightarrow> nat list" where
  "shown c = List.map_filter id (take (nat (window_count c)) (comp_windows c))"

lemma new_compositor_wf: "comp_wf new_compositor" "shown new_compositor = []"
  by (simp_all add: comp_wf_def new_compositor_def shown_def map_filter_simps)

lemma map_filter_append: "List.map_filter f (xs @ ys) = List.map_filter f xs @ List.map_filter f ys"
  by (simp add: List.map_filter_def)

lemma add_window_ok:
  assumes "comp_wf c"
  shows "\<exists>c'. add_window win c = Inr c' \<and> comp_wf c' \<and>
    shown c' = (if window_count c < MAX_WINDOWS then shown c @ [win] else shown c)"
proof (cases "window_count c < MAX_WINDOWS")
  case True
  let ?n = "nat (window_count c)"
  have n: "?n < length (comp_windows c)" "nat (window_count c + 1) = Suc ?n" "0 \<le> window_count c"
    using assms True by (auto simp: comp_wf_def)
  then have "take (Suc ?n) ((comp_windows c)[?n := Some win]) = take ?n (comp_windows c) @ [Some win]"
    by (simp add: take_Suc_conv_app_nth)
  then show ?thesis
    using assms True n
    by (auto simp: add_window_def comp_wf_def buf_simps shown_def map_filter_append map_filter_simps)
qed (use assms in \<open>simp add: add_window_def\<close>)

text \<open>
  Windows that do not draw over a buffer: painting them in order from the buffers as they
  were at the start.
\<close>

definition windows_wf :: "win_store \<Rightarrow> nat list \<Rightarrow> bool" where
  "windows_wf st ws \<longleftrightarrow> (\<forall>w \<in> set ws. win_wf (st w) \<and> (\<forall>v \<in> set ws. apart (st w) (st v)))"

abbreviation paints :: "win_store \<Rightarrow> words \<Rightarrow> nat list \<Rightarrow> words" where
  "paints st m ws \<equiv> fold (\<lambda>win. paint (st win) m) ws m"

lemma paints_buffer:
  assumes "windows_wf st ws" "set us \<subseteq> set ws" "v \<in> set ws" "0 \<le> i" "i < win_area (st v)"
  shows "paints st m us (buffer_address (st v) i) = m (buffer_address (st v) i)"
proof -
  have "\<not> covers_at (st u) (buffer_address (st v) i)" if "u \<in> set us" for u
    using assms that by (intro buffer_not_covered) (auto simp: windows_wf_def)
  then show ?thesis by (induction us rule: rev_induct) (simp_all add: paint_def)
qed

lemma draw_over:
  assumes "windows_wf st ws" "set us \<subseteq> set ws" "v \<in> set ws"
  shows "win_draw (st v) (paints st m us) = Inr (paints st m (us @ [v]))"
proof -
  have v: "win_wf (st v)" "apart (st v) (st v)" using assms by (auto simp: windows_wf_def)
  have "paint (st v) (paints st m us) q a = paint (st v) m q a" for q a
  proof (cases "covers_at (st v) a")
    case True
    then have "covers (st v) (screen_word a)" by (simp add: covers_at_def)
    note o = covered_offset(1,2) [OF v(1) this]
    show ?thesis
      using paints_buffer [OF assms o, of m] True by (simp add: paint_def covers_at_pixel(2) [OF v(1) True])
  qed (simp add: paint_def)
  then have "paint (st v) (paints st m us) (paints st m us) = paint (st v) m (paints st m us)" by (intro ext)
  then show ?thesis by (simp add: win_draw_paint [OF v])
qed

lemma render_paints:
  assumes c: "comp_wf c" and w: "windows_wf st (shown c)"
  shows "render st c m = Inr (paints st m (shown c))"
proof -
  let ?ws = "comp_windows c" and ?n = "nat (window_count c)"
  define I where "I i q \<longleftrightarrow> q = paints st m (List.map_filter id (take (nat i) ?ws))" for i q
  have step: "succeeds (bindR (buf_read ?ws i) (\<lambda>p. case p of None \<Rightarrow> Inr q | Some win \<Rightarrow> win_draw (st win) q)) (I (i + 1))"
    if i: "0 \<le> i" "i < window_count c" "I i q" for i q
  proof -
    have n: "nat i < length ?ws" "nat (i + 1) = Suc (nat i)" "nat i < ?n" using i c by (auto simp: comp_wf_def)
    let ?us = "List.map_filter id (take (nat i) ?ws)"
    have t: "take (nat (i + 1)) ?ws = take (nat i) ?ws @ [?ws ! nat i]" using n by (simp add: take_Suc_conv_app_nth)
    have "?ws ! nat i \<in> set (take ?n ?ws)" using n by (auto simp: in_set_conv_nth)
    then have "win \<in> set (shown c)" if "?ws ! nat i = Some win" for win
      using that by (force simp: shown_def List.map_filter_def)
    moreover have "set (take (nat i) ?ws) \<subseteq> set (take ?n ?ws)" using less_imp_le [OF n(3)] by (rule set_take_subset_set_take)
    then have "set ?us \<subseteq> set (shown c)" by (auto simp: shown_def List.map_filter_def)
    moreover have "buf_read ?ws i = Inr (?ws ! nat i)" using n i by (simp add: buf_simps)
    ultimately show ?thesis
      using i(3) draw_over [OF w, of ?us _ m]
      by (cases "?ws ! nat i") (simp_all add: I_def t map_filter_append map_filter_simps)
  qed
  have "succeeds (render st c m) (I (window_count c))"
    unfolding render_def
    by (rule succeeds_forR [where I = I]) (use step c in \<open>simp_all add: comp_wf_def I_def map_filter_simps\<close>)
  then show ?thesis by (auto simp: succeeds_iff I_def shown_def)
qed

text \<open>Painting in order shows the last window that covers a word.\<close>

lemma paints_topmost:
  "paints st m ws a =
     (case find (\<lambda>win. covers_at (st win) a) (rev ws) of None \<Rightarrow> m a | Some win \<Rightarrow> m (pixel_source (st win) a))"
  by (induction ws rule: rev_induct) (auto simp: paint_def)

definition two_windows :: win_store where
  "two_windows i = (if i = 0 then \<lparr>win_x = 0, win_y = 0, win_width = 2, win_height = 1, win_buffer = 0x400000\<rparr>
     else \<lparr>win_x = 1, win_y = 0, win_width = 1, win_height = 1, win_buffer = 0x400008\<rparr>)"

definition two_shown :: compositor where
  "two_shown = \<lparr>comp_windows = Some 0 # Some 1 # replicate 62 None, window_count = 2\<rparr>"

lemma two_shown_wf: "comp_wf two_shown" "shown two_shown = [0, 1]" "windows_wf two_windows (shown two_shown)"
proof -
  show "comp_wf two_shown" and s: "shown two_shown = [0, 1]"
    by (simp_all add: comp_wf_def two_shown_def shown_def map_filter_simps)
  show "windows_wf two_windows (shown two_shown)"
    unfolding s by (simp add: windows_wf_def two_windows_def win_wf_def apart_def win_area_def)
qed

section \<open>Properties\<close>

text \<open>
  C33. Rendering shows the topmost window at every pixel. Let the windows in the table lie
  within the 1024 columns and above row 1048392, where the 32-bit addresses from 0xB8000 on end, and let
  no buffer lie in the rows that a window is drawn in (nor the objects themselves, which the memory of the model does not hold). Then \<open>render\<close> returns, and every word of
  the screen holds the pixel that the most recently
  added window covering it has in its buffer; every other word of the memory, the buffers included, is unchanged.
\<close>

theorem render_topmost:
  assumes "comp_wf c" "windows_wf st (shown c)"
  shows "\<exists>m'. render st c m = Inr m' \<and>
    (\<forall>a. m' a = (case find (\<lambda>win. covers_at (st win) a) (rev (shown c)) of
                    None \<Rightarrow> m a | Some win \<Rightarrow> m (pixel_source (st win) a))) \<and>
    (\<forall>win \<in> set (shown c). \<forall>i. 0 \<le> i \<and> i < win_area (st win) \<longrightarrow>
       m' (buffer_address (st win) i) = m (buffer_address (st win) i))"
  using render_paints [OF assms, of m] paints_topmost [of st m "shown c"] paints_buffer [OF assms(2) order_refl, of _ _ m] by simp

theorem render_topmost_witness:
  "\<exists>m'. render two_windows two_shown (\<lambda>a. a) = Inr m' \<and>
    (\<forall>a. m' a = (case find (\<lambda>win. covers_at (two_windows win) a) (rev (shown two_shown)) of
                    None \<Rightarrow> a | Some win \<Rightarrow> pixel_source (two_windows win) a))"
  using render_topmost [OF two_shown_wf(1,3), of "\<lambda>a. a"] by auto

text \<open>
  Below the last addressable row a window shows up at the top: the address of a pixel
  wraps around, so a window at row 1048576 is drawn over row zero.
\<close>

theorem pixel_rows_wrap:
  "pixel_address ((1048576 + y) * 1024 + x) = pixel_address (y * 1024 + x)"
proof -
  have "(word_of_int (4 * (1048576 * 1024)) :: u32) = 0" by simp
  then show ?thesis by (simp add: pixel_address_def distrib_left distrib_right)
qed

text \<open>
  The table of windows never overflows: adding to a well-formed table appends the
  window while fewer than 64 are shown and changes nothing afterwards.
\<close>

theorem add_window_correct:
  assumes "comp_wf c"
  shows "\<exists>c'. add_window win c = Inr c' \<and> comp_wf c' \<and>
    shown c' = (if window_count c < MAX_WINDOWS then shown c @ [win] else shown c)"
  by (rule add_window_ok [OF assms])

theorem add_window_correct_witness:
  "\<exists>c'. add_window 7 two_shown = Inr c' \<and> comp_wf c' \<and>
    shown c' = (if window_count two_shown < MAX_WINDOWS then shown two_shown @ [7] else shown two_shown)"
  by (rule add_window_correct [OF two_shown_wf(1)])

text \<open>
  The demo overwrites the kernel: its 800 by 600 window is drawn from the text buffer
  at 0xB8000 on, one pixel per 32-bit word; row 72 starts at address 0x100000, where the
  kernel is loaded, and gets the uninitialised contents of the window, wherever above the drawn rows its buffer is.
\<close>

theorem compositor_overwrites_kernel:
  assumes "4 dvd uint buffer" "0x310000 \<le> uint buffer" "uint buffer + 1920000 \<le> 2 ^ 32"
  shows "\<exists>m'. compositor_main buffer m = Inr m' \<and> m' 0x100000 = m (buffer + 4 * 57600)"
proof -
  define w where "w = \<lparr>win_x = 0, win_y = 0, win_width = 800, win_height = 600, win_buffer = buffer\<rparr>"
  have nw: "new_window buffer 800 600 = Inr w" by (simp add: new_window_def chk32_def w_def)
  obtain c where c: "add_window 0 new_compositor = Inr c" "comp_wf c" "shown c = [0]"
    using add_window_ok [OF new_compositor_wf(1), of 0] new_compositor_wf(2) by (auto simp: new_compositor_def)
  have wf: "windows_wf (\<lambda>_. w) (shown c)"
    using assms by (simp add: c(3) windows_wf_def win_wf_def apart_def win_area_def w_def)
  have "compositor_main buffer m = Inr (paint w m m)"
    using c(1,3) render_paints [OF c(2) wf, of m] by (simp add: compositor_main_def nw)
  moreover have "paint w m m 0x100000 = m (buffer + 4 * 57600)"
    by (simp add: paint_def covers_at_def covers_def screen_word_def pixel_source_def w_def)
  ultimately show ?thesis by simp
qed

theorem compositor_overwrites_kernel_witness:
  "\<exists>m'. compositor_main 0x400000 (\<lambda>_. 7) = Inr m' \<and> m' 0x100000 = 7"
  using compositor_overwrites_kernel [of "0x400000" "\<lambda>_. 7"] by simp

end
