(* ===== verification/Hda.thy ===== *)
theory Hda
  imports Larch_Prelude
begin

text \<open>
  The HD audio driver, \<^verbatim>\<open>sound/drivers/hdaudio.c\<close>: device registers in memory, accessed
  through volatile pointers. What the device answers to a read is the environment's
  choice, as for ports; every access is recorded with its address.
\<close>

section \<open>State\<close>

datatype mmio_event = Rd u32 u32 | Wr u32 u32

record mmio_state =
  mm_ins :: "u32 list"
  mm_log :: "mmio_event list"

definition mm_read :: "u32 \<Rightarrow> mmio_state \<Rightarrow> (u32 \<times> mmio_state) res" where
  "mm_read a s =
     (case mm_ins s of
        [] \<Rightarrow> Inl Blocked
      | v # vs \<Rightarrow> Inr (v, s\<lparr>mm_ins := vs, mm_log := mm_log s @ [Rd a v]\<rparr>))"

definition mm_write :: "u32 \<Rightarrow> u32 \<Rightarrow> mmio_state \<Rightarrow> mmio_state" where
  "mm_write a v s = s\<lparr>mm_log := mm_log s @ [Wr a v]\<rparr>"

text \<open>The register numbers the file defines, and the members of \<open>hda_regs_t\<close> it uses.\<close>

abbreviation HDA_GCTL :: u32 where "HDA_GCTL \<equiv> 0x08"

definition hda :: u32 where "hda = 0xFEBF0000"
definition hda_gcap :: u32 where "hda_gcap = hda + 0"
definition hda_gctl :: u32 where "hda_gctl = hda + 4"

section \<open>Operations\<close>

text \<open>The polling loop: at most \<open>n\<close> reads of the control register.\<close>

fun hda_poll :: "nat \<Rightarrow> mmio_state \<Rightarrow> mmio_state res" where
  "hda_poll 0 s = Inr s"
| "hda_poll (Suc n) s =
     bindR (mm_read hda_gctl s) (\<lambda>(v, s). if v AND 1 \<noteq> 0 then Inr s else hda_poll n s)"

text \<open>The pointer is a constant and never null; the two stream counts are not used.\<close>

definition hda_init :: "mmio_state \<Rightarrow> mmio_state res" where
  "hda_init s =
     bindR (mm_read hda_gcap s) (\<lambda>(gcap, s).
     let num_streams = drop_bit 8 gcap AND 0x0F; num_bidir = drop_bit 12 gcap AND 0x0F in
     bindR (mm_read hda_gctl s) (\<lambda>(v, s).
     hda_poll 10000 (mm_write hda_gctl ((v AND NOT 1) OR 1) s)))"

definition stream_regs :: "int \<Rightarrow> u32 res" where
  "stream_regs stream_id = bindR (chk32 (stream_id * 0x80)) (\<lambda>d. Inr (0xFEBF1000 + word_of_int d))"

definition hda_play_sample :: "u32 \<Rightarrow> u32 \<Rightarrow> int \<Rightarrow> mmio_state \<Rightarrow> mmio_state res" where
  "hda_play_sample buffer len stream_id s =
     bindR (stream_regs stream_id) (\<lambda>stream.
     Inr (mm_write stream 0x80000001
         (mm_write (stream + 12) (len div 4)
         (mm_write (stream + 8) buffer
         (mm_write stream 0x80000000 s)))))"

definition hda_stop_stream :: "int \<Rightarrow> mmio_state \<Rightarrow> mmio_state res" where
  "hda_stop_stream stream_id s =
     bindR (stream_regs stream_id) (\<lambda>stream. Inr (mm_write stream 0x80000000 s))"

section \<open>Device accesses\<close>

text \<open>The registers an access log writes, and what it writes.\<close>

fun mm_writes :: "mmio_event list \<Rightarrow> (u32 \<times> u32) list" where
  "mm_writes [] = []"
| "mm_writes (Rd a v # es) = mm_writes es"
| "mm_writes (Wr a v # es) = (a, v) # mm_writes es"

lemma mm_writes_append [simp]: "mm_writes (xs @ ys) = mm_writes xs @ mm_writes ys"
  by (induction xs rule: mm_writes.induct) simp_all

text \<open>The number of polls that answers \<open>vs\<close> lead to.\<close>

fun polls :: "nat \<Rightarrow> u32 list \<Rightarrow> nat" where
  "polls 0 vs = 0"
| "polls (Suc n) [] = 0"
| "polls (Suc n) (v # vs) = (if v AND 1 \<noteq> 0 then 1 else Suc (polls n vs))"

lemma polls_le: "polls n vs \<le> n"
  by (induction n vs rule: polls.induct) auto

lemma hda_poll_eq:
  "n \<le> length (mm_ins s) \<Longrightarrow>
   hda_poll n s = Inr (s\<lparr>mm_ins := drop (polls n (mm_ins s)) (mm_ins s),
     mm_log := mm_log s @ map (Rd hda_gctl) (take (polls n (mm_ins s)) (mm_ins s))\<rparr>)"
proof (induction n arbitrary: s)
  case (Suc n)
  then obtain v vs where "mm_ins s = v # vs" by (cases "mm_ins s") auto
  then show ?case using Suc by (simp add: mm_read_def)
qed simp

lemma writes_reads [simp]: "mm_writes (map (Rd a) vs) = []"
  by (induction vs) simp_all

section \<open>Properties\<close>

text \<open>
  C34. Initialisation gives up after ten thousand polls: if the device answers every read,
  \<open>hda_init\<close> returns after the two initial reads and at most 10000 polls, the last of
  which is the first that shows the reset bit, and it has written one register once: bit
  0 set in the value read, at offset 4 of the register block, where the file's own
  constant for the control register is 8.
\<close>

theorem hda_init_terminates:
  assumes "mm_ins s = gcap # v # vs" "10000 \<le> length vs"
  shows "\<exists>s'. hda_init s = Inr s' \<and> polls 10000 vs \<le> 10000 \<and>
    mm_ins s' = drop (polls 10000 vs) vs \<and>
    mm_writes (mm_log s') = mm_writes (mm_log s) @ [(0xFEBF0004, (v AND NOT 1) OR 1)] \<and>
    (0xFEBF0004 :: u32) \<noteq> hda + HDA_GCTL"
  using assms polls_le
  by (simp add: hda_init_def mm_read_def mm_write_def hda_poll_eq hda_gctl_def hda_def del: hda_poll.simps)

theorem hda_init_terminates_witness:
  "\<exists>s'. hda_init \<lparr>mm_ins = 0x4401 # 0 # replicate 10000 0, mm_log = []\<rparr> = Inr s' \<and>
    polls 10000 (replicate 10000 0) \<le> 10000 \<and>
    mm_ins s' = drop (polls 10000 (replicate 10000 0)) (replicate 10000 0) \<and>
    mm_writes (mm_log s') = mm_writes (mm_log \<lparr>mm_ins = 0x4401 # 0 # replicate 10000 0, mm_log = []\<rparr>) @
      [(0xFEBF0004, (0 AND NOT 1) OR 1)] \<and>
    (0xFEBF0004 :: u32) \<noteq> hda + HDA_GCTL"
  by (rule hda_init_terminates) simp_all

text \<open>
  Playing a sample programs one stream in the safe order: the run bit is cleared first,
  then address and length in words are set, and the run bit is set last; all four writes
  go to the 128-byte block of the stream.
\<close>

theorem hda_play_order:
  assumes "0 \<le> stream_id" "stream_id < 16"
  shows "\<exists>s'. hda_play_sample buffer len stream_id s = Inr s' \<and>
    mm_writes (mm_log s') = mm_writes (mm_log s) @
      (let r = 0xFEBF1000 + 0x80 * word_of_int stream_id in
       [(r, 0x80000000), (r + 8, buffer), (r + 12, len div 4), (r, 0x80000001)])"
  using assms by (simp add: hda_play_sample_def stream_regs_def chk32_def mm_write_def Let_def mult.commute)

theorem hda_play_order_witness:
  "\<exists>s'. hda_play_sample 0x200000 4096 1 \<lparr>mm_ins = [], mm_log = []\<rparr> = Inr s' \<and>
    mm_writes (mm_log s') = mm_writes (mm_log \<lparr>mm_ins = [], mm_log = []\<rparr>) @
      (let r = 0xFEBF1000 + 0x80 * word_of_int 1 in
       [(r, 0x80000000), (r + 8, 0x200000), (r + 12, 4096 div 4), (r, 0x80000001)])"
  by (rule hda_play_order) simp_all

end
