(* ===== verification/Pmm.thy ===== *)
theory Pmm
  imports Larch_Prelude
begin

text \<open>
  The physical memory manager, \<^verbatim>\<open>kernel/mem/pmm.rs\<close>: one bit per page of 4096 bytes.
  The target's \<open>usize\<close> has 32 bits and the kernel is built without overflow checks, so
  the arithmetic on addresses and counters wraps around.
\<close>

section \<open>State\<close>

text \<open>The bytes at \<open>bitmap\<close> are a list; \<open>bitmap_size\<close> is its length.\<close>

record pmm =
  bitmap :: "u8 list"
  total_pages :: u32
  free_pages :: u32
  base_addr :: u32

definition pmm_new :: pmm where
  "pmm_new = \<lparr>bitmap = [], total_pages = 0, free_pages = 0, base_addr = 0\<rparr>"

section \<open>Operations\<close>

definition mark_used :: "u32 \<Rightarrow> pmm \<Rightarrow> pmm" where
  "mark_used addr s =
     (let page = unat (addr div 4096); byte_idx = page div 8; bit_idx = page mod 8 in
      if byte_idx < length (bitmap s)
      then s\<lparr>bitmap := (bitmap s)[byte_idx := bitmap s ! byte_idx OR push_bit bit_idx 1],
             free_pages := free_pages s - 1\<rparr>
      else s)"

text \<open>The two ranges \<open>(0x0..0x9FC00).step_by(4096)\<close> and \<open>(0x100000..0x200000).step_by(4096)\<close>.\<close>

definition low_range :: "u32 list" where
  "low_range = map (\<lambda>i. of_nat (i * 4096)) [0..<160]"

definition kernel_range :: "u32 list" where
  "kernel_range = map (\<lambda>i. 0x100000 + of_nat (i * 4096)) [0..<256]"

definition pmm_start :: "u32 \<Rightarrow> u32 \<Rightarrow> pmm" where
  "pmm_start memory_lower memory_upper =
     (let total_memory = memory_lower + memory_upper; total = total_memory div 4096 in
      \<lparr>bitmap = replicate (unat (total div 8)) 0, total_pages = total, free_pages = total, base_addr = 0x100000\<rparr>)"

definition pmm_init_mem :: "u32 \<Rightarrow> u32 \<Rightarrow> pmm" where
  "pmm_init_mem memory_lower memory_upper =
     fold mark_used kernel_range (fold mark_used low_range (pmm_start memory_lower memory_upper))"

text \<open>The search: the first byte that is not full, and in it the first clear bit.\<close>

fun alloc_scan :: "u8 list \<Rightarrow> nat \<Rightarrow> (nat \<times> nat) option" where
  "alloc_scan [] i = None"
| "alloc_scan (byte # bs) i =
     (if byte \<noteq> 0xFF
      then (case find (\<lambda>b. byte AND push_bit b 1 = 0) [0..<8] of
              Some b \<Rightarrow> Some (i, b)
            | None \<Rightarrow> alloc_scan bs (Suc i))
      else alloc_scan bs (Suc i))"

definition alloc_page :: "pmm \<Rightarrow> u32 option \<times> pmm" where
  "alloc_page s =
     (case alloc_scan (bitmap s) 0 of
        None \<Rightarrow> (None, s)
      | Some (i, b) \<Rightarrow>
          (Some (of_nat ((i * 8 + b) * 4096) + base_addr s),
           s\<lparr>bitmap := (bitmap s)[i := bitmap s ! i OR push_bit b 1], free_pages := free_pages s - 1\<rparr>))"

definition free_page :: "u32 \<Rightarrow> pmm \<Rightarrow> pmm" where
  "free_page addr s =
     (let page = unat ((addr - base_addr s) div 4096); byte_idx = page div 8; bit_idx = page mod 8 in
      if byte_idx < length (bitmap s)
      then s\<lparr>bitmap := (bitmap s)[byte_idx := bitmap s ! byte_idx AND NOT (push_bit bit_idx 1)],
             free_pages := free_pages s + 1\<rparr>
      else s)"

definition free_pages_count :: "pmm \<Rightarrow> u32" where
  "free_pages_count s = free_pages s"

section \<open>The set of used pages\<close>

definition used_bit :: "u8 list \<Rightarrow> nat \<Rightarrow> bool" where
  "used_bit bm k \<longleftrightarrow> k < 8 * length bm \<and> bit (bm ! (k div 8)) (k mod 8)"

lemma used_bit_set:
  assumes "k div 8 < length bm"
  shows "used_bit (bm[k div 8 := bm ! (k div 8) OR push_bit (k mod 8) 1]) j \<longleftrightarrow> used_bit bm j \<or> j = k"
proof -
  have k: "k < 8 * length bm" using assms by (simp add: div_less_iff_less_mult mult.commute)
  have "j = k \<longleftrightarrow> j div 8 = k div 8 \<and> j mod 8 = k mod 8" by (metis div_mult_mod_eq)
  then show ?thesis
    using k assms by (auto simp: used_bit_def bit_simps nth_list_update)
qed

lemma used_bit_clear:
  assumes "k div 8 < length bm"
  shows "used_bit (bm[k div 8 := bm ! (k div 8) AND NOT (push_bit (k mod 8) 1)]) j \<longleftrightarrow> used_bit bm j \<and> j \<noteq> k"
proof -
  have "j = k \<longleftrightarrow> j div 8 = k div 8 \<and> j mod 8 = k mod 8" by (metis div_mult_mod_eq)
  then show ?thesis
    using assms by (auto simp: used_bit_def bit_simps nth_list_update)
qed

lemma and_bit_zero: "(b :: u8) AND push_bit n 1 = 0 \<longleftrightarrow> \<not> bit b n" if "n < 8"
proof
  assume "b AND push_bit n 1 = 0"
  moreover have "bit (b AND push_bit n 1) n = bit b n" using that by (simp add: bit_simps)
  ultimately show "\<not> bit b n" by simp
next
  assume "\<not> bit b n"
  then show "b AND push_bit n 1 = 0" by (intro bit_word_eqI) (auto simp: bit_simps)
qed

lemma full_byte: "(\<forall>n < 8. bit (b :: u8) n) \<longleftrightarrow> b = 0xFF"
proof
  assume "\<forall>n < 8. bit b n"
  then have "b = mask 8" by (intro bit_word_eqI) (simp add: bit_simps)
  then show "b = 0xFF" by (simp add: mask_eq_exp_minus_1)
next
  assume "b = 0xFF"
  then have "b = mask 8" by (simp add: mask_eq_exp_minus_1)
  then show "\<forall>n < 8. bit b n" by (simp add: bit_simps)
qed

lemma find_clear_bit:
  "(case find (\<lambda>n. (b :: u8) AND push_bit n 1 = 0) [0..<8] of
      None \<Rightarrow> \<forall>n < 8. bit b n
    | Some n \<Rightarrow> n < 8 \<and> \<not> bit b n \<and> (\<forall>m < n. bit b m))"
proof (cases "find (\<lambda>n. b AND push_bit n 1 = 0) [0..<8]")
  case None
  then have "\<forall>n < 8. b AND push_bit n 1 \<noteq> 0" by (auto simp: find_None_iff)
  then show ?thesis using None and_bit_zero [of _ b] by auto
next
  case (Some n)
  then have n: "n < 8" "b AND push_bit n 1 = 0" "\<forall>m < n. b AND push_bit m 1 \<noteq> 0"
    by (auto simp: find_Some_iff)
  then show ?thesis using Some and_bit_zero [of _ b] by auto
qed

lemma used_bit_Cons: "used_bit (b # bm) k \<longleftrightarrow> (if k < 8 then bit b k else used_bit bm (k - 8))"
  by (auto simp: used_bit_def le_div_geq le_mod_geq not_less)

text \<open>The search finds the first page that is not used.\<close>

lemma alloc_scan_spec:
  "case alloc_scan bm i0 of
     None \<Rightarrow> \<forall>k < 8 * length bm. used_bit bm k
   | Some (i, b) \<Rightarrow> i0 \<le> i \<and> i - i0 < length bm \<and> b < 8 \<and> \<not> used_bit bm ((i - i0) * 8 + b) \<and>
       (\<forall>k < (i - i0) * 8 + b. used_bit bm k)"
proof (induction bm i0 rule: alloc_scan.induct)
  case (1 i)
  show ?case by simp
next
  case (2 byte bs i)
  show ?case
  proof (cases "find (\<lambda>n. byte AND push_bit n 1 = 0) [0..<8]")
    case None
    then have full: "\<forall>n < 8. bit byte n" using find_clear_bit [of byte] by simp
    then have "byte = 0xFF" by (simp add: full_byte)
    then have IH: "case alloc_scan bs (Suc i) of
        None \<Rightarrow> \<forall>k < 8 * length bs. used_bit bs k
      | Some (j, b) \<Rightarrow> Suc i \<le> j \<and> j - Suc i < length bs \<and> b < 8 \<and> \<not> used_bit bs ((j - Suc i) * 8 + b) \<and>
          (\<forall>k < (j - Suc i) * 8 + b. used_bit bs k)"
      and sc: "alloc_scan (byte # bs) i = alloc_scan bs (Suc i)" using 2(2) by auto
    show ?thesis
    proof (cases "alloc_scan bs (Suc i)")
      case None
      show ?thesis unfolding sc None using IH [unfolded None] full by (auto simp: used_bit_Cons)
    next
      case (Some jb)
      obtain j b where "jb = (j, b)" by (cases jb)
      then have jb: "Suc i \<le> j" "j - Suc i < length bs" "b < 8" "\<not> used_bit bs ((j - Suc i) * 8 + b)"
          "\<forall>k < (j - Suc i) * 8 + b. used_bit bs k"
        using IH Some by auto
      then have e: "(j - i) * 8 + b = 8 + ((j - Suc i) * 8 + b)" by (simp add: diff_mult_distrib)
      show ?thesis
        unfolding sc Some \<open>jb = (j, b)\<close> option.case prod.case e
        using jb full by (auto simp: used_bit_Cons)
    qed
  next
    case (Some n)
    then have n: "n < 8" "\<not> bit byte n" "\<forall>m < n. bit byte m" using find_clear_bit [of byte] by auto
    then have "byte \<noteq> 0xFF" using full_byte [of byte] by auto
    then have sc: "alloc_scan (byte # bs) i = Some (i, n)" by (simp only: alloc_scan.simps Some option.case if_True simp_thms)
    show ?thesis unfolding sc using n by (auto simp: used_bit_Cons)
  qed
qed

section \<open>The interface of a page allocator\<close>

text \<open>Allocating up to \<open>n\<close> pages; the search stops when there is none left.\<close>

primrec alloc_many :: "('s \<Rightarrow> 'p option \<times> 's) \<Rightarrow> nat \<Rightarrow> 's \<Rightarrow> 'p list \<times> 's" where
  "alloc_many alloc 0 s = ([], s)"
| "alloc_many alloc (Suc n) s =
     (case alloc s of
        (None, s) \<Rightarrow> ([], s)
      | (Some p, s) \<Rightarrow> (case alloc_many alloc n s of (ps, s) \<Rightarrow> (p # ps, s)))"

text \<open>
  A pool of pages of which some are used: allocation hands out an unused page of the pool
  as long as there is one, and freeing a used page makes it available again.
\<close>

locale page_allocator =
  fixes alloc :: "'s \<Rightarrow> 'p option \<times> 's"
    and free :: "'p \<Rightarrow> 's \<Rightarrow> 's"
    and inv :: "'s \<Rightarrow> bool"
    and pool :: "'s \<Rightarrow> 'p set"
    and used :: "'s \<Rightarrow> 'p set"
  assumes pool_finite: "inv s \<Longrightarrow> finite (pool s) \<and> used s \<subseteq> pool s"
    and alloc_some: "inv s \<Longrightarrow> alloc s = (Some p, s') \<Longrightarrow>
      inv s' \<and> pool s' = pool s \<and> p \<in> pool s - used s \<and> used s' = insert p (used s)"
    and alloc_none: "inv s \<Longrightarrow> alloc s = (None, s') \<Longrightarrow> s' = s \<and> pool s = used s"
    and free_used: "inv s \<Longrightarrow> p \<in> used s \<Longrightarrow>
      inv (free p s) \<and> pool (free p s) = pool s \<and> used (free p s) = used s - {p}"
begin

lemma alloc_live: "inv s \<Longrightarrow> used s \<noteq> pool s \<Longrightarrow> \<exists>p s'. alloc s = (Some p, s')"
  using alloc_none [of s] by (cases "alloc s"; cases "fst (alloc s)") auto

lemma alloc_free:
  assumes "inv s" "alloc s = (Some p, s')"
  shows "inv (free p s') \<and> pool (free p s') = pool s \<and> used (free p s') = used s"
  using alloc_some [OF assms] free_used [of s' p] by auto

lemma alloc_many_ok:
  assumes "inv s" "alloc_many alloc n s = (ps, s')"
  shows "inv s' \<and> pool s' = pool s \<and> distinct ps \<and> set ps \<subseteq> pool s - used s \<and> used s' = used s \<union> set ps \<and>
    length ps = min n (card (pool s - used s))"
  using assms
proof (induction n arbitrary: s ps s')
  case (Suc n)
  obtain r t where rt: "alloc s = (r, t)" by (cases "alloc s")
  show ?case
  proof (cases r)
    case None
    then have "ps = []" "s' = t" using Suc.prems(2) rt by simp_all
    then show ?thesis using alloc_none [OF Suc.prems(1)] rt None Suc.prems(1) by simp
  next
    case (Some p)
    obtain qs u where qs: "alloc_many alloc n t = (qs, u)" by (cases "alloc_many alloc n t")
    then have t: "alloc s = (Some p, t)" "alloc_many alloc n t = (qs, s')" "ps = p # qs"
      using Suc.prems(2) rt Some by simp_all
    have a: "inv t" "pool t = pool s" "p \<in> pool s - used s" "used t = insert p (used s)"
      using alloc_some [OF Suc.prems(1) t(1)] by simp_all
    have q: "inv s'" "pool s' = pool s" "distinct qs" "set qs \<subseteq> pool s - insert p (used s)"
        "used s' = insert p (used s) \<union> set qs" "length qs = min n (card (pool s - insert p (used s)))"
      using Suc.IH [OF a(1) t(2)] a(2,4) by simp_all
    have "pool s - insert p (used s) = (pool s - used s) - {p}" by blast
    then have "card (pool s - used s) = Suc (card (pool s - insert p (used s)))"
      using pool_finite [OF Suc.prems(1)] card.remove [OF _ a(3)] by simp
    moreover have "p \<notin> set qs" using q(4) by blast
    moreover have "set qs \<subseteq> pool s - used s" using q(4) by blast
    ultimately show ?thesis using q a(3) by (simp add: t(3))
  qed
qed simp

end

section \<open>The bitmap is a page allocator\<close>

definition page_of :: "nat \<Rightarrow> u32" where
  "page_of k = of_nat (k * 4096) + 0x100000"

definition used_pages :: "pmm \<Rightarrow> u32 set" where
  "used_pages s = page_of ` {k. used_bit (bitmap s) k}"

definition page_pool :: "pmm \<Rightarrow> u32 set" where
  "page_pool s = page_of ` {..<8 * length (bitmap s)}"

text \<open>
  The invariant: the bitmap covers no more than all pages, and the counter is the number of
  pages whose bit is not set, the last few that no byte of the bitmap covers included.
\<close>

definition pmm_inv :: "pmm \<Rightarrow> bool" where
  "pmm_inv s \<longleftrightarrow> 8 * length (bitmap s) \<le> unat (total_pages s) \<and> unat (total_pages s) \<le> 2 ^ 20 \<and>
     base_addr s = 0x100000 \<and>
     unat (free_pages s) + card {k. used_bit (bitmap s) k} = unat (total_pages s)"

lemma page_index:
  assumes "k < 2 ^ 20"
  shows "unat ((page_of k - 0x100000) div 4096) = k"
proof -
  have "unat (of_nat (k * 4096) :: u32) = k * 4096" using assms by (intro unat_of_nat_u32) simp
  moreover have "unat (4096 :: u32) = 4096" by simp
  ultimately show ?thesis unfolding page_of_def by (simp add: unat_div_distrib del: of_nat_mult)
qed

lemma page_of_inj: "inj_on page_of {..<2 ^ 20}"
  by (rule inj_on_inverseI [of _ "\<lambda>p. unat ((p - 0x100000) div 4096)"]) (simp only: lessThan_iff page_index)

lemma used_subset: "{k. used_bit bm k} \<subseteq> {..<8 * length bm}"
  by (auto simp: used_bit_def)

lemma finite_used: "finite {k. used_bit bm k}"
  using used_subset by (rule finite_subset) simp

lemma pmm_inv_bits: "pmm_inv s \<Longrightarrow> used_bit (bitmap s) k \<Longrightarrow> k < 2 ^ 20"
  by (auto simp: pmm_inv_def used_bit_def)

text \<open>Setting the bit of an unused page.\<close>

lemma set_page_inv:
  assumes "pmm_inv s" "k div 8 < length (bitmap s)" "\<not> used_bit (bitmap s) k"
    and t: "t = s\<lparr>bitmap := (bitmap s)[k div 8 := bitmap s ! (k div 8) OR push_bit (k mod 8) 1], free_pages := free_pages s - 1\<rparr>"
  shows "pmm_inv t" "{j. used_bit (bitmap t) j} = insert k {j. used_bit (bitmap s) j}" "length (bitmap t) = length (bitmap s)"
proof -
  show u: "{j. used_bit (bitmap t) j} = insert k {j. used_bit (bitmap s) j}"
    using used_bit_set [OF assms(2)] by (auto simp: t)
  show "length (bitmap t) = length (bitmap s)" by (simp add: t)
  have "{j. used_bit (bitmap t) j} \<subseteq> {..<8 * length (bitmap s)}" using used_subset [of "bitmap t"] by (simp add: t)
  from card_mono [OF _ this] have "Suc (card {j. used_bit (bitmap s) j}) \<le> 8 * length (bitmap s)"
    using u assms(3) finite_used by simp
  then have "0 < unat (free_pages s)" using assms(1) by (simp add: pmm_inv_def)
  then have "unat (free_pages s - 1) = unat (free_pages s) - 1" by (simp add: unat_minus_one unat_gt_0)
  then show "pmm_inv t"
    using assms(1,3) u finite_used \<open>0 < unat (free_pages s)\<close> by (simp add: pmm_inv_def t)
qed

lemma clear_page_inv:
  assumes "pmm_inv s" "used_bit (bitmap s) k"
    and t: "t = s\<lparr>bitmap := (bitmap s)[k div 8 := bitmap s ! (k div 8) AND NOT (push_bit (k mod 8) 1)], free_pages := free_pages s + 1\<rparr>"
  shows "pmm_inv t" "{j. used_bit (bitmap t) j} = {j. used_bit (bitmap s) j} - {k}" "length (bitmap t) = length (bitmap s)"
proof -
  have k: "k div 8 < length (bitmap s)" using assms(2) by (auto simp: used_bit_def div_less_iff_less_mult mult.commute)
  show u: "{j. used_bit (bitmap t) j} = {j. used_bit (bitmap s) j} - {k}"
    using used_bit_clear [OF k] by (auto simp: t)
  show "length (bitmap t) = length (bitmap s)" by (simp add: t)
  have c: "Suc (card ({j. used_bit (bitmap s) j} - {k})) = card {j. used_bit (bitmap s) j}"
    using card.remove [OF finite_used, of k "bitmap s"] assms(2) by simp
  then have le: "unat (free_pages s) < 2 ^ 20" using assms(1) by (simp add: pmm_inv_def)
  have "unat (free_pages s + 1) = Suc (unat (free_pages s))"
    using le by (simp add: unat_word_ariths)
  then show "pmm_inv t" using assms(1) u c by (simp add: pmm_inv_def t)
qed

lemma alloc_page_None:
  assumes "pmm_inv s" "alloc_page s = (None, s')"
  shows "s' = s" "used_pages s = page_pool s"
proof -
  have sc: "alloc_scan (bitmap s) 0 = None" "s' = s"
    using assms(2) by (auto simp: alloc_page_def split: option.splits)
  then show "s' = s" by simp
  have "{k. used_bit (bitmap s) k} = {..<8 * length (bitmap s)}"
    using alloc_scan_spec [of "bitmap s" 0] sc(1) used_subset by auto
  then show "used_pages s = page_pool s" by (simp add: used_pages_def page_pool_def)
qed

text \<open>Allocation takes the lowest unused page.\<close>

lemma alloc_page_Some:
  assumes "pmm_inv s" "alloc_page s = (Some p, s')"
  shows "\<exists>k. p = page_of k \<and> k < 8 * length (bitmap s) \<and> \<not> used_bit (bitmap s) k \<and> (\<forall>j < k. used_bit (bitmap s) j) \<and>
    pmm_inv s' \<and> {j. used_bit (bitmap s') j} = insert k {j. used_bit (bitmap s) j} \<and> length (bitmap s') = length (bitmap s)"
proof -
  obtain i b where sc: "alloc_scan (bitmap s) 0 = Some (i, b)"
    and p: "p = of_nat ((i * 8 + b) * 4096) + base_addr s"
    and s': "s' = s\<lparr>bitmap := (bitmap s)[i := bitmap s ! i OR push_bit b 1], free_pages := free_pages s - 1\<rparr>"
    using assms(2) by (auto simp: alloc_page_def split: option.splits)
  let ?k = "i * 8 + b"
  have k: "i < length (bitmap s)" "b < 8" "\<not> used_bit (bitmap s) ?k" "\<forall>j < ?k. used_bit (bitmap s) j"
    using alloc_scan_spec [of "bitmap s" 0] sc by auto
  have ib: "?k div 8 = i" "?k mod 8 = b" using k(2) by simp_all
  have "p = page_of ?k" using p assms(1) unfolding page_of_def by (simp add: pmm_inv_def)
  moreover have "?k < 8 * length (bitmap s)" using k(1,2) by linarith
  moreover have "pmm_inv s'" "{j. used_bit (bitmap s') j} = insert ?k {j. used_bit (bitmap s) j}" "length (bitmap s') = length (bitmap s)"
    using set_page_inv [OF assms(1), of ?k s', unfolded ib, OF k(1,3) s'] by simp_all
  ultimately show ?thesis using k(3,4) by blast
qed

lemma used_pages_of: "pmm_inv s \<Longrightarrow> k < 2 ^ 20 \<Longrightarrow> page_of k \<in> used_pages s \<longleftrightarrow> used_bit (bitmap s) k"
  using pmm_inv_bits [of s] page_of_inj by (auto simp: used_pages_def inj_on_def)

lemma alloc_page_law:
  assumes "pmm_inv s" "alloc_page s = (Some p, s')"
  shows "pmm_inv s' \<and> page_pool s' = page_pool s \<and> p \<in> page_pool s - used_pages s \<and> used_pages s' = insert p (used_pages s)"
proof -
  obtain k where k: "p = page_of k" "k < 8 * length (bitmap s)" "\<not> used_bit (bitmap s) k" "pmm_inv s'"
    "{j. used_bit (bitmap s') j} = insert k {j. used_bit (bitmap s) j}" "length (bitmap s') = length (bitmap s)"
    using alloc_page_Some [OF assms] by blast
  have "k < 2 ^ 20" using k(2) assms(1) by (auto simp: pmm_inv_def)
  then have "p \<notin> used_pages s" using used_pages_of [OF assms(1)] k(1,3) by simp
  then show ?thesis using k by (simp add: page_pool_def used_pages_def)
qed

lemma free_page_law:
  assumes "pmm_inv s" "p \<in> used_pages s"
  shows "pmm_inv (free_page p s) \<and> page_pool (free_page p s) = page_pool s \<and> used_pages (free_page p s) = used_pages s - {p}"
proof -
  obtain k where k: "p = page_of k" "used_bit (bitmap s) k" using assms(2) by (auto simp: used_pages_def)
  have k20: "k < 2 ^ 20" by (rule pmm_inv_bits [OF assms(1) k(2)])
  have "k div 8 < length (bitmap s)" using k(2) by (auto simp: used_bit_def div_less_iff_less_mult mult.commute)
  moreover have "base_addr s = 0x100000" using assms(1) by (simp add: pmm_inv_def)
  ultimately have f: "free_page p s =
      s\<lparr>bitmap := (bitmap s)[k div 8 := bitmap s ! (k div 8) AND NOT (push_bit (k mod 8) 1)], free_pages := free_pages s + 1\<rparr>"
    unfolding free_page_def Let_def k(1) using page_index [OF k20] by simp
  note c = clear_page_inv [OF assms(1) k(2) f]
  have "page_of ` ({j. used_bit (bitmap s) j} - {k}) = page_of ` {j. used_bit (bitmap s) j} - {page_of k}"
  proof (rule inj_on_image_set_diff [OF page_of_inj, of _ "{k}", simplified image_insert image_empty])
    show "{j. used_bit (bitmap s) j} - {k} \<subseteq> {..<2 ^ 20}" using pmm_inv_bits [OF assms(1)] by auto
    show "{k} \<subseteq> {..<2 ^ 20}" using k20 by simp
  qed
  then show ?thesis using c k(1) by (simp add: used_pages_def page_pool_def)
qed

interpretation pages: page_allocator alloc_page free_page pmm_inv page_pool used_pages
proof
  fix s p s'
  show "pmm_inv s \<Longrightarrow> finite (page_pool s) \<and> used_pages s \<subseteq> page_pool s"
    using used_subset by (auto simp: page_pool_def used_pages_def)
  show "pmm_inv s \<Longrightarrow> alloc_page s = (Some p, s') \<Longrightarrow> pmm_inv s' \<and> page_pool s' = page_pool s \<and>
      p \<in> page_pool s - used_pages s \<and> used_pages s' = insert p (used_pages s)"
    by (rule alloc_page_law)
  show "pmm_inv s \<Longrightarrow> alloc_page s = (None, s') \<Longrightarrow> s' = s \<and> page_pool s = used_pages s"
    by (intro conjI, erule (1) alloc_page_None, rule alloc_page_None(2) [symmetric])
  show "pmm_inv s \<Longrightarrow> p \<in> used_pages s \<Longrightarrow> pmm_inv (free_page p s) \<and>
      page_pool (free_page p s) = page_pool s \<and> used_pages (free_page p s) = used_pages s - {p}"
    by (rule free_page_law)
qed

section \<open>Initialisation\<close>

text \<open>Marking pages that are not marked yet.\<close>

lemma mark_used_inv:
  assumes "pmm_inv s" "k = unat (addr div 4096)" "\<not> used_bit (bitmap s) k"
  shows "pmm_inv (mark_used addr s) \<and> length (bitmap (mark_used addr s)) = length (bitmap s) \<and>
    {j. used_bit (bitmap (mark_used addr s)) j} = {j. used_bit (bitmap s) j} \<union> ({k} \<inter> {..<8 * length (bitmap s)})"
proof (cases "k div 8 < length (bitmap s)")
  case True
  then have k: "k < 8 * length (bitmap s)" by (simp add: div_less_iff_less_mult mult.commute)
  have "mark_used addr s = s\<lparr>bitmap := (bitmap s)[k div 8 := bitmap s ! (k div 8) OR push_bit (k mod 8) 1], free_pages := free_pages s - 1\<rparr>"
    using True assms(2) by (simp add: mark_used_def Let_def)
  from set_page_inv [OF assms(1) True assms(3) this] show ?thesis using k by auto
next
  case False
  then have "\<not> k < 8 * length (bitmap s)" by (simp add: div_less_iff_less_mult mult.commute)
  then show ?thesis using False assms by (simp add: mark_used_def)
qed

lemma mark_range_inv:
  assumes "pmm_inv s" "distinct (map (\<lambda>a. unat (a div 4096)) as)"
    and "\<forall>a \<in> set as. \<not> used_bit (bitmap s) (unat (a div 4096))"
  shows "pmm_inv (fold mark_used as s) \<and> length (bitmap (fold mark_used as s)) = length (bitmap s) \<and>
    {j. used_bit (bitmap (fold mark_used as s)) j} =
      {j. used_bit (bitmap s) j} \<union> ((\<lambda>a. unat (a div 4096)) ` set as \<inter> {..<8 * length (bitmap s)})"
  using assms
proof (induction as arbitrary: s)
  case (Cons a as)
  let ?t = "mark_used a s"
  have m: "pmm_inv ?t" "length (bitmap ?t) = length (bitmap s)"
    "{j. used_bit (bitmap ?t) j} = {j. used_bit (bitmap s) j} \<union> ({unat (a div 4096)} \<inter> {..<8 * length (bitmap s)})"
    using mark_used_inv [OF Cons.prems(1) refl, of a] Cons.prems(3) by simp_all
  have "\<forall>b \<in> set as. \<not> used_bit (bitmap ?t) (unat (b div 4096))"
  proof
    fix b assume b: "b \<in> set as"
    then have "unat (b div 4096) \<noteq> unat (a div 4096)" using Cons.prems(2) by (auto simp: image_iff)
    moreover have "\<not> used_bit (bitmap s) (unat (b div 4096))" using b Cons.prems(3) by simp
    ultimately show "\<not> used_bit (bitmap ?t) (unat (b div 4096))" using m(3) by blast
  qed
  then have "pmm_inv (fold mark_used as ?t) \<and> length (bitmap (fold mark_used as ?t)) = length (bitmap ?t) \<and>
    {j. used_bit (bitmap (fold mark_used as ?t)) j} =
      {j. used_bit (bitmap ?t) j} \<union> ((\<lambda>a. unat (a div 4096)) ` set as \<inter> {..<8 * length (bitmap ?t)})"
    using Cons.prems(2) by (intro Cons.IH m(1)) simp_all
  then show ?case using m(2,3) by (simp add: Int_insert_left Un_assoc)
qed simp

lemma range_pages:
  "map (\<lambda>a. unat (a div 4096)) low_range = [0..<160]" "map (\<lambda>a. unat (a div 4096)) kernel_range = [256..<512]"
proof -
  have "unat ((of_nat (i * 4096) :: u32) div 4096) = i" if "i < 2 ^ 20" for i
  proof -
    have "unat (of_nat (i * 4096) :: u32) = i * 4096" using that by (intro unat_of_nat_u32) simp
    then show ?thesis by (simp add: unat_div_distrib del: of_nat_mult)
  qed
  note pg = this
  show "map (\<lambda>a. unat (a div 4096)) low_range = [0..<160]"
    unfolding low_range_def map_map by (rule map_idI [THEN trans]) (use pg in \<open>auto simp: comp_def\<close>)
  have k: "0x100000 + of_nat (i * 4096) = (of_nat ((i + 256) * 4096) :: u32)" for i by (simp add: algebra_simps)
  have "unat ((0x100000 + of_nat (i * 4096) :: u32) div 4096) = i + 256" if "i < 256" for i
    unfolding k using that by (intro pg) simp
  then have "map (\<lambda>a. unat (a div 4096)) kernel_range = map (\<lambda>i. i + 256) [0..<256]"
    unfolding kernel_range_def map_map by (intro map_cong) (simp_all only: comp_def set_upt atLeastLessThan_iff)
  then show "map (\<lambda>a. unat (a div 4096)) kernel_range = [256..<512]" by (simp add: map_add_upt)
qed

lemma pmm_start_inv: "pmm_inv (pmm_start l u)" "{j. used_bit (bitmap (pmm_start l u)) j} = {}"
proof -
  have "unat ((l + u) div 4096) \<le> 2 ^ 20"
    using unat_of_nat_u32 unsigned_less [of "l + u", where 'a = nat] by (simp add: unat_div_distrib less_mult_imp_div_less less_imp_le)
  moreover show e: "{j. used_bit (bitmap (pmm_start l u)) j} = {}"
    by (auto simp: used_bit_def pmm_start_def Let_def div_less_iff_less_mult mult.commute)
  ultimately show "pmm_inv (pmm_start l u)"
    unfolding pmm_inv_def e by (simp add: pmm_start_def Let_def unat_div_distrib)
qed

lemma pmm_init_ok:
  "pmm_inv (pmm_init_mem l u)"
  "length (bitmap (pmm_init_mem l u)) = unat ((l + u) div 4096 div 8)"
  "{j. used_bit (bitmap (pmm_init_mem l u)) j} = ({0..<160} \<union> {256..<512}) \<inter> {..<8 * unat ((l + u) div 4096 div 8)}"
proof -
  let ?s = "pmm_start l u" and ?n = "unat ((l + u) div 4096 div 8)"
  have n: "length (bitmap ?s) = ?n" by (simp add: pmm_start_def Let_def)
  have low: "(\<lambda>a. unat (a div 4096)) ` set low_range = {0..<160}" "distinct (map (\<lambda>a. unat (a div 4096)) low_range)"
    by (simp_all only: set_map [symmetric] range_pages set_upt distinct_upt)
  have ker: "(\<lambda>a. unat (a div 4096)) ` set kernel_range = {256..<512}" "distinct (map (\<lambda>a. unat (a div 4096)) kernel_range)"
    by (simp_all only: set_map [symmetric] range_pages set_upt distinct_upt)
  define t where "t = fold mark_used low_range ?s"
  have none: "\<forall>a \<in> set low_range. \<not> used_bit (bitmap ?s) (unat (a div 4096))" using pmm_start_inv(2) by blast
  have t: "pmm_inv t" "length (bitmap t) = ?n" "{j. used_bit (bitmap t) j} = {0..<160} \<inter> {..<8 * ?n}"
  proof -
    note r = mark_range_inv [OF pmm_start_inv(1) low(2) none, folded t_def]
    from r show "pmm_inv t" by (rule conjunct1)
    from r show "length (bitmap t) = ?n" by (simp only: n)
    from r show "{j. used_bit (bitmap t) j} = {0..<160} \<inter> {..<8 * ?n}"
      by (simp only: n low(1) pmm_start_inv(2) Un_empty_left)
  qed
  have "\<forall>a \<in> set kernel_range. \<not> used_bit (bitmap t) (unat (a div 4096))"
  proof
    fix a assume "a \<in> set kernel_range"
    then have "unat (a div 4096) \<in> {256..<512}" using ker(1) by blast
    then have "unat (a div 4096) \<notin> {j. used_bit (bitmap t) j}" unfolding t(3) by auto
    then show "\<not> used_bit (bitmap t) (unat (a div 4096))" by simp
  qed
  note r = mark_range_inv [OF t(1) ker(2) this, unfolded t_def, folded pmm_init_mem_def, folded t_def]
  from r show "pmm_inv (pmm_init_mem l u)" by (rule conjunct1)
  from r show "length (bitmap (pmm_init_mem l u)) = ?n" by (simp only: t(2))
  from r show "{j. used_bit (bitmap (pmm_init_mem l u)) j} = ({0..<160} \<union> {256..<512}) \<inter> {..<8 * ?n}"
    by (simp only: t(2,3) ker(1) Int_Un_distrib2)
qed

text \<open>A manager after 8 MB of memory were found.\<close>

definition pmm_example :: pmm where
  "pmm_example = pmm_init_mem 0xA0000 0x700000"

lemma pmm_example_inv: "pmm_inv pmm_example"
  unfolding pmm_example_def by (rule pmm_init_ok(1))

lemma first_page:
  assumes "0x200000 \<le> unat (l + u)"
  shows "fst (alloc_page (pmm_init_mem l u)) = Some 0x1A0000"
proof -
  let ?s = "pmm_init_mem l u"
  have "unat ((l + u) div 4096 div 8) = unat (l + u) div 4096 div 8" by (simp add: unat_div_distrib)
  moreover have "(0x200000 :: nat) div 4096 div 8 \<le> unat (l + u) div 4096 div 8" using assms by (intro div_le_mono)
  ultimately have n: "64 \<le> unat ((l + u) div 4096 div 8)" by simp
  have used: "used_bit (bitmap ?s) k \<longleftrightarrow> k < 160 \<or> 256 \<le> k \<and> k < 512" if "k < 512" for k
    using pmm_init_ok(3) [of l u] n that by (auto simp: set_eq_iff)
  obtain r t where a: "alloc_page ?s = (r, t)" by (cases "alloc_page ?s")
  show ?thesis
  proof (cases r)
    case None
    then have "used_pages ?s = page_pool ?s" using alloc_page_None(2) [OF pmm_init_ok(1)] a by simp
    moreover have "page_of 160 \<in> page_pool ?s" using n by (simp add: page_pool_def pmm_init_ok(2))
    moreover have "page_of 160 \<notin> used_pages ?s" using used_pages_of [OF pmm_init_ok(1), of 160] used [of 160] by simp
    ultimately show ?thesis by simp
  next
    case (Some p)
    then obtain k where k: "p = page_of k" "\<not> used_bit (bitmap ?s) k" "\<forall>j < k. used_bit (bitmap ?s) j"
      using alloc_page_Some [OF pmm_init_ok(1)] a by blast
    have "\<not> 160 < k" using k(3) used [of 160] by auto
    moreover have "\<not> k < 160" using k(2) used [of k] by auto
    ultimately have "k = 160" by simp
    then show ?thesis using a Some k(1) by (simp add: page_of_def)
  qed
qed

section \<open>Properties\<close>

text \<open>
  C16. Page allocation: on a consistent bitmap \<open>alloc_page\<close> fails only when every page of the
  pool is used; otherwise it hands out a page of the pool that was not used and marks
  exactly that page, and the invariant, with the counter of free pages, is kept.
\<close>

theorem pmm_alloc_correct:
  assumes "pmm_inv s"
  shows "\<exists>r s'. alloc_page s = (r, s') \<and> pmm_inv s' \<and> (r = None \<longleftrightarrow> used_pages s = page_pool s) \<and>
    (\<forall>p. r = Some p \<longrightarrow> p \<in> page_pool s - used_pages s \<and> used_pages s' = insert p (used_pages s))"
proof -
  obtain r s' where a: "alloc_page s = (r, s')" by (cases "alloc_page s")
  show ?thesis
  proof (cases r)
    case None
    then show ?thesis using a pages.alloc_none [OF assms] assms by auto
  next
    case (Some p)
    then have "p \<in> page_pool s - used_pages s" "pmm_inv s'" "used_pages s' = insert p (used_pages s)"
      using a pages.alloc_some [OF assms] by auto
    then show ?thesis using a Some by auto
  qed
qed

theorem pmm_alloc_correct_witness:
  "\<exists>r s'. alloc_page pmm_example = (r, s') \<and> pmm_inv s' \<and> (r = None \<longleftrightarrow> used_pages pmm_example = page_pool pmm_example) \<and>
    (\<forall>p. r = Some p \<longrightarrow> p \<in> page_pool pmm_example - used_pages pmm_example \<and>
       used_pages s' = insert p (used_pages pmm_example))"
  by (rule pmm_alloc_correct [OF pmm_example_inv])

text \<open>
  No page is handed out twice: any number of successive allocations gives pairwise
  different pages, none of which was in use, and they stop only when the pool is
  exhausted.
\<close>

theorem pmm_allocs_distinct:
  assumes "pmm_inv s"
  shows "\<exists>ps s'. alloc_many alloc_page n s = (ps, s') \<and> pmm_inv s' \<and> distinct ps \<and> set ps \<inter> used_pages s = {} \<and>
    length ps = min n (card (page_pool s - used_pages s))"
proof -
  obtain ps s' where a: "alloc_many alloc_page n s = (ps, s')" by (cases "alloc_many alloc_page n s")
  then show ?thesis using pages.alloc_many_ok [OF assms a] by auto
qed

theorem pmm_allocs_distinct_witness:
  "\<exists>ps s'. alloc_many alloc_page 3 pmm_example = (ps, s') \<and> pmm_inv s' \<and> distinct ps \<and>
    set ps \<inter> used_pages pmm_example = {} \<and> length ps = min 3 (card (page_pool pmm_example - used_pages pmm_example))"
  by (rule pmm_allocs_distinct [OF pmm_example_inv])

text \<open>
  Freeing undoes allocating: after a successful allocation, \<open>free_page\<close> restores the set
  of used pages and the counter.
\<close>

theorem pmm_free_undoes_alloc:
  assumes "pmm_inv s" "alloc_page s = (Some p, s')"
  shows "pmm_inv (free_page p s') \<and> used_pages (free_page p s') = used_pages s \<and>
    free_pages_count (free_page p s') = free_pages_count s"
proof -
  have r: "pmm_inv (free_page p s')" "used_pages (free_page p s') = used_pages s" "p \<in> used_pages s'" "pmm_inv s'"
    using pages.alloc_free [OF assms] pages.alloc_some [OF assms] by auto
  obtain k where k: "p = page_of k" "used_bit (bitmap s') k" using r(3) by (auto simp: used_pages_def)
  have "unat ((p - base_addr s') div 4096) = k" "k div 8 < length (bitmap s')"
    using page_index [OF pmm_inv_bits [OF r(4) k(2)]] k r(4)
    by (auto simp: pmm_inv_def used_bit_def div_less_iff_less_mult mult.commute)
  then have "free_pages (free_page p s') = free_pages s' + 1" by (simp add: free_page_def Let_def)
  moreover have "free_pages s' = free_pages s - 1"
    using assms(2) by (auto simp: alloc_page_def split: option.splits)
  ultimately show ?thesis using r by (simp add: free_pages_count_def)
qed

theorem pmm_free_undoes_alloc_witness:
  "pmm_inv (free_page 0x1A0000 (snd (alloc_page pmm_example))) \<and>
   used_pages (free_page 0x1A0000 (snd (alloc_page pmm_example))) = used_pages pmm_example \<and>
   free_pages_count (free_page 0x1A0000 (snd (alloc_page pmm_example))) = free_pages_count pmm_example"
proof (rule pmm_free_undoes_alloc [OF pmm_example_inv])
  show "alloc_page pmm_example = (Some 0x1A0000, snd (alloc_page pmm_example))"
    using first_page [of "0xA0000" "0x700000"] unfolding pmm_example_def by (intro prod_eqI) simp_all
qed

text \<open>
  C17. The manager hands out kernel memory: \<open>init\<close> marks pages by their absolute address
  while \<open>alloc_page\<close> counts from one megabyte, so on every machine with at least two
  megabytes the first page allocated is 0x1A0000, inside the range from 0x100000 to
  0x200000 that \<open>init\<close> meant to reserve.
\<close>

theorem pmm_hands_out_kernel_memory:
  assumes "0x200000 \<le> unat (memory_lower + memory_upper)"
  shows "fst (alloc_page (pmm_init_mem memory_lower memory_upper)) = Some 0x1A0000 \<and> 0x1A0000 \<in> set kernel_range"
proof
  have "0x100000 + of_nat (160 * 4096) \<in> set kernel_range" unfolding kernel_range_def set_map by (rule imageI) simp
  then show "0x1A0000 \<in> set kernel_range" by simp
qed (rule first_page [OF assms])

theorem pmm_hands_out_kernel_memory_witness:
  "fst (alloc_page (pmm_init_mem 0xA0000 0x700000)) = Some 0x1A0000 \<and> 0x1A0000 \<in> set kernel_range"
  by (rule pmm_hands_out_kernel_memory) simp

end
