(* ===== verification/Vmm.thy ===== *)
theory Vmm
  imports Pmm Libc
begin

text \<open>
  Virtual memory, \<^verbatim>\<open>kernel/mem/vmm.rs\<close>: a two-level page table in physical memory, with the
  tables allocated by the physical memory manager, and the page fault handler of
  \<^verbatim>\<open>lib/libcrust/bridge.rs\<close>. The code reaches the tables through their physical
  addresses; the bytes of memory are those of \<^theory_text>\<open>Libc\<close>, apart from the bitmap of the
  physical memory manager. The abstract view of the tables is a partial function from
  pages to entries.
\<close>

section \<open>State and operations\<close>

record vmm =
  page_directory :: u32
  v_pmm :: pmm
  v_mem :: mem
  v_cr3 :: u32
  v_flushed :: "u32 list"

definition vmm_new :: "pmm \<Rightarrow> mem \<Rightarrow> u32 \<Rightarrow> vmm" where
  "vmm_new p m cr3 = \<lparr>page_directory = 0, v_pmm = p, v_mem = m, v_cr3 = cr3, v_flushed = []\<rparr>"

definition pd_index :: "u32 \<Rightarrow> u32" where
  "pd_index virt = drop_bit 22 virt AND 0x3FF"

definition pt_index :: "u32 \<Rightarrow> u32" where
  "pt_index virt = drop_bit 12 virt AND 0x3FF"

text \<open>\<open>*table.add(i)\<close>\<close>

definition entry :: "u32 \<Rightarrow> u32 \<Rightarrow> mem \<Rightarrow> u32" where
  "entry table i m = read32 m (table + 4 * i)"

definition set_entry :: "u32 \<Rightarrow> u32 \<Rightarrow> u32 \<Rightarrow> mem \<Rightarrow> mem" where
  "set_entry table i v = write32 (table + 4 * i) v"

definition page_table :: "u32 \<Rightarrow> vmm \<Rightarrow> (u32 \<times> vmm) res" where
  "page_table i s =
     (let pde = entry (page_directory s) i (v_mem s) in
      if pde AND 1 \<noteq> 0 then Inr (pde AND NOT 0xFFF, s)
      else case alloc_page (v_pmm s) of
             (None, p) \<Rightarrow> Inl Panic
           | (Some new_pt, p) \<Rightarrow>
               Inr (new_pt, s\<lparr>v_pmm := p, v_mem := set_entry (page_directory s) i (new_pt OR 0x7) (v_mem s)\<rparr>))"

definition map_page :: "u32 \<Rightarrow> u32 \<Rightarrow> u32 \<Rightarrow> vmm \<Rightarrow> vmm res" where
  "map_page virt phys flags s =
     bindR (page_table (pd_index virt) s) (\<lambda>(table, s).
     Inr (s\<lparr>v_mem := set_entry table (pt_index virt) (phys OR flags OR 1) (v_mem s)\<rparr>))"

definition unmap_page :: "u32 \<Rightarrow> vmm \<Rightarrow> vmm" where
  "unmap_page virt s =
     (let pde = entry (page_directory s) (pd_index virt) (v_mem s) in
      if pde AND 1 \<noteq> 0
      then s\<lparr>v_mem := set_entry (pde AND NOT 0xFFF) (pt_index virt) 0 (v_mem s)\<rparr>
      else s)"

definition switch_directory :: "u32 \<Rightarrow> vmm \<Rightarrow> vmm" where
  "switch_directory directory s = s\<lparr>v_cr3 := directory, page_directory := directory\<rparr>"

definition get_cr3 :: "vmm \<Rightarrow> u32" where
  "get_cr3 s = v_cr3 s"

definition tlb_flush :: "u32 \<Rightarrow> vmm \<Rightarrow> vmm" where
  "tlb_flush virt s = s\<lparr>v_flushed := v_flushed s @ [virt]\<rparr>"

text \<open>
  The page fault handler. Its two globals point to one memory manager, the one inside the
  virtual memory manager.
\<close>

definition rust_handle_page_fault :: "u32 \<Rightarrow> vmm \<Rightarrow> (int \<times> vmm) res" where
  "rust_handle_page_fault addr s =
     (case alloc_page (v_pmm s) of
        (Some phys, p) \<Rightarrow> bindR (map_page (addr AND NOT 0xFFF) phys 0x07 (s\<lparr>v_pmm := p\<rparr>)) (\<lambda>s. Inr (1, s))
      | (None, p) \<Rightarrow> Inr (0, s\<lparr>v_pmm := p\<rparr>))"

section \<open>Entries in memory\<close>

text \<open>The bytes of entry \<open>i\<close> of the page-aligned table at \<open>t\<close>, as numbers.\<close>

definition aligned :: "u32 \<Rightarrow> bool" where
  "aligned t \<longleftrightarrow> t AND 0xFFF = 0"

lemma aligned_unat: "aligned t \<longleftrightarrow> 4096 dvd unat t"
proof -
  have "t AND 0xFFF = take_bit 12 t" by (simp add: take_bit_eq_mask mask_eq_exp_minus_1)
  then have "unat (t AND 0xFFF) = unat t mod 4096"     by (simp add: unsigned_take_bit_eq take_bit_eq_mod unat_mod_distrib)
  then show ?thesis unfolding aligned_def by (metis dvd_eq_mod_eq_0 unat_eq_zero)
qed

lemma slot_unat:
  assumes "aligned t" "i < 1024" "k < 4"
  shows "unat (t + 4 * i + of_nat k) = unat t + 4 * unat i + k"
proof -
  obtain q where q: "unat t = 4096 * q" using assms(1) by (auto simp: aligned_unat)
  have "q \<le> 1048575" using unat_u32_less [of t] q by simp
  moreover have "unat i < 1024" using assms(2) by (simp add: word_less_nat_alt)
  ultimately have "unat t + 4 * unat i + k < 2 ^ 32" using assms(3) q by simp
  moreover have "t + 4 * i + of_nat k = of_nat (unat t + 4 * unat i + k)" by simp
  ultimately show ?thesis by (metis unat_of_nat_u32)
qed

lemma indices_less [simp]: "pd_index virt < 1024" "pt_index virt < 1024"
proof -
  have "x AND 0x3FF < 1024" for x :: u32
  proof -
    have "x AND 0x3FF = take_bit 10 x" by (simp add: take_bit_eq_mask mask_eq_exp_minus_1)
    also have "\<dots> < 1024"
      using take_bit_nat_less_exp [of 10 "unat x"] by (simp only: word_less_nat_alt unsigned_take_bit_eq) simp
    finally show ?thesis .
  qed
  then show "pd_index virt < 1024" "pt_index virt < 1024" by (simp_all add: pd_index_def pt_index_def)
qed

text \<open>Different entries of tables occupy different bytes.\<close>

lemma slot_neq:
  assumes t: "aligned t" "aligned u" and i: "i < 1024" "j < 1024" and k: "k < 4" "l < 4"
    and ne: "t \<noteq> u \<or> i \<noteq> j"
  shows "t + 4 * i + of_nat k \<noteq> u + 4 * j + of_nat l"
proof
  assume "t + 4 * i + of_nat k = u + 4 * j + of_nat l"
  then have e: "unat t + 4 * unat i + k = unat u + 4 * unat j + l"
    using slot_unat [OF t(1) i(1) k(1)] slot_unat [OF t(2) i(2) k(2)] by simp
  obtain p where p: "unat t = 4096 * p" using t(1) unfolding aligned_unat by (elim dvdE)
  obtain q where q: "unat u = 4096 * q" using t(2) unfolding aligned_unat by (elim dvdE)
  have ij: "unat i < 1024" "unat j < 1024" using i by (simp_all add: word_less_nat_alt)
  have "p = q" using e p q ij k by linarith
  moreover have "unat i = unat j" using e p q ij k \<open>p = q\<close> by linarith
  ultimately have "t = u" "i = j" using p q by (simp_all add: word_unat_eq_iff)
  then show False using ne by simp
qed

lemma entry_set_entry:
  assumes "aligned t" "aligned u" "i < 1024" "j < 1024"
  shows "entry u j (set_entry t i v m) = (if t = u \<and> i = j then v else entry u j m)"
proof (cases "t = u \<and> i = j")
  case False
  then have ne: "t \<noteq> u \<or> i \<noteq> j" by simp
  have "write32 (t + 4 * i) v m (u + 4 * j + of_nat l) = m (u + 4 * j + of_nat l)" if "l < 4" for l
    using slot_neq [OF assms _ that ne, of 0] slot_neq [OF assms _ that ne, of 1]
      slot_neq [OF assms _ that ne, of 2] slot_neq [OF assms _ that ne, of 3]
    by (simp add: write32_apply eq_commute)
  from this [of 0] this [of 1] this [of 2] this [of 3] show ?thesis
    unfolding if_not_P [OF False] by (simp add: entry_def set_entry_def read32_def)
qed (simp add: entry_def set_entry_def)

section \<open>The tables as a partial function\<close>

text \<open>
  The entry of page \<open>(d, t)\<close>, the page with directory index \<open>d\<close> and table index \<open>t\<close>, as
  the processor finds it, and the physical address that a virtual address is translated
  to.
\<close>

definition table_of :: "vmm \<Rightarrow> u32 \<Rightarrow> u32 option" where
  "table_of s d = (let pde = entry (page_directory s) d (v_mem s) in
     if pde AND 1 = 0 then None else Some (pde AND NOT 0xFFF))"

definition entries :: "vmm \<Rightarrow> u32 \<times> u32 \<Rightarrow> u32 option" where
  "entries s p = (case table_of s (fst p) of
      None \<Rightarrow> None
    | Some table \<Rightarrow> let pte = entry table (snd p) (v_mem s) in if pte AND 1 = 0 then None else Some pte)"

definition page_number :: "u32 \<Rightarrow> u32 \<times> u32" where
  "page_number virt = (virt div 0x400000, virt div 0x1000 mod 1024)"

definition translate :: "vmm \<Rightarrow> u32 \<Rightarrow> u32 option" where
  "translate s virt = map_option (\<lambda>pte. (pte AND NOT 0xFFF) OR (virt AND 0xFFF)) (entries s (page_number virt))"

lemma page_number_eq: "page_number virt = (pd_index virt, pt_index virt)"
proof -
  have m: "x AND 0x3FF = x mod 1024" for x :: u32
  proof -
    have "x AND 0x3FF = take_bit 10 x" by (simp add: take_bit_eq_mask mask_eq_exp_minus_1)
    then show ?thesis by (simp add: take_bit_eq_mod)
  qed
  have "unat (virt div 0x400000) < 1024" using unat_u32_less [of virt] by (simp add: unat_div_distrib)
  then have "virt div 0x400000 mod 1024 = virt div 0x400000"
    by (simp add: word_unat_eq_iff unat_mod_distrib)
  then show ?thesis by (simp add: page_number_def pd_index_def pt_index_def m drop_bit_eq_div)
qed

text \<open>
  The tables are well formed if the directory is aligned, no two present directory
  entries share a table, no table is the directory, and neither the directory nor a
  table is a page that the physical memory manager may still hand out.
\<close>

definition free_pool :: "vmm \<Rightarrow> u32 set" where
  "free_pool s = page_pool (v_pmm s) - used_pages (v_pmm s)"

definition vmm_wf :: "vmm \<Rightarrow> bool" where
  "vmm_wf s \<longleftrightarrow> pmm_inv (v_pmm s) \<and> aligned (page_directory s) \<and> page_directory s \<notin> free_pool s \<and>
     (\<forall>d < 1024. \<forall>t. table_of s d = Some t \<longrightarrow> t \<noteq> page_directory s \<and> t \<notin> free_pool s \<and>
        (\<forall>e < 1024. table_of s e = Some t \<longrightarrow> e = d))"

text \<open>The pages still to be handed out hold zeros.\<close>

definition free_clean :: "vmm \<Rightarrow> bool" where
  "free_clean s \<longleftrightarrow> (\<forall>t \<in> free_pool s. \<forall>i < 1024. entry t i (v_mem s) AND 1 = 0)"

lemma aligned_masked [simp]: "aligned (x AND - 4096)"
proof -
  have "(x AND NOT 0xFFF) AND 0xFFF = 0" by (simp only: and.assoc bit.conj_cancel_left bit.conj_zero_right)
  then show ?thesis by (simp add: aligned_def)
qed

lemma table_of_aligned: "table_of s d = Some t \<Longrightarrow> aligned t"
  by (auto simp: table_of_def Let_def split: if_splits)

lemma page_of_aligned: "aligned (page_of k)"
proof -
  have "(4096::nat) dvd (k * 4096) mod 2 ^ 32" by (rule dvd_mod) simp_all
  then have "4096 dvd (k * 4096) mod 2 ^ 32 + 0x100000" by (rule dvd_add) simp
  then have "4096 dvd ((k * 4096) mod 2 ^ 32 + 0x100000) mod 2 ^ 32" by (rule dvd_mod) simp
  then show ?thesis
    unfolding aligned_unat page_of_def by (simp add: unat_word_ariths unat_of_nat del: of_nat_mult)
qed

lemma free_pool_aligned: "t \<in> free_pool s \<Longrightarrow> aligned t"
  using page_of_aligned by (auto simp: free_pool_def page_pool_def)

lemma entry_flags:
  assumes "aligned p"
  shows "(p OR 7) AND NOT 0xFFF = p" "(p OR 7) AND 1 = 1"
proof -
  have "p AND 0xFFF = 0" using assms by (simp add: aligned_def)
  then have b: "\<not> bit p n" if "bit (0xFFF :: u32) n" for n
    using that by (metis bit_0_eq bit_and_iff bot_apply bot_bool_def)
  show "(p OR 7) AND NOT 0xFFF = p"
  proof (rule bit_word_eqI)
    fix n assume n: "n < LENGTH(32)"
    have "(7 :: u32) = mask 3" "(0xFFF :: u32) = mask 12" by (simp_all add: mask_eq_exp_minus_1)
    then have "bit (7 :: u32) n \<Longrightarrow> bit (0xFFF :: u32) n" by (simp only: bit_mask_iff) simp
    then show "bit ((p OR 7) AND NOT 0xFFF) n = bit p n"
      using b n by (auto simp only: bit_and_iff bit_or_iff bit_not_iff possible_bit_word)
  qed
  show "(p OR 7) AND 1 = 1" by (rule bit_word_eqI) (auto simp: bit_simps)
qed

section \<open>Updates of the tables\<close>

lemma vmm_wfD:
  assumes "vmm_wf s"
  shows "pmm_inv (v_pmm s)" "aligned (page_directory s)" "page_directory s \<notin> free_pool s"
    "d < 1024 \<Longrightarrow> table_of s d = Some t \<Longrightarrow> t \<noteq> page_directory s \<and> t \<notin> free_pool s"
    "d < 1024 \<Longrightarrow> e < 1024 \<Longrightarrow> table_of s d = Some t \<Longrightarrow> table_of s e = Some t \<Longrightarrow> e = d"
  using assms unfolding vmm_wf_def by blast+

lemma vmm_wfI:
  assumes "pmm_inv (v_pmm s)" "aligned (page_directory s)" "page_directory s \<notin> free_pool s"
    and "\<And>d t. d < 1024 \<Longrightarrow> table_of s d = Some t \<Longrightarrow> t \<noteq> page_directory s \<and> t \<notin> free_pool s"
    and "\<And>d e t. d < 1024 \<Longrightarrow> e < 1024 \<Longrightarrow> table_of s d = Some t \<Longrightarrow> table_of s e = Some t \<Longrightarrow> e = d"
  shows "vmm_wf s"
  using assms unfolding vmm_wf_def by blast

text \<open>Writing an entry of a table changes the entry of one page.\<close>

lemma write_table:
  fixes v :: u32
  assumes wf: "vmm_wf s" and t: "table_of s d = Some t" and di: "d < 1024" "i < 1024"
  defines "s' \<equiv> s\<lparr>v_mem := set_entry t i v (v_mem s)\<rparr>"
  shows "e < 1024 \<Longrightarrow> table_of s' e = table_of s e" "vmm_wf s'" "free_clean s \<Longrightarrow> free_clean s'"
    "e < 1024 \<Longrightarrow> j < 1024 \<Longrightarrow> entries s' (e, j) =
       (if e = d \<and> j = i then if v AND 1 = 0 then None else Some v else entries s (e, j))"
proof -
  have at: "aligned t" using t by (rule table_of_aligned)
  have tn: "t \<noteq> page_directory s" "t \<notin> free_pool s" using vmm_wfD(4) [OF wf di(1) t] by simp_all
  have u: "entry u j (v_mem s') = (if t = u \<and> i = j then v else entry u j (v_mem s))" if "aligned u" "j < 1024" for u j
    using that di(2) at by (simp add: s'_def entry_set_entry)
  show to: "table_of s' e = table_of s e" if "e < 1024" for e
    using that tn vmm_wfD(2) [OF wf] u [of "page_directory s" e] by (simp add: table_of_def s'_def)
  have fp: "free_pool s' = free_pool s" "page_directory s' = page_directory s" "v_pmm s' = v_pmm s"
    by (simp_all add: s'_def free_pool_def)
  show "vmm_wf s'"
    by (rule vmm_wfI) (use vmm_wfD [OF wf] to in \<open>simp_all add: fp\<close>)
  show "free_clean s'" if "free_clean s"
    unfolding free_clean_def fp using that tn free_pool_aligned u by (auto simp: free_clean_def)
  show "entries s' (e, j) = (if e = d \<and> j = i then if v AND 1 = 0 then None else Some v else entries s (e, j))"
    if "e < 1024" "j < 1024"
  proof (cases "table_of s e")
    case None
    then show ?thesis using t that by (auto simp: entries_def to)
  next
    case (Some w)
    have "t = w \<longleftrightarrow> e = d" using vmm_wfD(5) [OF wf _ _ Some] vmm_wfD(5) [OF wf] Some t that di by auto
    then show ?thesis using u [OF table_of_aligned [OF Some] that(2)] Some by (simp add: entries_def to that)
  qed
qed

lemma page_table_some: "table_of s d = Some t \<Longrightarrow> page_table d s = Inr (t, s)"
  unfolding page_table_def table_of_def Let_def by (simp split: if_split_asm)

lemma page_table_none:
  assumes "table_of s d = None" "alloc_page (v_pmm s) = (Some p, q)"
  shows "page_table d s = Inr (p, s\<lparr>v_pmm := q, v_mem := set_entry (page_directory s) d (p OR 0x7) (v_mem s)\<rparr>)"
proof -
  have "entry (page_directory s) d (v_mem s) AND 1 = 0"
    using assms(1) unfolding table_of_def Let_def by (simp split: if_split_asm)
  then show ?thesis unfolding page_table_def Let_def using assms(2) by simp
qed

text \<open>A new table: the page comes from the free ones, and its contents become entries.\<close>

lemma new_table_lookup:
  fixes q :: pmm
  assumes wf: "vmm_wf s" and d: "d < 1024" and ap: "aligned p"
  defines "s' \<equiv> s\<lparr>v_pmm := q, v_mem := set_entry (page_directory s) d (p OR 0x7) (v_mem s)\<rparr>"
  shows "aligned u \<Longrightarrow> j < 1024 \<Longrightarrow>
      entry u j (v_mem s') = (if page_directory s = u \<and> d = j then p OR 7 else entry u j (v_mem s))"
    "e < 1024 \<Longrightarrow> table_of s' e = (if e = d then Some p else table_of s e)"
proof -
  note pd = vmm_wfD(2) [OF wf]
  show u: "entry u j (v_mem s') = (if page_directory s = u \<and> d = j then p OR 7 else entry u j (v_mem s))"
    if "aligned u" "j < 1024" for u j
    using that d pd by (simp add: s'_def entry_set_entry)
  assume e: "e < 1024"
  have "entry (page_directory s') e (v_mem s') = (if e = d then p OR 7 else entry (page_directory s) e (v_mem s))"
    using u [OF pd e] by (auto simp: s'_def)
  then show "table_of s' e = (if e = d then Some p else table_of s e)"
    unfolding table_of_def Let_def using entry_flags [OF ap] by (cases "e = d") simp_all
qed

lemma new_table_entries:
  assumes wf: "vmm_wf s" and d: "d < 1024" and p: "p \<in> free_pool s" and ej: "e < 1024" "j < 1024"
  shows "entries (s\<lparr>v_pmm := q, v_mem := set_entry (page_directory s) d (p OR 0x7) (v_mem s)\<rparr>) (e, j) =
      (if e = d then let pte = entry p j (v_mem s) in if pte AND 1 = 0 then None else Some pte else entries s (e, j))"
    (is "entries ?s (e, j) = _")
proof -
  note w = vmm_wfD [OF wf] and l = new_table_lookup [OF wf d free_pool_aligned [OF p], where q = q]
  consider "e = d" | "e \<noteq> d" "table_of s e = None" | t where "e \<noteq> d" "table_of s e = Some t" by auto
  then show ?thesis
  proof cases
    case 1
    moreover have "p \<noteq> page_directory s" using p w(3) by blast
    ultimately show ?thesis using l(2) [OF ej(1)] l(1) [OF free_pool_aligned [OF p] ej(2)] by (simp add: entries_def)
  next
    case 2
    then show ?thesis using l(2) [OF ej(1)] by (simp add: entries_def)
  next
    case (3 t)
    then have "entry t j (v_mem ?s) = entry t j (v_mem s)"
      using l(1) [OF table_of_aligned [OF 3(2)] ej(2)] w(4) [OF ej(1) 3(2)] by auto
    then show ?thesis using l(2) [OF ej(1)] 3 by (simp add: entries_def)
  qed
qed

lemma new_table:
  assumes wf: "vmm_wf s" and no: "table_of s d = None" and d: "d < 1024" and a: "alloc_page (v_pmm s) = (Some p, q)"
  defines "s' \<equiv> s\<lparr>v_pmm := q, v_mem := set_entry (page_directory s) d (p OR 0x7) (v_mem s)\<rparr>"
  shows "page_table d s = Inr (p, s')" "vmm_wf s'" "table_of s' d = Some p" "free_clean s \<Longrightarrow> free_clean s'"
    "p \<in> free_pool s" "free_pool s' = free_pool s - {p}"
    "e < 1024 \<Longrightarrow> j < 1024 \<Longrightarrow> entries s' (e, j) =
       (if e = d then let pte = entry p j (v_mem s) in if pte AND 1 = 0 then None else Some pte else entries s (e, j))"
proof -
  note w = vmm_wfD [OF wf]
  have al: "pmm_inv q" "page_pool q = page_pool (v_pmm s)" "p \<in> free_pool s" "used_pages q = insert p (used_pages (v_pmm s))"
    using pages.alloc_some [OF w(1) a] by (auto simp: free_pool_def)
  show "p \<in> free_pool s" by (rule al(3))
  have ap: "aligned p" using al(3) by (rule free_pool_aligned)
  show fp: "free_pool s' = free_pool s - {p}" using al by (auto simp: free_pool_def s'_def)
  show "page_table d s = Inr (p, s')"
    unfolding s'_def by (rule page_table_none [OF no a])
  note u = new_table_lookup(1) [OF wf d ap, where q = q, folded s'_def]
    and to = new_table_lookup(2) [OF wf d ap, where q = q, folded s'_def]
  have pd: "page_directory s' = page_directory s" "v_pmm s' = q" by (simp_all add: s'_def)
  show "table_of s' d = Some p" using to d by simp
  have np: "p \<noteq> page_directory s" using al(3) w(3) by blast
  have pn: "table_of s e \<noteq> Some p" if "e < 1024" for e using w(4) [OF that] al(3) by blast
  show "vmm_wf s'"
  proof (rule vmm_wfI)
    fix e t assume e: "e < 1024" "table_of s' e = Some t"
    show "t \<noteq> page_directory s' \<and> t \<notin> free_pool s'"
      using e to [OF e(1)] w(4) [OF e(1), of t] np by (cases "e = d") (simp_all add: fp pd)
  next
    fix e f t assume ef: "e < 1024" "f < 1024" "table_of s' e = Some t" "table_of s' f = Some t"
    then show "f = e"
      using to [OF ef(1)] to [OF ef(2)] pn [OF ef(1)] pn [OF ef(2)] w(5) [OF ef(1,2)]
      by (cases "e = d"; cases "f = d") simp_all
  qed (use al(1) w(2,3) in \<open>simp_all add: fp pd\<close>)
  show "free_clean s'" if "free_clean s"
    unfolding free_clean_def fp
  proof (intro ballI allI impI)
    fix t i :: u32
    assume t: "t \<in> free_pool s - {p}" "i < 1024"
    then have "page_directory s \<noteq> t" using w(3) by blast
    then show "entry t i (v_mem s') AND 1 = 0"
      using t that u [of t i] free_pool_aligned [of t s] by (simp add: free_clean_def)
  qed
  show "entries s' (e, j) =
       (if e = d then let pte = entry p j (v_mem s) in if pte AND 1 = 0 then None else Some pte else entries s (e, j))"
    if "e < 1024" "j < 1024"
    unfolding s'_def by (rule new_table_entries [OF wf d al(3) that])
qed

section \<open>Mapping and unmapping\<close>

lemma present_bit: "(x OR 1) AND 1 \<noteq> (0 :: u32)"
proof
  assume "(x OR 1) AND 1 = 0"
  then have "bit ((x OR 1) AND 1) 0 = bit (0 :: u32) 0" by simp
  then show False by (simp only: bit_and_iff bit_or_iff bit_1_iff bit_0_eq bot_apply) simp
qed

definition can_map :: "u32 \<Rightarrow> vmm \<Rightarrow> bool" where
  "can_map virt s \<longleftrightarrow> table_of s (pd_index virt) \<noteq> None \<or> free_pool s \<noteq> {}"

lemma can_map_alloc:
  assumes "vmm_wf s" "table_of s (pd_index virt) = None"
  shows "can_map virt s \<longleftrightarrow> (\<exists>p q. alloc_page (v_pmm s) = (Some p, q))"
proof -
  note a = vmm_wfD(1) [OF assms(1)]
  show ?thesis
    using assms(2) pages.alloc_live [OF a] pages.alloc_some [OF a] pages.pool_finite [OF a]
    by (auto simp: can_map_def free_pool_def)
qed

lemma map_page_entries:
  assumes wf: "vmm_wf s" and clean: "free_clean s" and can: "can_map virt s"
  shows "\<exists>s'. map_page virt phys flags s = Inr s' \<and> vmm_wf s' \<and> free_clean s' \<and> free_pool s' \<subseteq> free_pool s \<and>
    page_directory s' = page_directory s \<and>
    (\<forall>e < 1024. \<forall>j < 1024. entries s' (e, j) =
      (if (e, j) = page_number virt then Some (phys OR flags OR 1) else entries s (e, j)))"
proof (cases "table_of s (pd_index virt)")
  case (Some t)
  let ?s = "s\<lparr>v_mem := set_entry t (pt_index virt) (phys OR flags OR 1) (v_mem s)\<rparr>"
  note w = write_table [OF wf Some indices_less, where v = "phys OR flags OR 1"]
  have "map_page virt phys flags s = Inr ?s" by (simp add: map_page_def page_table_some [OF Some])
  moreover have "free_pool ?s \<subseteq> free_pool s" by (simp add: free_pool_def)
  moreover have "\<forall>e < 1024. \<forall>j < 1024. entries ?s (e, j) =
      (if (e, j) = page_number virt then Some (phys OR flags OR 1) else entries s (e, j))"
    using w(4) present_bit [of "phys OR flags"] by (simp only: page_number_eq prod.inject or.assoc if_False) blast
  ultimately show ?thesis using w(2) w(3) [OF clean] by (intro exI [of _ ?s]) simp
next
  case None
  obtain p q where a: "alloc_page (v_pmm s) = (Some p, q)" using can can_map_alloc [OF wf None] by blast
  define u where "u = s\<lparr>v_pmm := q, v_mem := set_entry (page_directory s) (pd_index virt) (p OR 0x7) (v_mem s)\<rparr>"
  note n = new_table [OF wf None indices_less(1) a, folded u_def]
  let ?s = "u\<lparr>v_mem := set_entry p (pt_index virt) (phys OR flags OR 1) (v_mem u)\<rparr>"
  note w = write_table [OF n(2,3) indices_less, where v = "phys OR flags OR 1"]
  have "map_page virt phys flags s = Inr ?s" by (simp add: map_page_def n(1))
  moreover have "free_pool ?s \<subseteq> free_pool s" "page_directory ?s = page_directory s"
    using n(6) by (auto simp: free_pool_def u_def)
  moreover have e: "entries u (e, j) = entries s (e, j)" if "e < 1024" "j < 1024" for e j
  proof (cases "e = pd_index virt")
    case True
    have "entry p j (v_mem s) AND 1 = 0" using clean n(5) that(2) unfolding free_clean_def by blast
    then show ?thesis unfolding n(7) [OF that] using True None by (simp add: entries_def)
  next
    case False
    then show ?thesis unfolding n(7) [OF that] by simp
  qed
  moreover have "\<forall>e < 1024. \<forall>j < 1024. entries ?s (e, j) =
      (if (e, j) = page_number virt then Some (phys OR flags OR 1) else entries s (e, j))"
    using w(4) present_bit [of "phys OR flags"] e
    by (simp only: page_number_eq prod.inject or.assoc if_False) metis
  ultimately show ?thesis using w(2) w(3) [OF n(4) [OF clean]] by (intro exI [of _ ?s]) simp
qed

lemma unmap_page_entries:
  assumes wf: "vmm_wf s"
  shows "vmm_wf (unmap_page virt s)" "free_clean s \<Longrightarrow> free_clean (unmap_page virt s)"
    "e < 1024 \<Longrightarrow> j < 1024 \<Longrightarrow>
       entries (unmap_page virt s) (e, j) = (if (e, j) = page_number virt then None else entries s (e, j))"
proof -
  consider t where "table_of s (pd_index virt) = Some t"
      "unmap_page virt s = s\<lparr>v_mem := set_entry t (pt_index virt) 0 (v_mem s)\<rparr>"
    | "table_of s (pd_index virt) = None" "unmap_page virt s = s"
    unfolding unmap_page_def table_of_def Let_def
    by (cases "entry (page_directory s) (pd_index virt) (v_mem s) AND 1 = 0") simp_all
  then have "vmm_wf (unmap_page virt s) \<and> (free_clean s \<longrightarrow> free_clean (unmap_page virt s)) \<and>
    (\<forall>e < 1024. \<forall>j < 1024.
       entries (unmap_page virt s) (e, j) = (if (e, j) = page_number virt then None else entries s (e, j)))"
  proof cases
    case 1
    show ?thesis
      unfolding 1(2) using write_table [OF wf 1(1) indices_less, where v = 0] by (simp add: page_number_eq)
  next
    case 2
    then show ?thesis using wf by (auto simp: page_number_eq entries_def)
  qed
  then show "vmm_wf (unmap_page virt s)" "free_clean s \<Longrightarrow> free_clean (unmap_page virt s)"
    "e < 1024 \<Longrightarrow> j < 1024 \<Longrightarrow>
       entries (unmap_page virt s) (e, j) = (if (e, j) = page_number virt then None else entries s (e, j))"
    by blast+
qed

lemma page_number_indices: "\<exists>e j. page_number virt = (e, j) \<and> e < 1024 \<and> j < 1024"
  by (simp add: page_number_eq)

text \<open>Taking a page out of the pool keeps the tables.\<close>

lemma take_page:
  assumes wf: "vmm_wf s" and a: "alloc_page (v_pmm s) = (Some p, q)"
  defines "s' \<equiv> s\<lparr>v_pmm := q\<rparr>"
  shows "vmm_wf s'" "free_clean s \<Longrightarrow> free_clean s'" "p \<in> free_pool s" "free_pool s' = free_pool s - {p}"
    "entries s' = entries s" "table_of s' = table_of s"
proof -
  note w = vmm_wfD [OF wf]
  have al: "pmm_inv q" "page_pool q = page_pool (v_pmm s)" "p \<in> free_pool s" "used_pages q = insert p (used_pages (v_pmm s))"
    using pages.alloc_some [OF w(1) a] by (auto simp: free_pool_def)
  show fp: "free_pool s' = free_pool s - {p}" using al by (auto simp: free_pool_def s'_def)
  show to: "table_of s' = table_of s" by (rule ext) (simp add: table_of_def s'_def)
  have "v_mem s' = v_mem s" by (simp add: s'_def)
  then show "entries s' = entries s" by (intro ext) (simp add: entries_def to cong: option.case_cong)
  show "vmm_wf s'" by (rule vmm_wfI) (use w al in \<open>simp_all add: fp to, simp_all add: s'_def\<close>)
  show "free_clean s'" if "free_clean s" using that unfolding free_clean_def fp by (simp add: s'_def)
qed (use pages.alloc_some [OF vmm_wfD(1) [OF wf] a] in \<open>simp add: free_pool_def\<close>)

lemma map_page_panics:
  assumes "vmm_wf s" "\<not> can_map virt s"
  shows "map_page virt phys flags s = Inl Panic"
proof -
  have n: "table_of s (pd_index virt) = None" using assms(2) by (simp add: can_map_def)
  obtain q where q: "alloc_page (v_pmm s) = (None, q)"
    using assms(2) can_map_alloc [OF assms(1) n] by (cases "alloc_page (v_pmm s)"; cases "fst (alloc_page (v_pmm s))") auto
  have "entry (page_directory s) (pd_index virt) (v_mem s) AND 1 = 0"
    using n unfolding table_of_def Let_def by (simp split: if_split_asm)
  then show ?thesis unfolding map_page_def page_table_def Let_def using q by simp
qed

lemma page_frame:
  assumes "aligned p"
  shows "(p OR 7 OR 1) AND NOT 0xFFF = p"
proof -
  have "(7 OR 1 :: u32) = 7" by simp
  then show ?thesis using entry_flags(1) [OF assms] by (simp only:)
qed

lemma page_number_masked: "page_number (addr AND NOT 0xFFF) = page_number addr"
proof -
  have m: "(0xFFF :: u32) = mask 12" "(0x3FF :: u32) = mask 10" by (simp_all add: mask_eq_exp_minus_1)
  have "pd_index (addr AND NOT 0xFFF) = pd_index addr" "pt_index (addr AND NOT 0xFFF) = pt_index addr"
    unfolding pd_index_def pt_index_def m
    by (rule bit_word_eqI, simp add: bit_and_iff bit_drop_bit_eq bit_not_iff bit_mask_iff, auto)+
  then show ?thesis by (simp add: page_number_eq)
qed

lemma minus_singleton_empty: "x \<in> A \<Longrightarrow> A - {x} = {} \<longleftrightarrow> (\<exists>y. A = {y})"
  by blast

lemma alloc_page_exhausted:
  assumes "vmm_wf s" "free_pool s = {}"
  shows "alloc_page (v_pmm s) = (None, v_pmm s)"
proof -
  note i = vmm_wfD(1) [OF assms(1)]
  obtain r q where a: "alloc_page (v_pmm s) = (r, q)" by (cases "alloc_page (v_pmm s)")
  show ?thesis
  proof (cases r)
    case None
    then show ?thesis using pages.alloc_none [OF i] a by simp
  next
    case (Some p)
    then show ?thesis using pages.alloc_some [OF i] a assms(2) by (auto simp: free_pool_def)
  qed
qed

section \<open>Properties\<close>

text \<open>
  C18. \<open>map_page\<close> refines the update of a partial function: if a table for the page exists
  or a page for one is left, and the pages still to be handed out are zero, the call
  returns, the page gets the entry made of the frame and the flags, every other page
  keeps its entry, and the tables stay well formed.
\<close>

theorem map_page_refines:
  assumes "vmm_wf s" "free_clean s" "can_map virt s"
  shows "\<exists>s'. map_page virt phys flags s = Inr s' \<and> vmm_wf s' \<and> free_clean s' \<and>
    (\<forall>v. entries s' (page_number v) = ((entries s)(page_number virt \<mapsto> phys OR flags OR 1)) (page_number v))"
proof -
  obtain s' where "map_page virt phys flags s = Inr s'" "vmm_wf s'" "free_clean s'"
    "\<forall>e < 1024. \<forall>j < 1024. entries s' (e, j) =
      (if (e, j) = page_number virt then Some (phys OR flags OR 1) else entries s (e, j))"
    using map_page_entries [OF assms] by blast
  moreover from this(4) have "entries s' (page_number v) =
      ((entries s)(page_number virt \<mapsto> phys OR flags OR 1)) (page_number v)" for v
    using page_number_indices [of v] by auto
  ultimately show ?thesis by blast
qed

text \<open>
  Unmapping undoes mapping: with well-formed tables, no present entry in the free pages and a page for a table,
  mapping a page that has no entry and unmapping it again leaves every address with the
  translation it had.
\<close>

theorem unmap_undoes_map:
  assumes "vmm_wf s" "free_clean s" "can_map virt s" "entries s (page_number virt) = None"
  shows "\<exists>s'. map_page virt phys flags s = Inr s' \<and> vmm_wf (unmap_page virt s') \<and>
    translate (unmap_page virt s') virt = None \<and> (\<forall>v. translate (unmap_page virt s') v = translate s v)"
proof -
  obtain s' where s': "map_page virt phys flags s = Inr s'" "vmm_wf s'"
    "\<forall>e < 1024. \<forall>j < 1024. entries s' (e, j) =
      (if (e, j) = page_number virt then Some (phys OR flags OR 1) else entries s (e, j))"
    using map_page_entries [OF assms(1-3)] by blast
  have "entries (unmap_page virt s') (page_number v) = entries s (page_number v)" for v
    using page_number_indices [of v] unmap_page_entries(3) [OF s'(2)] s'(3) assms(4) by auto
  then show ?thesis using s' unmap_page_entries(1) [OF s'(2)] assms(4) by (auto simp: translate_def)
qed

text \<open>
  C20. A page fault gives the address a page of its own. The tables are well formed, and no entry in a page the
  memory manager may still hand out has its present bit set (the code does not clear a new table). If two pages are left, or one and
  the table exists, the handler answers 1, the address is translated into a page taken
  from the pool, and other pages keep their translation. Without any page left it answers
  0 and changes nothing; with a single page left and no table it does not answer 0 but
  panics.
\<close>

theorem page_fault_maps:
  assumes "vmm_wf s" "free_clean s"
  shows "if free_pool s = {} then rust_handle_page_fault addr s = Inr (0, s)
    else if table_of s (pd_index addr) = None \<and> (\<exists>p. free_pool s = {p})
    then rust_handle_page_fault addr s = Inl Panic
    else \<exists>p s'. rust_handle_page_fault addr s = Inr (1, s') \<and> p \<in> free_pool s - free_pool s' \<and> vmm_wf s' \<and> free_clean s' \<and>
      translate s' addr = Some (p OR (addr AND 0xFFF)) \<and>
      (\<forall>v. page_number v \<noteq> page_number addr \<longrightarrow> translate s' v = translate s v)"
proof (cases "free_pool s = {}")
  case True
  show ?thesis
    unfolding if_P [OF True] rust_handle_page_fault_def alloc_page_exhausted [OF assms(1) True] by simp
next
  case False
  then have "used_pages (v_pmm s) \<noteq> page_pool (v_pmm s)" by (auto simp: free_pool_def)
  then obtain p q where a: "alloc_page (v_pmm s) = (Some p, q)"
    using pages.alloc_live [OF vmm_wfD(1) [OF assms(1)]] by blast
  note t = take_page [OF assms(1) a]
  let ?s = "s\<lparr>v_pmm := q\<rparr>" and ?v = "addr AND NOT 0xFFF"
  have h: "rust_handle_page_fault addr s = bindR (map_page ?v p 7 ?s) (\<lambda>s. Inr (1, s))"
    by (simp add: rust_handle_page_fault_def a)
  have pn: "page_number ?v = page_number addr" "pd_index ?v = pd_index addr"
    using page_number_masked [of addr] by (simp_all only: page_number_eq prod.inject)
  have cm: "can_map ?v ?s \<longleftrightarrow> \<not> (table_of s (pd_index addr) = None \<and> (\<exists>p. free_pool s = {p}))"
    unfolding can_map_def pn(2) t(4,6) minus_singleton_empty [OF t(3)] by simp
  show ?thesis
  proof (cases "can_map ?v ?s")
    case True
    obtain s' where s': "map_page ?v p 7 ?s = Inr s'" "vmm_wf s'" "free_clean s'" "free_pool s' \<subseteq> free_pool ?s"
      "\<forall>e < 1024. \<forall>j < 1024. entries s' (e, j) =
        (if (e, j) = page_number addr then Some (p OR 7 OR 1) else entries s (e, j))"
      using map_page_entries [OF t(1) t(2) [OF assms(2)] True, of p 7] unfolding pn t(5) by blast
    have e: "entries s' (page_number v) = (if page_number v = page_number addr then Some (p OR 7 OR 1) else entries s (page_number v))" for v
      using s'(5) page_number_indices [of v] by auto
    have "translate s' addr = Some (p OR (addr AND 0xFFF))"
      unfolding translate_def e using page_frame [OF free_pool_aligned [OF t(3)]] by (simp only: simp_thms if_True option.map)
    moreover have "p \<in> free_pool s - free_pool s'" using s'(4) t(3,4) by blast
    moreover have "\<forall>v. page_number v \<noteq> page_number addr \<longrightarrow> translate s' v = translate s v"
      by (simp add: translate_def e)
    moreover have "rust_handle_page_fault addr s = Inr (1, s')" unfolding h s'(1) by simp
    moreover have c: "\<not> (table_of s (pd_index addr) = None \<and> (\<exists>p. free_pool s = {p}))" using True cm by blast
    ultimately show ?thesis unfolding if_not_P [OF False] if_not_P [OF c] using s'(2,3) by blast
  next
    case no: False
    then have c: "table_of s (pd_index addr) = None \<and> (\<exists>p. free_pool s = {p})" using cm by blast
    show ?thesis unfolding if_not_P [OF False] if_P [OF c] h map_page_panics [OF t(1) no] by simp
  qed
qed

section \<open>Witnesses\<close>

text \<open>An empty directory at 0x1000 in cleared memory.\<close>

definition vmm_example :: vmm where
  "vmm_example = switch_directory 0x1000 (vmm_new pmm_example (\<lambda>_. 0) 0)"

lemma vmm_example_empty:
  "table_of vmm_example d = None" "entry t i (v_mem vmm_example) = 0" "entries vmm_example p = None"
  by (simp_all add: table_of_def entries_def entry_def read32_def vmm_example_def switch_directory_def vmm_new_def)

lemma example_pool_high:
  assumes "2048 \<le> unat ((t - 0x100000) div 4096)"
  shows "t \<notin> page_pool pmm_example"
proof -
  have "t \<noteq> page_of k" if "k < 8 * length (bitmap pmm_example)" for k
  proof -
    have "k < 2048" using that by (simp add: pmm_example_def pmm_init_ok(2))
    then show ?thesis using page_index [of k] assms by auto
  qed
  then show ?thesis by (auto simp: page_pool_def)
qed

lemma vmm_example_wf: "vmm_wf vmm_example" "free_clean vmm_example"
proof -
  have "0x1000 \<notin> page_pool pmm_example" by (rule example_pool_high) simp
  then show "vmm_wf vmm_example"
    using pmm_example_inv by (intro vmm_wfI) (simp_all add: vmm_example_empty free_pool_def aligned_def,
        simp_all add: vmm_example_def switch_directory_def vmm_new_def)
  show "free_clean vmm_example" by (simp add: free_clean_def vmm_example_empty)
qed

lemma vmm_example_free: "160 \<le> k \<Longrightarrow> k < 256 \<Longrightarrow> page_of k \<in> free_pool vmm_example"
proof -
  assume k: "160 \<le> k" "k < 256"
  have "k \<notin> {j. used_bit (bitmap pmm_example) j}" unfolding pmm_example_def pmm_init_ok(3) using k by simp
  then have "page_of k \<notin> used_pages pmm_example" using used_pages_of [OF pmm_example_inv, of k] k by simp
  moreover have "page_of k \<in> page_pool pmm_example"
    using k by (simp add: page_pool_def pmm_example_def pmm_init_ok(2))
  ultimately show ?thesis by (simp add: free_pool_def vmm_example_def switch_directory_def vmm_new_def)
qed

lemma vmm_example_can_map: "can_map virt vmm_example"
  using vmm_example_free [of 160] by (auto simp: can_map_def)

theorem map_page_refines_witness:
  "\<exists>s'. map_page 0xC0000000 0x400000 3 vmm_example = Inr s' \<and> vmm_wf s' \<and> free_clean s' \<and>
    (\<forall>v. entries s' (page_number v) =
      ((entries vmm_example)(page_number 0xC0000000 \<mapsto> 0x400000 OR 3 OR 1)) (page_number v))"
  by (rule map_page_refines [OF vmm_example_wf vmm_example_can_map])

theorem unmap_undoes_map_witness:
  "\<exists>s'. map_page 0xC0000000 0x400000 3 vmm_example = Inr s' \<and> vmm_wf (unmap_page 0xC0000000 s') \<and>
    translate (unmap_page 0xC0000000 s') 0xC0000000 = None \<and>
    (\<forall>v. translate (unmap_page 0xC0000000 s') v = translate vmm_example v)"
  by (rule unmap_undoes_map [OF vmm_example_wf vmm_example_can_map vmm_example_empty(3)])

theorem page_fault_maps_witness:
  "\<exists>p s'. rust_handle_page_fault 0x40000123 vmm_example = Inr (1, s') \<and>
    p \<in> free_pool vmm_example - free_pool s' \<and> vmm_wf s' \<and> translate s' 0x40000123 = Some (p OR (0x40000123 AND 0xFFF))"
proof -
  have "page_of 160 \<in> free_pool vmm_example" "page_of 161 \<in> free_pool vmm_example"
    by (rule vmm_example_free; simp)+
  moreover have "page_of 160 \<noteq> page_of 161" by (simp add: page_of_def)
  ultimately have c: "free_pool vmm_example \<noteq> {}"
    "\<not> (table_of vmm_example (pd_index 0x40000123) = None \<and> (\<exists>p. free_pool vmm_example = {p}))"
    by (blast, metis singletonD)
  show ?thesis using page_fault_maps [OF vmm_example_wf, of "0x40000123"] unfolding if_not_P [OF c(1)] if_not_P [OF c(2)] by blast
qed

text \<open>
  A new page table is not cleared: whatever the page held before becomes translations of
  the other pages of its four megabytes.
\<close>

theorem new_table_not_cleared:
  assumes "vmm_wf s" "table_of s (pd_index virt) = None" "alloc_page (v_pmm s) = (Some p, q)"
    and "j < 1024" "j \<noteq> pt_index virt" "entry p j (v_mem s) AND 1 \<noteq> 0"
  shows "\<exists>s'. map_page virt phys flags s = Inr s' \<and> entries s' (pd_index virt, j) = Some (entry p j (v_mem s))"
proof -
  note n = new_table [OF assms(1,2) indices_less(1) assms(3)]
  have "entries (s\<lparr>v_pmm := q, v_mem := set_entry (page_directory s) (pd_index virt) (p OR 0x7) (v_mem s)\<rparr>) (pd_index virt, j) =
    Some (entry p j (v_mem s))"
    using n(7) [OF indices_less(1) assms(4)] assms(6) by (simp only: Let_def simp_thms if_True if_False)
  then show ?thesis
    unfolding map_page_def n(1) using write_table(4) [OF n(2,3) indices_less indices_less(1) assms(4)] assms(5) by simp
qed

end
