(* ===== verification/Keyboard.thy ===== *)
theory Keyboard
  imports Commands
begin

text \<open>
  The keyboard driver, \<^verbatim>\<open>kernel/drivers/keyboard.rs\<close>: a state machine over scan codes with
  the modifier keys as its state. The table of the source lists 72 of the 128 entries its
  type announces; the missing ones are taken as zero, as the last ones listed are.
\<close>

section \<open>State\<close>

record keyboard =
  kb_shift :: bool
  kb_caps :: bool
  kb_ctrl :: bool
  kb_alt :: bool

definition keyboard_new :: keyboard where
  "keyboard_new = \<lparr>kb_shift = False, kb_caps = False, kb_ctrl = False, kb_alt = False\<rparr>"

definition SCANCODE_TO_ASCII :: "u8 list" where
  "SCANCODE_TO_ASCII =
     [0, 0] @ map of_char ''1234567890-='' @ [0, 0] @ map of_char ''qwertyuiop[]'' @ [0, 0] @
     map of_char ''asdfghjkl;'' @ [0x27, 0x60, 0, 0x5C] @ map of_char ''zxcvbnm,./'' @ [0] @ map of_char ''*'' @ [0] @
     map of_char '' '' @ replicate 14 0 @ replicate 56 0"

section \<open>Operations\<close>

definition read_scancode :: "'a io_state_scheme \<Rightarrow> (u8 option \<times> 'a io_state_scheme) res" where
  "read_scancode s =
     bindR (inb 0x64 s) (\<lambda>(status, s).
     if status AND 1 = 1
     then bindR (inb 0x60 s) (\<lambda>(scancode, s). Inr (Some scancode, s))
     else Inr (None, s))"

text \<open>The keys that only change the modifiers.\<close>

definition modifier_key :: "u8 \<Rightarrow> keyboard \<Rightarrow> keyboard option" where
  "modifier_key scancode k =
     (if scancode = 0x1D then Some (k\<lparr>kb_ctrl := True\<rparr>)
      else if scancode = 0x9D then Some (k\<lparr>kb_ctrl := False\<rparr>)
      else if scancode = 0x38 then Some (k\<lparr>kb_alt := True\<rparr>)
      else if scancode = 0xB8 then Some (k\<lparr>kb_alt := False\<rparr>)
      else if scancode = 0x2A \<or> scancode = 0x36 then Some (k\<lparr>kb_shift := True\<rparr>)
      else if scancode = 0xAA \<or> scancode = 0xB6 then Some (k\<lparr>kb_shift := False\<rparr>)
      else if scancode = 0x3A then Some (k\<lparr>kb_caps := \<not> kb_caps k\<rparr>)
      else None)"

text \<open>The character of a key under the modifiers.\<close>

definition shifted_char :: "keyboard \<Rightarrow> u8 \<Rightarrow> u8" where
  "shifted_char k ascii =
     (let shift_active = (kb_shift k \<noteq> kb_caps k) in
      if shift_active \<and> ascii \<ge> 0x61 \<and> ascii \<le> 0x7A then ascii - 32
      else if shift_active \<and> ascii \<ge> 0x41 \<and> ascii \<le> 0x5A then ascii + 32
      else ascii)"

definition handle_scancode :: "u8 \<Rightarrow> keyboard \<Rightarrow> (u8 option \<times> keyboard) res" where
  "handle_scancode scancode k =
     (case modifier_key scancode k of
        Some k \<Rightarrow> Inr (None, k)
      | None \<Rightarrow>
          if scancode AND 0x80 \<noteq> 0 then Inr (None, k)
          else
            bindR (buf_read SCANCODE_TO_ASCII (uint scancode)) (\<lambda>ascii.
            if ascii \<noteq> 0
            then let ascii = shifted_char k ascii in
                 if kb_ctrl k \<and> ascii \<ge> 0x60 then Inr (Some (ascii - 0x60), k)
                 else Inr (Some ascii, k)
            else Inr (None, k)))"

definition reset_modifiers :: "keyboard \<Rightarrow> keyboard" where
  "reset_modifiers k = k\<lparr>kb_shift := False, kb_ctrl := False, kb_alt := False\<rparr>"

section \<open>The table\<close>

lemma length_table: "length SCANCODE_TO_ASCII = 128"
  by (simp add: SCANCODE_TO_ASCII_def)

text \<open>Every character of the table is printable; checked entry by entry.\<close>

definition table_char :: "u8 \<Rightarrow> bool" where
  "table_char c \<longleftrightarrow> c = 0 \<or> 0x20 \<le> c \<and> c \<le> 0x7A \<and> \<not> (0x41 \<le> c \<and> c \<le> 0x5A)"

lemma table_chars: "list_all table_char SCANCODE_TO_ASCII"
  by (simp add: SCANCODE_TO_ASCII_def table_char_def list_all_iff)

lemma scancode_less:
  fixes scancode :: u8
  assumes "scancode AND 0x80 = 0"
  shows "unat scancode < 128"
proof -
  have "\<not> bit scancode 7"
  proof
    assume "bit scancode 7"
    then have "bit (scancode AND 0x80) 7" by (simp add: bit_simps bit_numeral_rec)
    then show False using assms by simp
  qed
  then have "scancode = take_bit 7 scancode"
    by (intro bit_word_eqI) (auto simp: bit_simps less_Suc_eq numeral_eq_Suc)
  then have "unat scancode = take_bit 7 (unat scancode)" by (metis unsigned_take_bit_eq)
  then show "unat scancode < 128" using take_bit_nat_less_exp [of 7 "unat scancode"] by simp
qed

lemma table_read:
  fixes scancode :: u8
  assumes "scancode AND 0x80 = 0"
  shows "buf_read SCANCODE_TO_ASCII (uint scancode) = Inr (SCANCODE_TO_ASCII ! unat scancode) \<and>
    table_char (SCANCODE_TO_ASCII ! unat scancode)"
proof -
  have i: "unat scancode < length SCANCODE_TO_ASCII" using scancode_less [OF assms] by (simp add: length_table)
  then show ?thesis
    using buf_read_unat [OF i] table_chars by (auto simp: list_all_length)
qed

section \<open>What a key produces\<close>

lemma shifted_char_range:
  assumes "table_char c" "c \<noteq> 0"
  shows "0x20 \<le> shifted_char k c" "shifted_char k c \<le> 0x7A"
proof -
  have c: "32 \<le> uint c" "uint c \<le> 0x7A" using assms by (auto simp: table_char_def word_le_def)
  have sub: "uint (c - 32) = uint c - 32" if "0x61 \<le> c" using that c by (simp add: word_le_def uint_word_ariths)
  show "0x20 \<le> shifted_char k c" "shifted_char k c \<le> 0x7A"
    using assms c sub by (auto simp: shifted_char_def Let_def table_char_def word_le_def)
qed

lemma handle_scancode_cases:
  "\<exists>c k'. handle_scancode scancode k = Inr (c, k') \<and> (scancode \<noteq> 0x1D \<longrightarrow> \<not> kb_ctrl k \<longrightarrow> \<not> kb_ctrl k') \<and>
     (\<not> kb_ctrl k \<longrightarrow> (\<forall>ch. c = Some ch \<longrightarrow> 0x20 \<le> ch \<and> ch \<le> 0x7A))"
proof (cases "modifier_key scancode k")
  case (Some k')
  then show ?thesis
    by (intro exI [of _ None] exI [of _ k']) (auto simp: handle_scancode_def modifier_key_def split: if_splits)
next
  case None
  show ?thesis
  proof (cases "scancode AND 0x80 = 0")
    case True
    then obtain a where a: "buf_read SCANCODE_TO_ASCII (uint scancode) = Inr a" "table_char a"
      using table_read by blast
    then show ?thesis
      using None True shifted_char_range [OF a(2), of k] by (auto simp: handle_scancode_def Let_def)
  qed (use None in \<open>simp add: handle_scancode_def\<close>)
qed

lemma letter_key:
  assumes "modifier_key scancode k = None" "scancode AND 0x80 = 0" "\<not> kb_ctrl k"
    and "buf_read SCANCODE_TO_ASCII (uint scancode) = Inr c" "0x61 \<le> c" "c \<le> 0x7A"
  shows "handle_scancode scancode k = Inr (Some (if kb_shift k \<noteq> kb_caps k then c - 32 else c), k)"
proof -
  have "c \<noteq> 0" using assms(5) by auto
  then show ?thesis using assms by (auto simp: handle_scancode_def shifted_char_def Let_def)
qed

text \<open>The control characters, from the positions of the letters in the table.\<close>

lemma table_positions:
  "list_all (\<lambda>i. let c = SCANCODE_TO_ASCII ! i in c \<noteq> 0x7B \<and> (c = 0x6A \<longleftrightarrow> i = 0x24) \<and> (c = 0x68 \<longleftrightarrow> i = 0x23) \<and>
     (i \<in> {0x1C, 0x0E} \<longrightarrow> c = 0)) [0..<128]"
  by code_simp

lemma shifted_char_lower:
  assumes "table_char a" "l \<in> {0x68, 0x6A}"
  shows "shifted_char k a = l \<longleftrightarrow> a = l \<and> kb_shift k = kb_caps k"
  using assms by (auto simp: shifted_char_def Let_def table_char_def diff_eq_eq)

lemma table_scancode:
  fixes scancode :: u8
  assumes "scancode AND 0x80 = 0"
  obtains a where "buf_read SCANCODE_TO_ASCII (uint scancode) = Inr a" "table_char a"
    "a \<noteq> 0x7B" "a = 0x6A \<longleftrightarrow> scancode = 0x24" "a = 0x68 \<longleftrightarrow> scancode = 0x23" "scancode \<in> {0x1C, 0x0E} \<longrightarrow> a = 0"
proof -
  show ?thesis
    using scancode_less [OF assms] table_positions that [of "SCANCODE_TO_ASCII ! unat scancode"] table_read [OF assms]
    by (auto simp: list_all_iff Let_def word_unat_eq_iff [of scancode])
qed

lemma control_keys:
  assumes "handle_scancode scancode k = Inr (c, k')"
  shows "c \<noteq> Some 0x1B \<and>
    (c = Some 10 \<longleftrightarrow> scancode = 0x24 \<and> kb_ctrl k \<and> kb_shift k = kb_caps k) \<and>
    (c = Some 8 \<longleftrightarrow> scancode = 0x23 \<and> kb_ctrl k \<and> kb_shift k = kb_caps k) \<and>
    (scancode \<in> {0x1C, 0x0E} \<longrightarrow> c = None)"
proof (cases "modifier_key scancode k = None \<and> scancode AND 0x80 = 0")
  case True
  then obtain a where a: "buf_read SCANCODE_TO_ASCII (uint scancode) = Inr a" "table_char a"
    "a = 0x6A \<longleftrightarrow> scancode = 0x24" "a = 0x68 \<longleftrightarrow> scancode = 0x23" "scancode \<in> {0x1C, 0x0E} \<longrightarrow> a = 0"
    using table_scancode by metis
  let ?d = "shifted_char k a"
  have c: "c = (if a = 0 then None else Some (if kb_ctrl k \<and> ?d \<ge> 0x60 then ?d - 0x60 else ?d))"
    using assms True a(1) by (auto simp: handle_scancode_def Let_def split: if_splits)
  show ?thesis
  proof (cases "a = 0")
    case False
    have r: "0x20 \<le> ?d" "?d \<le> 0x7A" using shifted_char_range [OF a(2) False] by auto
    then have n: "?d \<noteq> 0x7B" "?d \<noteq> 0x1B" "?d \<noteq> 10" "?d \<noteq> 8" by auto
    have "scancode \<notin> {0x1C, 0x0E}" using a(5) False by auto
    then show ?thesis
      using n a(3,4) shifted_char_lower [OF a(2), of "0x6A" k] shifted_char_lower [OF a(2), of "0x68" k] False
      by (auto simp: c diff_eq_eq)
  qed (use a c in auto)
next
  case False
  then have "c = None" using assms by (auto simp: handle_scancode_def split: option.splits)
  moreover have "scancode \<notin> {0x24, 0x23}" using False by (auto simp: modifier_key_def)
  ultimately show ?thesis by auto
qed

section \<open>Properties\<close>

text \<open>
  C30. Every scan code is handled: \<open>handle_scancode\<close> never reads outside its table, and
  unless Ctrl is held the character it delivers, if any, is printable.
\<close>

theorem keyboard_total:
  "\<exists>c k'. handle_scancode scancode k = Inr (c, k') \<and> (kb_ctrl k \<or> pred_option (\<lambda>ch. 0x20 \<le> ch \<and> ch \<le> 0x7A) c)"
  using handle_scancode_cases [of scancode k] by (auto simp: option.pred_set)

text \<open>
  Shift and Caps Lock cancel out: a letter key without Ctrl delivers the capital letter
  exactly when one of the two is active, and leaves the modifiers alone.
\<close>

theorem keyboard_letter_case:
  assumes "modifier_key scancode k = None" "scancode AND 0x80 = 0" "\<not> kb_ctrl k"
    and "buf_read SCANCODE_TO_ASCII (uint scancode) = Inr c" "0x61 \<le> c" "c \<le> 0x7A"
  shows "handle_scancode scancode k = Inr (Some (if kb_shift k \<noteq> kb_caps k then c - 32 else c), k)"
  using assms by (rule letter_key)

theorem keyboard_letter_case_witness:
  "handle_scancode 0x10 (keyboard_new\<lparr>kb_caps := True\<rparr>) =
     Inr (Some (if kb_shift (keyboard_new\<lparr>kb_caps := True\<rparr>) \<noteq> kb_caps (keyboard_new\<lparr>kb_caps := True\<rparr>)
                then 0x71 - 32 else 0x71), keyboard_new\<lparr>kb_caps := True\<rparr>)"
  by (rule keyboard_letter_case)
    (simp_all add: modifier_key_def keyboard_new_def buf_read_def SCANCODE_TO_ASCII_def)

text \<open>
  C31. The control characters the keyboard can produce. Whatever the modifiers are, no key
  delivers the escape character, so that no key starts an escape sequence; a newline is
  delivered exactly for Ctrl with the J key (scan code 0x24) and a backspace exactly for Ctrl
  with the H key (0x23), in both cases with Shift and Caps Lock cancelling out. In particular the Enter and Backspace keys (0x1C, 0x0E) deliver
  nothing.
\<close>

theorem keyboard_control_keys:
  assumes "handle_scancode scancode k = Inr (c, k')"
  shows "c \<noteq> Some 0x1B \<and>
    (c = Some 10 \<longleftrightarrow> scancode = 0x24 \<and> kb_ctrl k \<and> kb_shift k = kb_caps k) \<and>
    (c = Some 8 \<longleftrightarrow> scancode = 0x23 \<and> kb_ctrl k \<and> kb_shift k = kb_caps k) \<and>
    (scancode \<in> {0x1C, 0x0E} \<longrightarrow> c = None)"
  using control_keys [OF assms] .

theorem keyboard_control_keys_witness:
  "\<exists>k. handle_scancode 0x24 k = Inr (Some 10, k) \<and> kb_ctrl k \<and> kb_shift k = kb_caps k"
proof -
  let ?k = "keyboard_new\<lparr>kb_ctrl := True\<rparr>"
  have "handle_scancode 0x24 ?k = Inr (Some 10, ?k)"
    by (simp add: handle_scancode_def modifier_key_def buf_read_def SCANCODE_TO_ASCII_def shifted_char_def Let_def keyboard_new_def)
  with keyboard_control_keys [OF this] show ?thesis by blast
qed

end
