(* ===== verification/Scheduler.thy ===== *)
theory Scheduler
  imports Larch_Prelude
begin

text \<open>
  The round-robin scheduler, \<^verbatim>\<open>kernel/sched/scheduler.rs\<close>: a table of 256 processes and the
  index of the current one. A reference to a process in the table is its index; a pointer is its
  address.
\<close>

section \<open>State\<close>

datatype process_state = Ready | Running | Waiting | Terminated

record process =
  pr_pid :: u32
  pr_state :: process_state
  pr_stack_ptr :: u32
  pr_page_directory :: u32
  pr_next :: "u32 option"

record scheduler =
  sc_processes :: "process option list"
  sc_current :: nat
  sc_count :: nat

definition new_process :: "u32 \<Rightarrow> process" where
  "new_process n = \<lparr>pr_pid = n, pr_state = Ready, pr_stack_ptr = 0, pr_page_directory = 0,
     pr_next = None\<rparr>"

definition new_scheduler :: scheduler where
  "new_scheduler = \<lparr>sc_processes = replicate 256 None, sc_current = 0, sc_count = 0\<rparr>"

section \<open>Operations\<close>

definition add_process :: "process \<Rightarrow> scheduler \<Rightarrow> scheduler res" where
  "add_process p s =
     (if sc_count s < 256
      then bindR (buf_write (sc_processes s) (int (sc_count s)) (Some p)) (\<lambda>ps.
           Inr (s\<lparr>sc_processes := ps, sc_count := sc_count s + 1\<rparr>))
      else Inr s)"

definition can_run :: "process \<Rightarrow> bool" where
  "can_run p \<longleftrightarrow> pr_state p = Ready \<or> pr_state p = Running"

text \<open>
  The loop of \<open>next\<close>. An empty slot is skipped without the test that ends the loop, so the
  loop has a bound; it is enough when no slot below the count is empty.
\<close>

fun next_loop :: "nat \<Rightarrow> nat \<Rightarrow> scheduler \<Rightarrow> (nat option \<times> scheduler) res" where
  "next_loop 0 start s = Inl No_Fuel"
| "next_loop (Suc fuel) start s =
     (let c = (sc_current s + 1) mod sc_count s; s = s\<lparr>sc_current := c\<rparr> in
      bindR (buf_read (sc_processes s) (int c)) (\<lambda>slot.
      case slot of
        Some p \<Rightarrow> if can_run p then Inr (Some c, s)
                  else if c = start then Inr (None, s)
                  else next_loop fuel start s
      | None \<Rightarrow> next_loop fuel start s))"

definition sched_next :: "scheduler \<Rightarrow> (nat option \<times> scheduler) res" where
  "sched_next s = (if sc_count s = 0 then Inr (None, s) else next_loop (sc_count s) (sc_current s) s)"

definition current_mut :: "scheduler \<Rightarrow> nat option res" where
  "current_mut s = bindR (buf_read (sc_processes s) (int (sc_current s))) (\<lambda>slot.
     Inr (map_option (\<lambda>_. sc_current s) slot))"

definition current_pid :: "scheduler \<Rightarrow> u32 option res" where
  "current_pid s = bindR (buf_read (sc_processes s) (int (sc_current s))) (\<lambda>slot. Inr (map_option pr_pid slot))"

section \<open>Well-formed tables\<close>

definition sched_wf :: "scheduler \<Rightarrow> bool" where
  "sched_wf s \<longleftrightarrow> length (sc_processes s) = 256 \<and> sc_count s \<le> 256 \<and>
     (\<forall>i < sc_count s. sc_processes s ! i \<noteq> None) \<and> (sc_current s < sc_count s \<or> sc_count s = 0 \<and> sc_current s = 0)"

definition runnable :: "scheduler \<Rightarrow> nat \<Rightarrow> bool" where
  "runnable s i \<longleftrightarrow> i < sc_count s \<and> (case sc_processes s ! i of None \<Rightarrow> False | Some p \<Rightarrow> pr_state p \<in> {Ready, Running})"

lemma new_scheduler_wf: "sched_wf new_scheduler"
  by (simp add: sched_wf_def new_scheduler_def)

lemma runnable_current [simp]: "runnable (s\<lparr>sc_current := c\<rparr>) = runnable s"
  by (rule ext) (simp add: runnable_def)

lemma sched_wf_current: "sched_wf s \<Longrightarrow> c < sc_count s \<Longrightarrow> sched_wf (s\<lparr>sc_current := c\<rparr>)"
  by (auto simp: sched_wf_def)

text \<open>One round of the loop on a well-formed table.\<close>

lemma next_loop_step:
  assumes "sched_wf s" "0 < sc_count s"
  shows "next_loop (Suc fuel) start s =
    (let c = (sc_current s + 1) mod sc_count s; t = s\<lparr>sc_current := c\<rparr> in
     if runnable s c then Inr (Some c, t) else if c = start then Inr (None, t) else next_loop fuel start t)"
proof -
  let ?c = "(sc_current s + 1) mod sc_count s"
  have c: "?c < sc_count s" using assms(2) by simp
  then have "sc_processes s ! ?c \<noteq> None" using assms(1) unfolding sched_wf_def by blast
  then obtain p where p: "sc_processes s ! ?c = Some p" by blast
  have "sc_count s \<le> length (sc_processes s)" using assms(1) by (simp add: sched_wf_def)
  with c have "?c < length (sc_processes s)" by (rule less_le_trans)
  then have "buf_read (sc_processes s) (int ?c) = Inr (Some p)" using p by (simp add: buf_read_def)
  then show ?thesis using p c by (simp add: Let_def runnable_def can_run_def)
qed

text \<open>The loop visits the processes behind the current one in order, around the table.\<close>

lemma next_loop_finds:
  assumes "sched_wf s" "start < sc_count s" "sc_current s = (start + i) mod sc_count s" "i < sc_count s" "sc_count s - i \<le> fuel"
  shows "next_loop fuel start s =
    (case find (\<lambda>d. runnable s ((start + d) mod sc_count s)) [Suc i..<Suc (sc_count s)] of
       None \<Rightarrow> Inr (None, s\<lparr>sc_current := start\<rparr>)
     | Some d \<Rightarrow> Inr (Some ((start + d) mod sc_count s), s\<lparr>sc_current := (start + d) mod sc_count s\<rparr>))"
  using assms
proof (induction fuel arbitrary: s i)
  case (Suc fuel)
  let ?n = "sc_count s" and ?c = "(start + Suc i) mod sc_count s"
  have n: "0 < ?n" using Suc.prems(2) by simp
  have c: "(sc_current s + 1) mod ?n = ?c" using Suc.prems(3) by (simp add: mod_Suc_eq)
  have up: "[Suc i..<Suc ?n] = Suc i # [Suc (Suc i)..<Suc ?n]" using Suc.prems(4) by (simp add: upt_conv_Cons)
  note st = next_loop_step [OF Suc.prems(1) n, of fuel start, unfolded c Let_def]
  show ?case
  proof (cases "runnable s ?c")
    case True
    then show ?thesis unfolding st up by simp
  next
    case False
    show ?thesis
    proof (cases "Suc i = ?n")
      case True
      then have "?c = start" using Suc.prems(2) by simp
      moreover have "[Suc (Suc i)..<Suc ?n] = []" using True by simp
      ultimately show ?thesis unfolding st up using False by simp
    next
      case last: False
      then have i: "Suc i < ?n" using Suc.prems(4) by simp
      have ne: "?c \<noteq> start"
        using i Suc.prems(2) by (cases "start + Suc i < ?n") (simp_all add: le_mod_geq not_less)
      have "next_loop fuel start (s\<lparr>sc_current := ?c\<rparr>) =
        (case find (\<lambda>d. runnable s ((start + d) mod ?n)) [Suc (Suc i)..<Suc ?n] of
           None \<Rightarrow> Inr (None, s\<lparr>sc_current := start\<rparr>)
         | Some d \<Rightarrow> Inr (Some ((start + d) mod ?n), s\<lparr>sc_current := (start + d) mod ?n\<rparr>))"
        using Suc.IH [of "s\<lparr>sc_current := ?c\<rparr>" "Suc i"] Suc.prems i n sched_wf_current by (simp cong: option.case_cong)
      then show ?thesis unfolding st up using False ne by simp
    qed
  qed
qed simp

text \<open>The number of steps from the current process to process \<open>j\<close>, between one and the count.\<close>

definition turns :: "scheduler \<Rightarrow> nat \<Rightarrow> nat" where
  "turns s j = (if sc_current s < j then j - sc_current s else j + sc_count s - sc_current s)"

lemma turns_bounds:
  assumes "sc_current s < sc_count s" "j < sc_count s"
  shows "0 < turns s j" "turns s j \<le> sc_count s" "(sc_current s + turns s j) mod sc_count s = j"
  using assms by (auto simp: turns_def)

lemma sched_next_eq:
  assumes "sched_wf s" "0 < sc_count s"
  shows "sched_next s =
    (case find (\<lambda>d. runnable s ((sc_current s + d) mod sc_count s)) [1..<Suc (sc_count s)] of
       None \<Rightarrow> Inr (None, s)
     | Some d \<Rightarrow> Inr (Some ((sc_current s + d) mod sc_count s), s\<lparr>sc_current := (sc_current s + d) mod sc_count s\<rparr>))"
proof -
  have c: "sc_current s < sc_count s" using assms by (auto simp: sched_wf_def)
  have s: "s\<lparr>sc_current := sc_current s\<rparr> = s" by simp
  show ?thesis
    using assms(2) next_loop_finds [OF assms(1) c, of 0 "sc_count s", unfolded s] c
    by (simp add: sched_next_def One_nat_def)
qed

text \<open>A run that stops before a runnable process comes nearer to it.\<close>

lemma turns_step:
  assumes "sc_current s < sc_count s" "j < sc_count s" "0 < d" "d < turns s j"
  shows "turns (s\<lparr>sc_current := (sc_current s + d) mod sc_count s\<rparr>) j = turns s j - d"
proof (cases "sc_current s + d < sc_count s")
  case True
  then show ?thesis using assms by (auto simp: turns_def split: if_splits)
next
  case False
  then have "(sc_current s + d) mod sc_count s = sc_current s + d - sc_count s"
    using assms turns_bounds [OF assms(1,2)] by (simp add: le_mod_geq not_less)
  then show ?thesis using False assms by (auto simp: turns_def split: if_splits)
qed

primrec runs :: "nat \<Rightarrow> scheduler \<Rightarrow> (nat option \<times> scheduler) res" where
  "runs 0 s = sched_next s"
| "runs (Suc n) s = bindR (sched_next s) (\<lambda>(r, s). runs n s)"

lemma sched_next_first:
  assumes wf: "sched_wf s" and j: "runnable s j"
  shows "\<exists>d. 0 < d \<and> d \<le> turns s j \<and> d \<le> sc_count s \<and> runnable s ((sc_current s + d) mod sc_count s) \<and>
    (\<forall>e. 1 \<le> e \<and> e < d \<longrightarrow> \<not> runnable s ((sc_current s + e) mod sc_count s)) \<and>
    sched_next s = Inr (Some ((sc_current s + d) mod sc_count s), s\<lparr>sc_current := (sc_current s + d) mod sc_count s\<rparr>)"
proof -
  let ?P = "\<lambda>d. runnable s ((sc_current s + d) mod sc_count s)"
  have c: "sc_current s < sc_count s" "j < sc_count s" "0 < sc_count s"
    using assms by (auto simp: sched_wf_def runnable_def)
  note t = turns_bounds [OF c(1,2)]
  have "?P (turns s j)" using t(3) j by simp
  moreover have "turns s j \<in> set [1..<Suc (sc_count s)]" using t(1,2) by (simp del: upt_Suc)
  ultimately have "find ?P [1..<Suc (sc_count s)] \<noteq> None" unfolding find_None_iff by blast
  then obtain d where d: "find ?P [1..<Suc (sc_count s)] = Some d" by blast
  then obtain i where "i < length [1..<Suc (sc_count s)]" "?P ([1..<Suc (sc_count s)] ! i)"
    "d = [1..<Suc (sc_count s)] ! i" "\<forall>m < i. \<not> ?P ([1..<Suc (sc_count s)] ! m)"
    unfolding find_Some_iff by blast
  then have i: "i < sc_count s" "d = Suc i" "?P d" "\<forall>m < i. \<not> ?P (Suc m)"
    by (simp_all del: upt_Suc add: nth_upt)
  have "d \<le> turns s j"
  proof (rule ccontr)
    assume "\<not> d \<le> turns s j"
    then have "turns s j - 1 < i" using i(2) t(1) by simp
    then show False using i(4) \<open>?P (turns s j)\<close> t(1) by (metis Suc_diff_1)
  qed
  moreover have "\<forall>e. 1 \<le> e \<and> e < d \<longrightarrow> \<not> ?P e"
    using i(2,4) by (metis One_nat_def Suc_less_SucD Suc_le_D)
  moreover have "sched_next s = Inr (Some ((sc_current s + d) mod sc_count s), s\<lparr>sc_current := (sc_current s + d) mod sc_count s\<rparr>)"
    using sched_next_eq [OF wf c(3)] d by (simp del: upt_Suc)
  ultimately show ?thesis using i(1,2,3) by (intro exI [of _ d]) simp
qed

lemma runs_reaches:
  assumes "sched_wf s" "runnable s j" "turns s j \<le> Suc n"
  shows "\<exists>m \<le> n. runs m s = Inr (Some j, s\<lparr>sc_current := j\<rparr>)"
  using assms
proof (induction n arbitrary: s rule: less_induct)
  case (less n)
  have c: "sc_current s < sc_count s" "j < sc_count s" using less.prems by (auto simp: sched_wf_def runnable_def)
  note t = turns_bounds [OF c]
  obtain d where d: "0 < d" "d \<le> turns s j"
    "sched_next s = Inr (Some ((sc_current s + d) mod sc_count s), s\<lparr>sc_current := (sc_current s + d) mod sc_count s\<rparr>)"
    using sched_next_first [OF less.prems(1,2)] by blast
  show ?case
  proof (cases "d = turns s j")
    case True
    then have "runs 0 s = Inr (Some j, s\<lparr>sc_current := j\<rparr>)" using d(3) t(3) by simp
    then show ?thesis by blast
  next
    case False
    let ?s = "s\<lparr>sc_current := (sc_current s + d) mod sc_count s\<rparr>"
    have "turns ?s j = turns s j - d" using turns_step [OF c d(1)] d(2) False by simp
    moreover have "0 < n" using False d less.prems(3) by simp
    moreover have "sched_wf ?s" using less.prems(1) c by (intro sched_wf_current) auto
    moreover have "turns ?s j \<le> Suc (n - 1)" using calculation(1,2) d(1) less.prems(3) by linarith
    ultimately obtain m where "m \<le> n - 1" "runs m ?s = Inr (Some j, ?s\<lparr>sc_current := j\<rparr>)"
      using less.IH [of "n - 1" ?s] less.prems(2) by fastforce
    then have "runs (Suc m) s = Inr (Some j, s\<lparr>sc_current := j\<rparr>)" "Suc m \<le> n"
      using d(3) \<open>0 < n\<close> by simp_all
    then show ?thesis by blast
  qed
qed

section \<open>Correctness\<close>

text \<open>
  Adding a process keeps the table well formed: the first free slot gets the process, the
  others keep theirs, and a full table of 256 processes is left unchanged.
\<close>

theorem add_process_correct:
  assumes "sched_wf s"
  shows "\<exists>t. add_process p s = Inr t \<and> sched_wf t \<and>
    take (sc_count t) (sc_processes t) =
      take (sc_count s) (sc_processes s) @ (if sc_count s < 256 then [Some p] else []) \<and>
    sc_current t = sc_current s"
proof (cases "sc_count s < 256")
  case True
  have l: "length (sc_processes s) = 256" using assms by (simp add: sched_wf_def)
  let ?t = "s\<lparr>sc_processes := (sc_processes s)[sc_count s := Some p], sc_count := sc_count s + 1\<rparr>"
  have "add_process p s = Inr ?t" using True l by (simp add: add_process_def buf_write_def)
  moreover have "sched_wf ?t" using assms True by (auto simp: sched_wf_def nth_list_update less_Suc_eq)
  moreover have "take (sc_count ?t) (sc_processes ?t) = take (sc_count s) (sc_processes s) @ [Some p]"
    using True l by (simp add: take_Suc_conv_app_nth)
  ultimately show ?thesis using True by (intro exI [of _ ?t]) simp
next
  case False
  then show ?thesis using assms by (simp add: add_process_def)
qed

text \<open>
  \<open>next\<close> always returns: it selects the first process behind the current one, around the
  table and back to the current one itself, that is ready or running, and makes it current;
  when none is, it answers \<open>None\<close> and the scheduler is unchanged.
\<close>

theorem sched_next_round_robin:
  assumes "sched_wf s" "0 < sc_count s"
  shows "(\<exists>d. 1 \<le> d \<and> d \<le> sc_count s \<and> runnable s ((sc_current s + d) mod sc_count s) \<and>
        (\<forall>e. 1 \<le> e \<and> e < d \<longrightarrow> \<not> runnable s ((sc_current s + e) mod sc_count s)) \<and>
        sched_next s = Inr (Some ((sc_current s + d) mod sc_count s),
                            s\<lparr>sc_current := (sc_current s + d) mod sc_count s\<rparr>)) \<or>
    (\<forall>i. \<not> runnable s i) \<and> sched_next s = Inr (None, s)"
proof (cases "\<exists>j. runnable s j")
  case False
  then have "find (\<lambda>d. runnable s ((sc_current s + d) mod sc_count s)) [1..<Suc (sc_count s)] = None"
    unfolding find_None_iff by blast
  then show ?thesis using False sched_next_eq [OF assms] by (simp del: upt_Suc)
next
  case True
  then obtain j where "runnable s j" by blast
  from sched_next_first [OF assms(1) this] show ?thesis by fastforce
qed

text \<open>
  C23. No process starves: in a well-formed table every process that is ready or running is
  selected by one of the next \<open>count\<close> calls of \<open>next\<close>, whatever the state of the others.
\<close>

theorem scheduler_no_starvation:
  assumes "sched_wf s" "runnable s j"
  shows "\<exists>m < sc_count s. runs m s = Inr (Some j, s\<lparr>sc_current := j\<rparr>)"
proof -
  have c: "sc_current s < sc_count s" "j < sc_count s" using assms by (auto simp: sched_wf_def runnable_def)
  then have "turns s j \<le> Suc (sc_count s - 1)" using turns_bounds(2) [OF c] by simp
  then obtain m where "m \<le> sc_count s - 1" "runs m s = Inr (Some j, s\<lparr>sc_current := j\<rparr>)"
    using runs_reaches [OF assms] by blast
  moreover from this c have "m < sc_count s" by simp
  ultimately show ?thesis by blast
qed

section \<open>Witnesses\<close>

text \<open>Three processes, of which the second one waits and the third one is current.\<close>

definition demo_scheduler :: scheduler where
  "demo_scheduler = \<lparr>sc_processes =
     [Some (new_process 1), Some ((new_process 2)\<lparr>pr_state := Waiting\<rparr>), Some (new_process 3)] @ replicate 253 None,
     sc_current = 2, sc_count = 3\<rparr>"

lemma demo_scheduler_wf: "sched_wf demo_scheduler"
  by (auto simp: sched_wf_def demo_scheduler_def numeral_3_eq_3 less_Suc_eq)

lemma demo_scheduler_runnable: "runnable demo_scheduler 0" "sc_count demo_scheduler = 3"
  by (simp_all add: runnable_def demo_scheduler_def new_process_def)

theorem add_process_correct_witness:
  "\<exists>t. add_process (new_process 7) demo_scheduler = Inr t \<and> sc_count t = 4 \<and> sched_wf t \<and>
    take (sc_count t) (sc_processes t) = take 3 (sc_processes demo_scheduler) @ [Some (new_process 7)]"
  using add_process_correct [OF demo_scheduler_wf, of "new_process 7"]
  by (auto simp: demo_scheduler_runnable add_process_def buf_write_def demo_scheduler_def)

theorem sched_next_round_robin_witness:
  "sched_next demo_scheduler = Inr (Some 0, demo_scheduler\<lparr>sc_current := 0\<rparr>)"
proof -
  have d: "runnable demo_scheduler 0" "sc_count demo_scheduler = 3" "sc_current demo_scheduler = 2"
    by (simp_all add: demo_scheduler_runnable, simp add: demo_scheduler_def)
  from sched_next_round_robin [OF demo_scheduler_wf] d obtain k where
    k: "1 \<le> k" "\<forall>e. 1 \<le> e \<and> e < k \<longrightarrow> \<not> runnable demo_scheduler ((2 + e) mod 3)"
      "sched_next demo_scheduler = Inr (Some ((2 + k) mod 3), demo_scheduler\<lparr>sc_current := (2 + k) mod 3\<rparr>)"
    by auto
  have "\<not> 1 < k"
  proof
    assume "1 < k"
    with k(2) have "\<not> runnable demo_scheduler ((2 + 1) mod 3)" by blast
    with d(1) show False by simp
  qed
  with k(1) have "k = 1" by simp
  with k(3) show ?thesis by simp
qed

theorem scheduler_no_starvation_witness:
  "\<exists>m < 3. runs m demo_scheduler = Inr (Some 0, demo_scheduler\<lparr>sc_current := 0\<rparr>)"
  using scheduler_no_starvation [OF demo_scheduler_wf demo_scheduler_runnable(1)]
  by (simp add: demo_scheduler_runnable)

end
