(* ===== verification/Interrupts.thy ===== *)
theory Interrupts
  imports Timer
begin

text \<open>
  Interrupt dispatch, \<^verbatim>\<open>kernel/larch/interrupts.rs\<close>: a table of 256 optional handlers, the
  entry for exceptions, and the entry for hardware interrupts, which acknowledges them at
  the two interrupt controllers before it runs the handler. A handler takes the saved
  registers and the machine, and may change both.
\<close>

section \<open>State and operations\<close>

record registers =
  r_ds :: u32
  r_edi :: u32
  r_esi :: u32
  r_ebp :: u32
  r_esp :: u32
  r_ebx :: u32
  r_edx :: u32
  r_ecx :: u32
  r_eax :: u32
  r_int_no :: u32
  r_err_code :: u32
  r_eip :: u32
  r_cs :: u32
  r_eflags :: u32
  r_useresp :: u32
  r_ss :: u32

type_synonym 's handler = "registers \<Rightarrow> 's \<Rightarrow> (registers \<times> 's) res"
type_synonym 's handlers = "'s handler option list"

definition no_handlers :: "'s handlers" where
  "no_handlers = replicate 256 None"

definition set_handler :: "u8 \<Rightarrow> 's handler \<Rightarrow> 's handlers \<Rightarrow> 's handlers" where
  "set_handler int_no h hs = hs[unat int_no := Some h]"

definition isr_handler :: "'s handlers \<Rightarrow> 's handler" where
  "isr_handler hs regs s =
     (if unat (r_int_no regs) < length hs
      then case hs ! unat (r_int_no regs) of Some h \<Rightarrow> h regs s | None \<Rightarrow> Inr (regs, s)
      else Inl Panic)"

definition acknowledge :: "u32 \<Rightarrow> 'a io_state_scheme \<Rightarrow> 'a io_state_scheme" where
  "acknowledge int_no s = outb 0x20 0x20 (if 40 \<le> int_no then outb 0xA0 0x20 s else s)"

definition irq_handler :: "'a io_state_scheme handlers \<Rightarrow> 'a io_state_scheme handler" where
  "irq_handler hs regs s = isr_handler hs regs (acknowledge (r_int_no regs) s)"

definition enable_interrupts :: "'a io_state_scheme \<Rightarrow> 'a io_state_scheme" where
  "enable_interrupts = privileged Sti"

definition disable_interrupts :: "'a io_state_scheme \<Rightarrow> 'a io_state_scheme" where
  "disable_interrupts = privileged Cli"

section \<open>Dispatch\<close>

lemma no_handlers_length [simp]: "length no_handlers = 256"
  by (simp add: no_handlers_def)

lemma set_handler_length [simp]: "length (set_handler n h hs) = length hs"
  by (simp add: set_handler_def)

lemma unat_u8_less: "unat (n :: u8) < 256"
  using unsigned_less [of n] by simp

lemma unat_ucast_u8: "unat (ucast (n :: u8) :: u32) = unat n"
  using unat_u8_less [of n] by (simp add: unsigned_ucast_eq take_bit_nat_eq_self)

lemma isr_set_handler:
  assumes "length hs = 256"
  shows "isr_handler (set_handler n h hs) regs s =
    (if r_int_no regs = ucast n then h regs s else isr_handler hs regs s)"
proof -
  have n: "unat (r_int_no regs) = unat n \<longleftrightarrow> r_int_no regs = ucast n"
    by (simp only: word_unat_eq_iff [of "r_int_no regs"] unat_ucast_u8)
  have "unat n < length hs" using assms unat_u8_less [of n] by simp
  then show ?thesis
    unfolding isr_handler_def set_handler_def length_list_update n [symmetric]
    by (cases "unat (r_int_no regs) = unat n") simp_all
qed

section \<open>Properties\<close>

text \<open>
  Interrupts reach their handler, acknowledged: after \<open>set_handler n h\<close>, interrupt \<open>n\<close>
  runs \<open>h\<close> on a machine where the acknowledgement has been sent, to the second controller
  first and only for its lines 40 and above; every other interrupt is treated as before.
\<close>

theorem irq_dispatch:
  assumes "length hs = 256"
  shows "irq_handler (set_handler n h hs) regs s =
    (if r_int_no regs = ucast n
     then h regs (s\<lparr>io_log := io_log s @ (if 40 \<le> n then [Out 0xA0 0x20] else []) @ [Out 0x20 0x20]\<rparr>)
     else irq_handler hs regs s)"
proof (cases "r_int_no regs = ucast n")
  case True
  have "(40 :: u32) \<le> ucast n \<longleftrightarrow> 40 \<le> n" by (simp add: word_le_nat_alt unat_ucast_u8)
  then show ?thesis
    unfolding irq_handler_def isr_set_handler [OF assms] using True
    by (simp add: acknowledge_def outb_def)
qed (simp add: irq_handler_def isr_set_handler [OF assms])

text \<open>The registers of an interrupt 44, and a handler that answers in \<open>eax\<close>.\<close>

definition example_regs :: registers where
  "example_regs = \<lparr>r_ds = 0x10, r_edi = 0, r_esi = 0, r_ebp = 0, r_esp = 0x2FFFC0, r_ebx = 0, r_edx = 0, r_ecx = 0, r_eax = 0,
     r_int_no = 44, r_err_code = 0, r_eip = 0x100000, r_cs = 8, r_eflags = 0x202, r_useresp = 0, r_ss = 0x10\<rparr>"

definition example_handler :: "'s handler" where
  "example_handler regs s = Inr (regs\<lparr>r_eax := 7\<rparr>, s)"

theorem irq_dispatch_witness:
  "irq_handler (set_handler 44 example_handler no_handlers) example_regs machine_example =
    Inr (example_regs\<lparr>r_eax := 7\<rparr>, machine_example\<lparr>io_log := io_log machine_example @ [Out 0xA0 0x20] @ [Out 0x20 0x20]\<rparr>)"
  using irq_dispatch [of no_handlers 44 example_handler example_regs machine_example]
  by (simp add: example_regs_def example_handler_def)

text \<open>
  Without handlers interrupts are only acknowledged, and a number of 256 or more is a
  panic of the table access.
\<close>

theorem irq_unhandled:
  "irq_handler no_handlers regs s =
    (if r_int_no regs < 256 then Inr (regs, acknowledge (r_int_no regs) s) else Inl Panic)"
  by (simp add: irq_handler_def isr_handler_def word_less_nat_alt no_handlers_def)

end
