(* ===== verification/Context.thy ===== *)
theory Context
  imports Libc
begin

text \<open>
  The context switch, \<^verbatim>\<open>kernel/sched/context_switch.S\<close>: the only assembly routine that the
  scheduler needs. The instructions act on the general registers, the stack pointer, the
  instruction pointer and memory; the routine starts with the return address on top of
  the stack and the two pointers above it, as the C calling convention puts them.
\<close>

section \<open>Machine and instructions\<close>

record cpu =
  esp :: u32
  ebp :: u32
  ebx :: u32
  esi :: u32
  edi :: u32
  eax :: u32
  edx :: u32
  eip :: u32
  c_mem :: mem

definition push :: "u32 \<Rightarrow> cpu \<Rightarrow> cpu" where
  "push v s = s\<lparr>esp := esp s - 4, c_mem := write32 (esp s - 4) v (c_mem s)\<rparr>"

definition stack_top :: "cpu \<Rightarrow> u32" where
  "stack_top s = read32 (c_mem s) (esp s)"

definition drop_top :: "cpu \<Rightarrow> cpu" where
  "drop_top s = s\<lparr>esp := esp s + 4\<rparr>"

definition save_context :: "cpu \<Rightarrow> cpu" where
  "save_context s =
     (let s = s\<lparr>eax := read32 (c_mem s) (esp s + 4)\<rparr>;
          s = s\<lparr>edx := read32 (c_mem s) (esp s + 8)\<rparr>;
          s = push (ebp s) s;
          s = push (ebx s) s;
          s = push (esi s) s;
          s = push (edi s) s in
      s\<lparr>c_mem := write32 (eax s) (esp s) (c_mem s)\<rparr>)"

definition restore_context :: "cpu \<Rightarrow> cpu" where
  "restore_context s =
     (let s = s\<lparr>esp := read32 (c_mem s) (edx s)\<rparr>;
          s = drop_top (s\<lparr>edi := stack_top s\<rparr>);
          s = drop_top (s\<lparr>esi := stack_top s\<rparr>);
          s = drop_top (s\<lparr>ebx := stack_top s\<rparr>);
          s = drop_top (s\<lparr>ebp := stack_top s\<rparr>) in
      drop_top (s\<lparr>eip := stack_top s\<rparr>))"

definition switch_context :: "cpu \<Rightarrow> cpu" where
  "switch_context s = restore_context (save_context s)"

section \<open>The saved frame\<close>

text \<open>The arguments of the call, the frame it saves, and the memory it may write.\<close>

definition old_arg :: "cpu \<Rightarrow> u32" where "old_arg s = read32 (c_mem s) (esp s + 4)"
definition new_arg :: "cpu \<Rightarrow> u32" where "new_arg s = read32 (c_mem s) (esp s + 8)"

definition written :: "cpu \<Rightarrow> u32 set" where
  "written s = block (esp s - 16) 16 \<union> block (old_arg s) 4"

text \<open>What a process needs in order to continue: its slot and its five words of stack.\<close>

definition frame :: "u32 \<Rightarrow> u32 \<Rightarrow> u32 set" where
  "frame p sp = block p 4 \<union> block sp 20"

definition suspended :: "mem \<Rightarrow> u32 \<Rightarrow> cpu \<Rightarrow> bool" where
  "suspended m p s \<longleftrightarrow> read32 m p = esp s - 16 \<and>
     read32 m (esp s - 16) = edi s \<and> read32 m (esp s - 12) = esi s \<and> read32 m (esp s - 8) = ebx s \<and>
     read32 m (esp s - 4) = ebp s \<and> read32 m (esp s) = read32 (c_mem s) (esp s)"

lemma slots_disjoint:
  assumes "i \<noteq> j" "i < 100" "j < 100"
  shows "block (f + of_nat (4 * i)) 4 \<inter> block (f + of_nat (4 * j)) 4 = {}"
proof -
  have "f + of_nat (4 * i) + of_nat a \<noteq> f + of_nat (4 * j) + of_nat b" if "a < 4" "b < 4" for a b
  proof
    assume "f + of_nat (4 * i) + of_nat a = f + of_nat (4 * j) + of_nat b"
    then have "(of_nat (4 * i + a) :: u32) = of_nat (4 * j + b)" by simp
    then have "4 * i + a = 4 * j + b" using that assms(2,3) by (intro of_nat_inj_u32) simp_all
    then show False using that assms(1) by presburger
  qed
  then show ?thesis by (auto simp: block_def)
qed

lemma block_sub: "i + 4 \<le> n \<Longrightarrow> block (f + of_nat i) 4 \<subseteq> block f n"
proof
  fix x assume n: "i + 4 \<le> n" and "x \<in> block (f + of_nat i) 4"
  then obtain k where "k < 4" "x = f + of_nat i + of_nat k" by (auto simp: block_def)
  then show "x \<in> block f n" using nth_in_block [of "i + k" n f] n by (simp add: add.assoc)
qed

lemma save_context_mem:
  "c_mem (save_context s) = (let f = esp s - 16 in
     write32 (old_arg s) f (write32 f (edi s) (write32 (f + 4) (esi s) (write32 (f + 8) (ebx s) (write32 (f + 12) (ebp s) (c_mem s))))))"
  "edx (save_context s) = new_arg s"
  by (simp_all add: save_context_def push_def Let_def old_arg_def new_arg_def)

lemma save_context_frame: "x \<notin> written s \<Longrightarrow> c_mem (save_context s) x = c_mem s x"
proof -
  assume x: "x \<notin> written s"
  let ?f = "esp s - 16"
  have "x \<notin> block (?f + of_nat i) 4" if "i + 4 \<le> 16" for i
    using x block_sub [OF that, of ?f] by (auto simp: written_def)
  from this [of 0] this [of 4] this [of 8] this [of 12] show ?thesis
    using x by (simp add: save_context_mem Let_def written_def write32_frame)
qed

lemma save_context_suspends:
  assumes "block (old_arg s) 4 \<inter> block (esp s - 16) 20 = {}"
  shows "suspended (c_mem (save_context s)) (old_arg s) s"
proof -
  let ?f = "esp s - 16"
  have o: "block (old_arg s) 4 \<inter> block (?f + of_nat i) 4 = {}" if "i + 4 \<le> 20" for i
    using assms block_sub [OF that, of ?f] by blast
  note o = o [of 0, simplified] o [of 4, simplified] o [of 8, simplified] o [of 12, simplified] o [of 16, simplified]
  have d: "block (?f + of_nat (4 * i)) 4 \<inter> block (?f + of_nat (4 * j)) 4 = {}" if "i \<noteq> j" "i < 5" "j < 5" for i j
    using that by (intro slots_disjoint) simp_all
  have d: "block ?f 4 \<inter> block (?f + 4) 4 = {}" "block ?f 4 \<inter> block (?f + 8) 4 = {}" "block ?f 4 \<inter> block (?f + 12) 4 = {}"
    "block ?f 4 \<inter> block (?f + 16) 4 = {}" "block (?f + 4) 4 \<inter> block (?f + 8) 4 = {}" "block (?f + 4) 4 \<inter> block (?f + 12) 4 = {}"
    "block (?f + 4) 4 \<inter> block (?f + 16) 4 = {}" "block (?f + 8) 4 \<inter> block (?f + 12) 4 = {}"
    "block (?f + 8) 4 \<inter> block (?f + 16) 4 = {}" "block (?f + 12) 4 \<inter> block (?f + 16) 4 = {}"
    using d [of 0 1] d [of 0 2] d [of 0 3] d [of 0 4] d [of 1 2] d [of 1 3] d [of 1 4] d [of 2 3] d [of 2 4] d [of 3 4]
    by simp_all
  define f where "f = ?f"
  have e: "esp s - 12 = f + 4" "esp s - 8 = f + 8" "esp s - 4 = f + 12" "esp s = f + 16" "esp s - 16 = f"
    by (simp_all add: f_def)
  show ?thesis
    unfolding suspended_def save_context_mem Let_def e(1,2,3,5) unfolding e(4)
    using o [unfolded e(1,2,3,5), unfolded e(4)] d [folded f_def] by (simp add: read32_write32_other Int_commute)
qed

text \<open>Restoring reads the five words of the frame and nothing else.\<close>

lemma restore_context_resumes:
  assumes "suspended (c_mem u) (edx u) s"
  shows "esp (restore_context u) = esp s + 4" "ebp (restore_context u) = ebp s" "ebx (restore_context u) = ebx s"
    "esi (restore_context u) = esi s" "edi (restore_context u) = edi s" "eip (restore_context u) = read32 (c_mem s) (esp s)"
    "c_mem (restore_context u) = c_mem u"
  using assms by (simp_all add: suspended_def restore_context_def Let_def drop_top_def stack_top_def add.commute)

lemma suspended_cong:
  assumes "suspended m p s" "\<And>x. x \<in> frame p (esp s - 16) \<Longrightarrow> m' x = m x"
  shows "suspended m' p s"
proof -
  have "read32 m' p = read32 m p" by (rule read32_cong) (use assms(2) in \<open>simp add: frame_def\<close>)
  moreover have "read32 m' (esp s - 16 + of_nat i) = read32 m (esp s - 16 + of_nat i)" if "i + 4 \<le> 20" for i
    by (rule read32_cong) (use assms(2) block_sub [OF that, of "esp s - 16"] in \<open>auto simp: frame_def\<close>)
  from this [of 0] this [of 4] this [of 8] this [of 12] this [of 16] have
    "read32 m' (esp s - 16) = read32 m (esp s - 16)" "read32 m' (esp s - 12) = read32 m (esp s - 12)"
    "read32 m' (esp s - 8) = read32 m (esp s - 8)" "read32 m' (esp s - 4) = read32 m (esp s - 4)"
    "read32 m' (esp s) = read32 m (esp s)" by simp_all
  ultimately show ?thesis using assms(1) by (simp add: suspended_def)
qed

section \<open>Properties\<close>

text \<open>
  C24. A process that is switched away continues where it was: after \<open>switch_context\<close> from
  process \<open>old\<close>, whenever memory still holds its slot and its stack frame, switching to it
  from any other process brings back its four registers, its stack pointer and its return
  address.
\<close>

theorem switch_context_resumes:
  assumes "block (old_arg s) 4 \<inter> block (esp s - 16) 20 = {}"
    and "\<forall>x \<in> frame (old_arg s) (esp s - 16). c_mem t x = c_mem (switch_context s) x"
    and "new_arg t = old_arg s" "written t \<inter> frame (old_arg s) (esp s - 16) = {}"
  shows "esp (switch_context t) = esp s + 4 \<and> ebp (switch_context t) = ebp s \<and> ebx (switch_context t) = ebx s \<and>
    esi (switch_context t) = esi s \<and> edi (switch_context t) = edi s \<and>
    eip (switch_context t) = read32 (c_mem s) (esp s)"
proof -
  have sw: "c_mem (switch_context s) = c_mem (save_context s)"
    by (simp add: switch_context_def restore_context_def Let_def drop_top_def)
  have "suspended (c_mem (save_context s)) (old_arg s) s" using assms(1) by (rule save_context_suspends)
  then have "suspended (c_mem (save_context t)) (old_arg s) s"
  proof (rule suspended_cong)
    fix x assume x: "x \<in> frame (old_arg s) (esp s - 16)"
    then have "c_mem (save_context t) x = c_mem t x" using assms(4) by (intro save_context_frame) blast
    then show "c_mem (save_context t) x = c_mem (save_context s) x" using x assms(2) sw by simp
  qed
  then have "suspended (c_mem (save_context t)) (edx (save_context t)) s" using assms(3) by (simp add: save_context_mem)
  from restore_context_resumes [OF this] show ?thesis by (simp add: switch_context_def)
qed

lemma block_disjoint:
  assumes "unat a + n \<le> unat b" "unat b + k \<le> 2 ^ 32"
  shows "block a n \<inter> block b k = {}" "block b k \<inter> block a n = {}"
proof -
  have "a + of_nat i \<noteq> b + of_nat j" if "i < n" "j < k" for i j
  proof
    assume "a + of_nat i = b + of_nat j"
    then have "(of_nat (unat a + i) :: u32) = of_nat (unat b + j)" by simp
    then have "unat a + i = unat b + j" using that assms by (intro of_nat_inj_u32) linarith+
    then show False using that assms by linarith
  qed
  then show "block a n \<inter> block b k = {}" "block b k \<inter> block a n = {}" by (force simp: block_def)+
qed

text \<open>
  Two processes with slots at 0x100000 and 0x200000: the first calls the switch with its
  stack pointer at 0x8000, the second switches back with its stack pointer at 0x9000.
\<close>

definition first_cpu :: cpu where
  "first_cpu = \<lparr>esp = 0x8000, ebp = 1, ebx = 2, esi = 3, edi = 4, eax = 0, edx = 0, eip = 0,
     c_mem = write32 0x8000 0x1234 (write32 0x8004 0x100000 (write32 0x8008 0x200000 (\<lambda>_. 0)))\<rparr>"

definition second_cpu :: cpu where
  "second_cpu = \<lparr>esp = 0x9000, ebp = 0, ebx = 0, esi = 0, edi = 0, eax = 0, edx = 0, eip = 0,
     c_mem = write32 0x9004 0x200000 (write32 0x9008 0x100000 (c_mem (switch_context first_cpu)))\<rparr>"

lemma first_cpu_args: "old_arg first_cpu = 0x100000" "esp first_cpu = 0x8000" "read32 (c_mem first_cpu) 0x8000 = 0x1234"
  by (simp_all add: old_arg_def first_cpu_def read32_write32_other block_disjoint)

lemma second_cpu_args: "old_arg second_cpu = 0x200000" "new_arg second_cpu = 0x100000" "esp second_cpu = 0x9000"
  by (simp_all add: old_arg_def new_arg_def second_cpu_def read32_write32_other block_disjoint)

theorem switch_context_resumes_witness:
  "esp (switch_context second_cpu) = 0x8004 \<and> ebp (switch_context second_cpu) = 1 \<and> ebx (switch_context second_cpu) = 2 \<and>
   esi (switch_context second_cpu) = 3 \<and> edi (switch_context second_cpu) = 4 \<and> eip (switch_context second_cpu) = 0x1234"
proof -
  have fr: "block 0x9004 4 \<inter> frame 0x100000 0x7FF0 = {}" "block 0x9008 4 \<inter> frame 0x100000 0x7FF0 = {}"
    by (simp_all add: frame_def Int_Un_distrib block_disjoint)
  have "c_mem second_cpu x = c_mem (switch_context first_cpu) x" if "x \<in> frame 0x100000 0x7FF0" for x
  proof -
    have "x \<notin> block 0x9004 4" "x \<notin> block 0x9008 4" using that fr by blast+
    then show ?thesis by (simp add: second_cpu_def write32_frame)
  qed
  moreover have "written second_cpu \<inter> frame 0x100000 0x7FF0 = {}"
    by (simp add: written_def frame_def second_cpu_args Int_Un_distrib Int_Un_distrib2 block_disjoint)
  ultimately show ?thesis
    using switch_context_resumes [of first_cpu second_cpu]
    by (simp add: first_cpu_args second_cpu_args block_disjoint) (simp add: first_cpu_def)
qed

end
