(* ===== verification/Heap.thy ===== *)
theory Heap
  imports Libc
begin

text \<open>
  The two heaps of the Rust side: the bump allocator of \<^verbatim>\<open>kernel/mem/allocator.rs\<close> and the
  block list of \<^verbatim>\<open>kernel/mem/slab_allocator.rs\<close>. Address arithmetic is 32-bit and wraps
  around, as in the release build. The compiler chooses the layout of a block header, so
  the headers are a function of their address; a header takes \<open>size_of::<SlabBlock>()\<close>,
  twelve bytes on this target. That is the memory of the program as long as headers do
  not overlap, which the well-formedness of the list demands and allocating keeps.
\<close>

section \<open>The bump allocator\<close>

record bump =
  heap_start :: u32
  heap_end :: u32
  bump_next :: u32

definition bump_new :: bump where
  "bump_new = \<lparr>heap_start = 0, heap_end = 0, bump_next = 0\<rparr>"

definition bump_init :: "u32 \<Rightarrow> u32 \<Rightarrow> bump \<Rightarrow> bump" where
  "bump_init start sz b = b\<lparr>heap_start := start, heap_end := start + sz, bump_next := start\<rparr>"

definition bump_alloc :: "u32 \<Rightarrow> u32 \<Rightarrow> bump \<Rightarrow> u32 \<times> bump" where
  "bump_alloc sz align b =
     (let align_mask = align - 1;
          current = (bump_next b + align_mask) AND NOT align_mask in
      if current + sz > heap_end b then (0, b)
      else (current, b\<lparr>bump_next := current + sz\<rparr>))"

definition bump_dealloc :: "u32 \<Rightarrow> u32 \<Rightarrow> bump \<Rightarrow> bump" where
  "bump_dealloc p sz b = b"

text \<open>
  The wrappers of \<^verbatim>\<open>lib/libcrust/bridge.rs\<close>: \<open>Layout::from_size_align\<close> refuses a size above
  \<open>isize::MAX\<close>, and the global allocator is the bump allocator.
\<close>

definition rust_allocate :: "u32 \<Rightarrow> bump \<Rightarrow> (u32 \<times> bump) res" where
  "rust_allocate sz b = (if sz \<le> 0x7FFFFFFF then Inr (bump_alloc sz 1 b) else Inl Panic)"

definition rust_deallocate :: "u32 \<Rightarrow> u32 \<Rightarrow> bump \<Rightarrow> bump res" where
  "rust_deallocate p sz b = (if sz \<le> 0x7FFFFFFF then Inr (bump_dealloc p sz b) else Inl Panic)"

text \<open>Rounding up to a multiple of a power of two.\<close>

lemma mask_not_word: "x AND NOT (mask k) = push_bit k (drop_bit k x)" for x :: "'a::len word"
  by (rule bit_word_eqI) (auto simp: bit_simps)

lemma round_down:
  fixes x :: u32
  assumes "k < 32"
  shows "unat (x AND NOT (2 ^ k - 1)) = 2 ^ k * (unat x div 2 ^ k)"
proof -
  have "2 ^ k - 1 = (mask k :: u32)" by (simp add: mask_eq_exp_minus_1)
  then have "x AND NOT (2 ^ k - 1) = push_bit k (drop_bit k x)" by (simp only: mask_not_word)
  moreover have "unat (push_bit k (drop_bit k x)) = take_bit 32 (push_bit k (drop_bit k (unat x)))"
    using unat_u32_less [of x]
    by (simp add: unsigned_push_bit_eq unsigned_drop_bit_eq take_bit_push_bit take_bit_nat_eq_self)
  moreover have "push_bit k (drop_bit k (unat x)) \<le> unat x" by (simp add: push_bit_eq_mult drop_bit_eq_div)
  then have "push_bit k (drop_bit k (unat x)) < 2 ^ 32" using unat_u32_less [of x] by linarith
  ultimately show ?thesis by (simp add: take_bit_nat_eq_self push_bit_eq_mult drop_bit_eq_div mult.commute)
qed

definition round_up :: "nat \<Rightarrow> nat \<Rightarrow> nat" where
  "round_up k n = 2 ^ k * ((n + 2 ^ k - 1) div 2 ^ k)"

lemma round_up_bounds: "n \<le> round_up k n" "round_up k n < n + 2 ^ k" "2 ^ k dvd round_up k n"
proof -
  let ?m = "(n + 2 ^ k - 1) mod 2 ^ k"
  have "round_up k n + ?m = n + 2 ^ k - 1" by (simp add: round_up_def)
  moreover have "?m < 2 ^ k" by simp
  ultimately show "n \<le> round_up k n" "round_up k n < n + 2 ^ k" by linarith+
qed (simp add: round_up_def)

text \<open>
  The allocator is consistent if its three addresses are in order; a request fits the
  address space if rounding and adding its size stay below \<open>2 ^ 32\<close>.
\<close>

definition bump_wf :: "bump \<Rightarrow> bool" where
  "bump_wf b \<longleftrightarrow> heap_start b \<le> bump_next b \<and> bump_next b \<le> heap_end b"

lemma bump_alloc_eq:
  assumes "k < 32" "unat (bump_next b) + unat sz + 2 ^ k < 2 ^ 32"
  shows "bump_alloc sz (2 ^ k) b =
    (let c = round_up k (unat (bump_next b)) in
     if unat (heap_end b) < c + unat sz then (0, b)
     else (of_nat c, b\<lparr>bump_next := of_nat (c + unat sz)\<rparr>))"
proof -
  let ?n = "unat (bump_next b)"
  have p: "unat (2 ^ k - 1 :: u32) = 2 ^ k - 1"
  proof -
    have "2 ^ k - 1 = (of_nat (2 ^ k - 1) :: u32)" by (simp add: of_nat_diff)
    moreover have "2 ^ k - 1 < (2::nat) ^ 32" using assms(2) by linarith
    ultimately show ?thesis by (simp only: unat_of_nat_u32)
  qed
  have "?n + 2 ^ k - 1 < 2 ^ 32" using assms(2) by linarith
  then have "unat (bump_next b + (2 ^ k - 1)) = ?n + 2 ^ k - 1"
    using p unat_add_lem [of "bump_next b" "2 ^ k - 1"] by simp
  then have c: "unat ((bump_next b + (2 ^ k - 1)) AND NOT (2 ^ k - 1)) = round_up k ?n"
    using round_down [OF assms(1)] by (simp add: round_up_def)
  have "round_up k ?n + unat sz < 2 ^ 32" using round_up_bounds(2) [of k ?n] assms(2) by linarith
  then have s: "unat (((bump_next b + (2 ^ k - 1)) AND NOT (2 ^ k - 1)) + sz) = round_up k ?n + unat sz"
    using c unat_add_lem [of "(bump_next b + (2 ^ k - 1)) AND NOT (2 ^ k - 1)" sz] by simp
  let ?w = "(bump_next b + (2 ^ k - 1)) AND NOT (2 ^ k - 1)"
  have w: "?w = of_nat (round_up k ?n)" "?w + sz = of_nat (round_up k ?n + unat sz)"
    unfolding c [symmetric] s [symmetric] by simp_all
  show ?thesis unfolding bump_alloc_def Let_def word_less_nat_alt s unfolding w(2) unfolding w(1) by (rule refl)
qed

text \<open>A successful request, in numbers.\<close>

lemma bump_alloc_some:
  assumes "bump_wf b" "k < 32" "unat (heap_end b) + unat sz + 2 ^ k < 2 ^ 32" "bump_alloc sz (2 ^ k) b = (p, b')" "p \<noteq> 0"
  shows "unat (bump_next b) \<le> unat p" "unat p + unat sz = unat (bump_next b')" "2 ^ k dvd unat p" "bump_wf b'"
    "heap_start b' = heap_start b" "heap_end b' = heap_end b"
proof -
  let ?c = "round_up k (unat (bump_next b))"
  have n: "unat (bump_next b) \<le> unat (heap_end b)" "unat (heap_start b) \<le> unat (bump_next b)"
    using assms(1) by (simp_all add: bump_wf_def word_le_nat_alt)
  then have f: "unat (bump_next b) + unat sz + 2 ^ k < 2 ^ 32" using assms(3) by linarith
  have r: "\<not> unat (heap_end b) < ?c + unat sz" "p = of_nat ?c" "b' = b\<lparr>bump_next := of_nat (?c + unat sz)\<rparr>"
    using assms(4,5) unfolding bump_alloc_eq [OF assms(2) f] Let_def by (auto split: if_splits)
  have l: "?c + unat sz < 2 ^ 32" using r(1) unat_u32_less [of "heap_end b"] by linarith
  then have "unat (of_nat (?c + unat sz) :: u32) = ?c + unat sz" "unat (of_nat ?c :: u32) = ?c"
    by (intro unat_of_nat_u32; linarith)+
  moreover have "bump_next b' = of_nat (?c + unat sz)" unfolding r(3) by simp
  ultimately have u: "unat p = ?c" "unat (bump_next b') = ?c + unat sz" using r(2) by (simp_all only:)
  show "unat (bump_next b) \<le> unat p" "unat p + unat sz = unat (bump_next b')" "2 ^ k dvd unat p"
    using u round_up_bounds [where k = k and n = "unat (bump_next b)"] by simp_all
  show "heap_start b' = heap_start b" "heap_end b' = heap_end b" using r(3) by simp_all
  show "bump_wf b'"
    using u n r(1,3) round_up_bounds(1) [of "unat (bump_next b)" k] by (simp add: bump_wf_def word_le_nat_alt)
qed

section \<open>The block list\<close>

record slab_block =
  sb_next :: u32
  sb_size :: u32
  sb_free :: bool

record slab =
  sl_head :: u32
  total_allocated :: u32
  total_freed :: u32
  sl_mem :: "u32 \<Rightarrow> slab_block"

abbreviation HDR :: u32 where "HDR \<equiv> 12"

definition slab_new :: "(u32 \<Rightarrow> slab_block) \<Rightarrow> slab" where
  "slab_new m = \<lparr>sl_head = 0, total_allocated = 0, total_freed = 0, sl_mem = m\<rparr>"

definition slab_init :: "u32 \<Rightarrow> u32 \<Rightarrow> slab \<Rightarrow> slab" where
  "slab_init start sz s =
     s\<lparr>sl_head := start, sl_mem := (sl_mem s)(start := \<lparr>sb_next = 0, sb_size = sz - HDR, sb_free = True\<rparr>)\<rparr>"

text \<open>Taking a block that is large enough: split off the rest if a header fits into it.\<close>

definition take_block :: "u32 \<Rightarrow> u32 \<Rightarrow> slab \<Rightarrow> slab" where
  "take_block current total_size s =
     (let b = sl_mem s current; remaining = current + total_size;
          m = (if sb_size b > total_size + HDR
               then (sl_mem s)(remaining := \<lparr>sb_next = sb_next b, sb_size = sb_size b - total_size, sb_free = True\<rparr>,
                               current := b\<lparr>sb_size := total_size, sb_next := remaining\<rparr>)
               else sl_mem s);
          m = m(current := (m current)\<lparr>sb_free := False\<rparr>) in
      s\<lparr>sl_mem := m, total_allocated := total_allocated s + sb_size (m current)\<rparr>)"

text \<open>The search and the merging loop; the bound is on the number of blocks.\<close>

fun alloc_walk :: "nat \<Rightarrow> u32 \<Rightarrow> u32 \<Rightarrow> slab \<Rightarrow> (u32 \<times> slab) res" where
  "alloc_walk 0 total_size current s = Inl No_Fuel"
| "alloc_walk (Suc fuel) total_size current s =
     (if current = 0 then Inr (0, s)
      else if sb_free (sl_mem s current) \<and> sb_size (sl_mem s current) \<ge> total_size
      then Inr (current + HDR, take_block current total_size s)
      else alloc_walk fuel total_size (sb_next (sl_mem s current)) s)"

definition slab_alloc :: "nat \<Rightarrow> u32 \<Rightarrow> u32 \<Rightarrow> slab \<Rightarrow> (u32 \<times> slab) res" where
  "slab_alloc fuel sz align s = alloc_walk fuel (sz + HDR) (sl_head s) s"

fun merge_walk :: "nat \<Rightarrow> u32 \<Rightarrow> slab \<Rightarrow> slab res" where
  "merge_walk 0 current s = Inl No_Fuel"
| "merge_walk (Suc fuel) current s =
     (if current = 0 then Inr s
      else let b = sl_mem s current; next = sb_next b;
               s = (if next \<noteq> 0 \<and> sb_free (sl_mem s next) \<and> sb_free b
                    then s\<lparr>sl_mem := (sl_mem s)(current :=
                           b\<lparr>sb_size := sb_size b + (sb_size (sl_mem s next) + HDR), sb_next := sb_next (sl_mem s next)\<rparr>)\<rparr>
                    else s) in
           merge_walk fuel (sb_next (sl_mem s current)) s)"

definition slab_dealloc :: "nat \<Rightarrow> u32 \<Rightarrow> u32 \<Rightarrow> slab \<Rightarrow> slab res" where
  "slab_dealloc fuel ptr sz s =
     (if ptr = 0 then Inr s
      else let block = ptr - HDR;
               m = (sl_mem s)(block := (sl_mem s block)\<lparr>sb_free := True\<rparr>);
               s = s\<lparr>sl_mem := m, total_freed := total_freed s + sb_size (m block)\<rparr> in
           merge_walk fuel (sl_head s) s)"

definition slab_stats :: "slab \<Rightarrow> u32 \<times> u32" where
  "slab_stats s = (total_allocated s, total_freed s)"

section \<open>Well-formed lists\<close>

text \<open>
  The list from \<open>a\<close> on consists of the blocks at the given addresses, in ascending order,
  and the size in each header, counted from the header on, is at least that of a header and stays below the next block and
  below the end of the heap: neither headers nor blocks overlap.
\<close>

fun blocks_at :: "(u32 \<Rightarrow> slab_block) \<Rightarrow> nat \<Rightarrow> u32 \<Rightarrow> u32 list \<Rightarrow> bool" where
  "blocks_at m e a [] \<longleftrightarrow> a = 0"
| "blocks_at m e a (x # xs) \<longleftrightarrow> a = x \<and> x \<noteq> 0 \<and> 12 \<le> unat (sb_size (m x)) \<and>
     (case xs of [] \<Rightarrow> unat x + unat (sb_size (m x)) \<le> e
      | y # ys \<Rightarrow> x < y \<and> unat x + unat (sb_size (m x)) \<le> unat y) \<and>
     blocks_at m e (sb_next (m x)) xs"

definition slab_wf :: "nat \<Rightarrow> u32 list \<Rightarrow> slab \<Rightarrow> bool" where
  "slab_wf e bs s \<longleftrightarrow> e < 2 ^ 32 \<and> blocks_at (sl_mem s) e (sl_head s) bs"

lemma blocks_at_above: "blocks_at m e a xs \<Longrightarrow> y \<in> set (tl xs) \<Longrightarrow> a < y"
proof (induction xs arbitrary: a)
  case (Cons x xs)
  then show ?case
  proof (cases xs)
    case (Cons z zs)
    then have "a < z" "blocks_at m e z xs" using Cons.prems by auto
    then show ?thesis using Cons.IH [of z] Cons.prems(2) Cons by auto
  qed simp
qed simp

lemma blocks_at_cong:
  "blocks_at m e a xs \<Longrightarrow> (\<And>x. x \<in> set xs \<Longrightarrow> m' x = m x) \<Longrightarrow> blocks_at m' e a xs"
  by (induction xs arbitrary: a) (auto split: list.splits)

lemma blocks_at_sizes: "blocks_at m e a xs \<Longrightarrow> x \<in> set xs \<Longrightarrow> x \<noteq> 0"
  by (induction xs arbitrary: a) auto

text \<open>The blocks before a given one stay as they are when it and the ones behind it change.\<close>

lemma blocks_at_change:
  assumes "blocks_at m e a (xs @ x # ys)" "blocks_at m' e x (x # zs)" "\<And>z. z \<in> set xs \<Longrightarrow> m' z = m z"
  shows "blocks_at m' e a (xs @ x # zs)"
  using assms
proof (induction xs arbitrary: a)
  case (Cons w ws)
  then show ?case by (cases ws) auto
qed simp

lemma blocks_at_suffix: "blocks_at m e a (xs @ x # ys) \<Longrightarrow> blocks_at m e x (x # ys)"
  by (induction xs arbitrary: a) auto

lemma blocks_at_before:
  "blocks_at m e a (xs @ x # ys) \<Longrightarrow> z \<in> set xs \<Longrightarrow> z < x \<and> unat z + unat (sb_size (m z)) \<le> unat x"
proof (induction xs arbitrary: a z)
  case (Cons w ws)
  note IH = Cons.IH and prems = Cons.prems
  show ?case
  proof (cases ws)
    case Nil
    then show ?thesis using prems by auto
  next
    case (Cons v vs)
    have r: "blocks_at m e v (ws @ x # ys)" "w < v" "unat w + unat (sb_size (m w)) \<le> unat v"
      using prems(1) Cons by auto
    have wz: "z \<in> set ws \<Longrightarrow> z < x \<and> unat z + unat (sb_size (m z)) \<le> unat x" for z
      by (rule IH [OF r(1)])
    then have "v < x" using Cons by simp
    then show ?thesis using prems(2) wz r(2,3) by (auto simp: word_less_nat_alt)
  qed
qed simp

lemma blocks_at_after:
  assumes "blocks_at m e a (xs @ x # ys)" "z \<in> set ys"
  shows "x < z \<and> unat x + unat (sb_size (m x)) \<le> unat z"
proof (cases ys)
  case (Cons y ys')
  have s: "blocks_at m e x (x # ys)" using assms(1) by (rule blocks_at_suffix)
  then have "x < y" "unat x + unat (sb_size (m x)) \<le> unat y" "blocks_at m e y ys" using Cons by auto
  moreover have "z = y \<or> y < z" using blocks_at_above [OF calculation(3), of z] assms(2) Cons by auto
  ultimately show ?thesis by (auto simp: word_less_nat_alt)
qed (use assms in simp)

section \<open>Allocation on a well-formed list\<close>

text \<open>The first block that is free and large enough.\<close>

definition fits :: "slab \<Rightarrow> u32 \<Rightarrow> u32 \<Rightarrow> bool" where
  "fits s total_size x \<longleftrightarrow> sb_free (sl_mem s x) \<and> sb_size (sl_mem s x) \<ge> total_size"

lemma alloc_walk_eq:
  assumes "blocks_at (sl_mem s) e a xs" "length xs < fuel"
  shows "alloc_walk fuel total_size a s =
    (case find (fits s total_size) xs of None \<Rightarrow> Inr (0, s) | Some x \<Rightarrow> Inr (x + HDR, take_block x total_size s))"
  using assms
proof (induction xs arbitrary: a fuel)
  case Nil
  then show ?case by (cases fuel) simp_all
next
  case (Cons x xs)
  then obtain f where f: "fuel = Suc f" "length xs < f" by (cases fuel) auto
  have "a = x" "x \<noteq> 0" "blocks_at (sl_mem s) e (sb_next (sl_mem s x)) xs" using Cons.prems(1) by auto
  then show ?case using Cons.IH [OF _ f(2)] f(1) by (simp add: fits_def)
qed

lemma take_block_mem:
  assumes "x + total_size \<noteq> x"
  shows "sl_mem (take_block x total_size s) =
    (if sb_size (sl_mem s x) > total_size + HDR
     then (sl_mem s)(x + total_size := \<lparr>sb_next = sb_next (sl_mem s x), sb_size = sb_size (sl_mem s x) - total_size, sb_free = True\<rparr>,
            x := \<lparr>sb_next = x + total_size, sb_size = total_size, sb_free = False\<rparr>)
     else (sl_mem s)(x := (sl_mem s x)\<lparr>sb_free := False\<rparr>))"
    "sl_head (take_block x total_size s) = sl_head s"
  using assms by (cases "sl_mem s x"; simp add: take_block_def Let_def)+

text \<open>The block of a header ends before the next one starts, and the address of its rest does not wrap.\<close>

lemma taken_rest:
  assumes wf: "slab_wf e (xs @ x # ys) s" and fit: "fits s total_size x" and t: "HDR \<le> total_size"
  shows "unat x + unat (sb_size (sl_mem s x)) \<le> (case ys of [] \<Rightarrow> e | y # _ \<Rightarrow> unat y)"
    "unat (x + total_size) = unat x + unat total_size" "x < x + total_size" "x + total_size \<noteq> x" "12 \<le> unat total_size"
    "unat total_size \<le> unat (sb_size (sl_mem s x))"
proof -
  have b: "blocks_at (sl_mem s) e (sl_head s) (xs @ x # ys)" "e < 2 ^ 32" using wf by (simp_all add: slab_wf_def)
  show sz: "unat total_size \<le> unat (sb_size (sl_mem s x))" using fit by (simp add: fits_def word_le_nat_alt)
  show ext: "unat x + unat (sb_size (sl_mem s x)) \<le> (case ys of [] \<Rightarrow> e | y # _ \<Rightarrow> unat y)"
    using blocks_at_suffix [OF b(1)] by (cases ys) auto
  also have "\<dots> < 2 ^ 32" using b(2) unat_u32_less by (cases ys) auto
  finally have "unat x + unat (sb_size (sl_mem s x)) < 2 ^ 32" .
  then show r: "unat (x + total_size) = unat x + unat total_size" using sz unat_add_lem [of x total_size] by simp
  show "12 \<le> unat total_size" using t by (simp add: word_le_nat_alt)
  then show xr: "x < x + total_size" using r by (simp add: word_less_nat_alt)
  then show "x + total_size \<noteq> x" by auto
qed

text \<open>A block that is not much larger than the request is taken as it is.\<close>

lemma take_whole_wf:
  assumes wf: "slab_wf e (xs @ x # ys) s" and fit: "fits s total_size x" and t: "HDR \<le> total_size"
    and small: "\<not> sb_size (sl_mem s x) > total_size + HDR"
  shows "sl_mem (take_block x total_size s) = (sl_mem s)(x := (sl_mem s x)\<lparr>sb_free := False\<rparr>)"
    "slab_wf e (xs @ x # ys) (take_block x total_size s)"
proof -
  let ?m = "sl_mem s" and ?m' = "sl_mem (take_block x total_size s)"
  have b: "blocks_at ?m e (sl_head s) (xs @ x # ys)" "e < 2 ^ 32" using wf by (simp_all add: slab_wf_def)
  note sx = blocks_at_suffix [OF b(1)] and mem = take_block_mem [OF taken_rest(4) [OF wf fit t], of s]
  show m': "?m' = ?m(x := (?m x)\<lparr>sb_free := False\<rparr>)" unfolding mem using small by simp
  have "blocks_at ?m e (sb_next (?m x)) ys" using sx by simp
  then have "blocks_at ?m' e (sb_next (?m x)) ys"
    by (rule blocks_at_cong) (use blocks_at_after [OF b(1)] in \<open>auto simp: m'\<close>)
  then have "blocks_at ?m' e x (x # ys)" using sx by (auto simp: m' split: list.splits)
  then have "blocks_at ?m' e (sl_head s) (xs @ x # ys)"
    by (rule blocks_at_change [OF b(1)]) (use blocks_at_before [OF b(1)] in \<open>auto simp: m'\<close>)
  then show "slab_wf e (xs @ x # ys) (take_block x total_size s)" using b(2) mem(2) by (simp add: slab_wf_def)
qed

text \<open>
  Taking a block keeps the list well formed, with one block more if it was split, and leaves all other
  blocks alone; the taken block then has at least the requested size.
\<close>

lemma take_block_wf:
  assumes wf: "slab_wf e (xs @ x # ys) s" and fit: "fits s total_size x" and t: "HDR \<le> total_size" "unat total_size + 12 < 2 ^ 32"
  shows "\<exists>zs. slab_wf e (xs @ x # zs) (take_block x total_size s) \<and> set ys \<subseteq> set zs \<and>
    \<not> sb_free (sl_mem (take_block x total_size s) x) \<and> total_size \<le> sb_size (sl_mem (take_block x total_size s) x) \<and>
    sb_size (sl_mem (take_block x total_size s) x) \<le> sb_size (sl_mem s x) \<and>
    (\<forall>z \<in> set xs \<union> set ys. sl_mem (take_block x total_size s) z = sl_mem s z)"
proof -
  let ?m = "sl_mem s" and ?m' = "sl_mem (take_block x total_size s)" and ?r = "x + total_size"
  have b: "blocks_at ?m e (sl_head s) (xs @ x # ys)" "e < 2 ^ 32" using wf by (simp_all add: slab_wf_def)
  note sx = blocks_at_suffix [OF b(1)] and rest = taken_rest [OF wf fit t(1)]
  note ext = rest(1) and r = rest(2) and xr = rest(3) and h = rest(4) and t0 = rest(5) and sz = rest(6)
  have xs: "z < x" if "z \<in> set xs" for z using blocks_at_before [OF b(1) that] by blast
  have ys: "x < z \<and> unat x + unat (sb_size (?m x)) \<le> unat z" if "z \<in> set ys" for z
    using blocks_at_after [OF b(1) that] .
  note mem = take_block_mem [OF h, of s]
  show ?thesis
  proof (cases "sb_size (?m x) > total_size + HDR")
    case True
    have "unat (total_size + HDR) = unat total_size + 12" using t(2) unat_add_lem [of total_size 12] by simp
    then have big: "unat total_size + 12 < unat (sb_size (?m x))" using True by (simp add: word_less_nat_alt)
    have m': "?m' = ?m(?r := \<lparr>sb_next = sb_next (?m x), sb_size = sb_size (?m x) - total_size, sb_free = True\<rparr>,
            x := \<lparr>sb_next = ?r, sb_size = total_size, sb_free = False\<rparr>)" unfolding mem using True by simp
    have d: "unat (sb_size (?m x) - total_size) = unat (sb_size (?m x)) - unat total_size"
      using sz by (intro unat_sub) (simp add: word_le_nat_alt)
    have yr: "?r < z \<and> z \<noteq> x" if "z \<in> set ys" for z using ys [OF that] r big by (auto simp: word_less_nat_alt)
    have xn: "z \<noteq> ?r \<and> z \<noteq> x" if "z \<in> set xs" for z using xs [OF that] xr by (auto simp: word_less_nat_alt)
    have tail: "blocks_at ?m e (sb_next (?m x)) ys" using sx by simp
    have "blocks_at ?m' e (sb_next (?m x)) ys"
      by (rule blocks_at_cong [OF tail]) (use yr in \<open>auto simp: m'\<close>)
    moreover have "?r \<noteq> 0" using r t0 by (metis add_is_0 not_numeral_le_zero unat_0)
    moreover have "unat ?r + unat (sb_size (?m x) - total_size) = unat x + unat (sb_size (?m x))" using r d sz by simp
    moreover have "x \<noteq> 0" using sx by simp
    moreover have "12 \<le> unat (sb_size (?m x) - total_size)" using d big by simp
    ultimately have "blocks_at ?m' e x (x # ?r # ys)"
      using ext r xr h yr t0 by (auto simp: m' split: list.splits)
    then have "blocks_at ?m' e (sl_head s) (xs @ x # ?r # ys)"
      by (rule blocks_at_change [OF b(1)]) (use xn in \<open>simp add: m'\<close>)
    moreover have "?m' z = ?m z" if "z \<in> set xs \<union> set ys" for z
    proof -
      have "z \<noteq> x" "z \<noteq> ?r" using that xn [of z] yr [of z] by auto
      then show ?thesis by (simp add: m')
    qed
    ultimately show ?thesis
      using b(2) mem(2) fit by (intro exI [of _ "?r # ys"]) (auto simp: slab_wf_def m' fits_def)
  next
    case False
    then have "slab_wf e (xs @ x # ys) (take_block x total_size s)" "?m' = ?m(x := (?m x)\<lparr>sb_free := False\<rparr>)"
      using take_whole_wf [OF wf fit t(1)] by simp_all
    moreover have "z \<noteq> x" if "z \<in> set xs \<union> set ys" for z using that xs [of z] ys [of z] by auto
    ultimately show ?thesis using fit by (intro exI [of _ ys]) (auto simp: fits_def)
  qed
qed

text \<open>A sequence of requests to the bump allocator: the blocks that were granted.\<close>

primrec bump_allocs :: "(u32 \<times> nat) list \<Rightarrow> bump \<Rightarrow> (u32 \<times> u32) list \<times> bump" where
  "bump_allocs [] b = ([], b)"
| "bump_allocs (r # rs) b =
     (let (p, b) = bump_alloc (fst r) (2 ^ snd r) b; (ps, b) = bump_allocs rs b in
      (if p = 0 then ps else (p, fst r) # ps, b))"

lemma bump_alloc_none:
  "bump_alloc sz align b = (0, b') \<Longrightarrow> k < 32 \<Longrightarrow> align = 2 ^ k \<Longrightarrow> bump_wf b \<Longrightarrow> 0 < heap_start b \<Longrightarrow>
   unat (heap_end b) + unat sz + 2 ^ k < 2 ^ 32 \<Longrightarrow> b' = b"
proof -
  assume a: "bump_alloc sz align b = (0, b')" "k < 32" "align = 2 ^ k" "bump_wf b" "0 < heap_start b"
    "unat (heap_end b) + unat sz + 2 ^ k < 2 ^ 32"
  let ?c = "round_up k (unat (bump_next b))"
  have n: "0 < unat (bump_next b)" "unat (bump_next b) \<le> unat (heap_end b)"
    using a(4,5) by (auto simp: bump_wf_def word_le_nat_alt word_less_nat_alt)
  then have f: "unat (bump_next b) + unat sz + 2 ^ k < 2 ^ 32" using a(6) by linarith
  have "0 < ?c" "?c < 2 ^ 32" using round_up_bounds [where n = "unat (bump_next b)" and k = k] n(1) f by linarith+
  then have "(of_nat ?c :: u32) \<noteq> 0" by (metis less_numeral_extra(3) unat_0 unat_of_nat_u32)
  then show ?thesis using a(1) unfolding a(3) bump_alloc_eq [OF a(2) f] Let_def by (simp split: if_splits)
qed

lemma bump_allocs_ok:
  assumes "bump_wf b" "0 < heap_start b" "\<forall>r \<in> set rs. snd r < 32 \<and> unat (heap_end b) + unat (fst r) + 2 ^ snd r < 2 ^ 32"
    "bump_allocs rs b = (ps, b')"
  shows "bump_wf b' \<and> heap_end b' = heap_end b \<and> sorted_wrt (\<lambda>x y. unat (fst x) + unat (snd x) \<le> unat (fst y)) ps \<and>
    (\<forall>x \<in> set ps. unat (bump_next b) \<le> unat (fst x) \<and> unat (fst x) + unat (snd x) \<le> unat (heap_end b))"
  using assms
proof (induction rs arbitrary: b ps)
  case (Cons r rs)
  obtain p c where p: "bump_alloc (fst r) (2 ^ snd r) b = (p, c)" by (cases "bump_alloc (fst r) (2 ^ snd r) b")
  obtain qs where q: "bump_allocs rs c = (qs, b')" "ps = (if p = 0 then qs else (p, fst r) # qs)"
    using Cons.prems(4) p by (auto split: prod.splits)
  have r: "snd r < 32" "unat (heap_end b) + unat (fst r) + 2 ^ snd r < 2 ^ 32" using Cons.prems(3) by simp_all
  show ?case
  proof (cases "p = 0")
    case True
    then have "c = b" using bump_alloc_none [OF p [unfolded True] r(1) refl Cons.prems(1,2) r(2)] by simp
    then show ?thesis using Cons.IH [OF Cons.prems(1,2) _ q(1) [unfolded \<open>c = b\<close>]] Cons.prems(3) q(2) True by simp
  next
    case False
    note s = bump_alloc_some [OF Cons.prems(1) r p False]
    have c: "0 < heap_start c" "\<forall>r \<in> set rs. snd r < 32 \<and> unat (heap_end c) + unat (fst r) + 2 ^ snd r < 2 ^ 32"
      using Cons.prems(2,3) s(5,6) by simp_all
    note ih = Cons.IH [OF s(4) c q(1)]
    have "unat (bump_next c) \<le> unat (heap_end c)" using s(4) by (simp add: bump_wf_def word_le_nat_alt)
    then show ?thesis using ih q(2) False s(1,2,6) by fastforce
  qed
qed simp

lemma blocks_end:
  assumes "blocks_at m e a xs" "e < 2 ^ 32" "x \<in> set xs"
  shows "unat x + unat (sb_size (m x)) \<le> e"
  using assms
proof (induction xs arbitrary: a x)
  case (Cons y ys)
  note IH = Cons.IH and prems = Cons.prems
  show ?case
  proof (cases ys)
    case Nil
    then show ?thesis using prems by auto
  next
    case (Cons z zs)
    have r: "blocks_at m e z ys" "unat y + unat (sb_size (m y)) \<le> unat z" using prems(1) Cons by auto
    have w: "w \<in> set ys \<Longrightarrow> unat w + unat (sb_size (m w)) \<le> e" for w using IH [OF r(1) prems(2)] .
    have "unat z \<le> e" using w [of z] Cons by simp
    then show ?thesis using prems(3) r(2) w by fastforce
  qed
qed simp

text \<open>A block that holds a request, in numbers, and what granting it does.\<close>

definition holds_request :: "slab \<Rightarrow> u32 \<Rightarrow> u32 \<Rightarrow> bool" where
  "holds_request s sz x \<longleftrightarrow> sb_free (sl_mem s x) \<and> unat sz + 12 \<le> unat (sb_size (sl_mem s x))"

lemma unat_total: "unat sz + 24 < 2 ^ 32 \<Longrightarrow> unat (sz + HDR) = unat sz + 12"
  using unat_add_lem [of sz 12] by simp

lemma fits_iff: "unat sz + 24 < 2 ^ 32 \<Longrightarrow> fits s (sz + HDR) x \<longleftrightarrow> holds_request s sz x"
  by (simp add: fits_def holds_request_def word_le_nat_alt unat_total)

lemma slab_alloc_eq:
  assumes "slab_wf e bs s" "length bs < fuel"
  shows "slab_alloc fuel sz align s =
    (case find (fits s (sz + HDR)) bs of None \<Rightarrow> Inr (0, s) | Some x \<Rightarrow> Inr (x + HDR, take_block x (sz + HDR) s))"
  unfolding slab_alloc_def using alloc_walk_eq [of s e "sl_head s" bs fuel] assms by (simp add: slab_wf_def)

lemma blocks_at_hdr: "blocks_at m e a xs \<Longrightarrow> x \<in> set xs \<Longrightarrow> 12 \<le> unat (sb_size (m x))"
  by (induction xs arbitrary: a) auto

lemma blocks_at_apart:
  assumes "blocks_at m e a (xs @ x # ys)" "y \<in> set xs \<union> set ys"
  shows "y \<noteq> x" "unat x + unat (sb_size (m x)) \<le> unat y \<or> unat y + unat (sb_size (m y)) \<le> unat x"
  using assms blocks_at_before [OF assms(1), of y] blocks_at_after [OF assms(1), of y] by auto

lemma slab_grant:
  assumes "slab_wf e bs s" "x \<in> set bs" "holds_request s sz x" "unat sz + 24 < 2 ^ 32"
  shows "\<exists>bs'. slab_wf e bs' (take_block x (sz + HDR) s) \<and> set bs \<subseteq> set bs' \<and> unat (x + HDR) = unat x + 12 \<and>
    \<not> sb_free (sl_mem (take_block x (sz + HDR) s) x) \<and> unat (x + HDR) + unat sz \<le> e \<and>
    (\<forall>y \<in> set bs'. y \<noteq> x \<longrightarrow> unat (x + HDR) + unat sz \<le> unat y \<or> unat y + 12 \<le> unat x) \<and>
    (\<forall>y \<in> set bs. \<not> sb_free (sl_mem s y) \<longrightarrow> sl_mem (take_block x (sz + HDR) s) y = sl_mem s y \<and>
       (unat (x + HDR) + unat sz \<le> unat y \<or> unat y + unat (sb_size (sl_mem s y)) \<le> unat x))"
proof -
  let ?t = "sz + HDR" and ?s' = "take_block x (sz + HDR) s"
  note tz = unat_total [OF assms(4)]
  have fit: "fits s ?t x" "unat sz + 12 \<le> unat (sb_size (sl_mem s x))"
    using assms(3) fits_iff [OF assms(4)] by (auto simp: holds_request_def)
  obtain xs ys where bs: "bs = xs @ x # ys" using assms(2) by (auto dest: split_list)
  have b: "blocks_at (sl_mem s) e (sl_head s) bs" "e < 2 ^ 32" using assms(1) by (simp_all add: slab_wf_def)
  obtain zs where zs: "slab_wf e (xs @ x # zs) ?s'" "set ys \<subseteq> set zs" "\<not> sb_free (sl_mem ?s' x)" "?t \<le> sb_size (sl_mem ?s' x)"
    "\<forall>z \<in> set xs \<union> set ys. sl_mem ?s' z = sl_mem s z"
    using take_block_wf [OF assms(1) [unfolded bs] fit(1)] tz assms(4) by (auto simp: word_le_nat_alt)
  have ex: "unat x + unat (sb_size (sl_mem s x)) \<le> e" using blocks_end [OF b assms(2)] .
  then have p: "unat (x + HDR) = unat x + 12" using fit(2) b(2) unat_add_lem [of x 12] by simp
  have b': "blocks_at (sl_mem ?s') e (sl_head ?s') (xs @ x # zs)" using zs(1) by (simp add: slab_wf_def)
  have hdr: "unat (x + HDR) + unat sz \<le> unat y \<or> unat y + 12 \<le> unat x" if "y \<in> set (xs @ x # zs)" "y \<noteq> x" for y
    using blocks_at_apart(2) [OF b', of y] blocks_at_hdr [OF b' that(1)] that zs(4) p tz by (auto simp: word_le_nat_alt)
  have used: "sl_mem ?s' y = sl_mem s y \<and> (unat (x + HDR) + unat sz \<le> unat y \<or> unat y + unat (sb_size (sl_mem s y)) \<le> unat x)"
    if "y \<in> set bs" "\<not> sb_free (sl_mem s y)" for y
  proof -
    have "y \<in> set xs \<union> set ys" using that fit(1) bs by (auto simp: fits_def)
    then show ?thesis using zs(5) blocks_at_apart(2) [OF b(1) [unfolded bs], of y] p fit(2) by fastforce
  qed
  have "unat (x + HDR) + unat sz \<le> e" using p fit(2) ex by linarith
  then show ?thesis
    using zs(1,2,3) p hdr used bs by (intro exI [of _ "xs @ x # zs"]) auto
qed

section \<open>Properties\<close>

text \<open>
  The bump allocator never hands out memory twice: for a heap whose end leaves room for
  the largest request in the address space, the blocks granted by any sequence of
  requests lie inside the heap, one behind the other without overlap.
\<close>

theorem bump_allocs_disjoint:
  assumes "bump_wf b" "0 < heap_start b" "\<forall>r \<in> set rs. snd r < 32 \<and> unat (heap_end b) + unat (fst r) + 2 ^ snd r < 2 ^ 32"
  shows "sorted_wrt (\<lambda>x y. unat (fst x) + unat (snd x) \<le> unat (fst y)) (fst (bump_allocs rs b)) \<and>
    (\<forall>x \<in> set (fst (bump_allocs rs b)). unat (heap_start b) \<le> unat (fst x) \<and> unat (fst x) + unat (snd x) \<le> unat (heap_end b))"
proof -
  obtain ps b' where "bump_allocs rs b = (ps, b')" by (cases "bump_allocs rs b")
  then show ?thesis using bump_allocs_ok [OF assms] assms(1) by (fastforce simp: bump_wf_def word_le_nat_alt)
qed

theorem bump_allocs_disjoint_witness:
  "sorted_wrt (\<lambda>x y. unat (fst x) + unat (snd x) \<le> unat (fst y))
     (fst (bump_allocs [(100, 2), (5, 4)] (bump_init 0x100000 0x1000 bump_new))) \<and>
   (\<forall>x \<in> set (fst (bump_allocs [(100, 2), (5, 4)] (bump_init 0x100000 0x1000 bump_new))).
     unat (heap_start (bump_init 0x100000 0x1000 bump_new)) \<le> unat (fst x) \<and>
     unat (fst x) + unat (snd x) \<le> unat (heap_end (bump_init 0x100000 0x1000 bump_new)))"
  by (rule bump_allocs_disjoint) (simp_all add: bump_wf_def bump_init_def)

text \<open>
  A huge request wraps around the end of the address space: it is granted, and the
  allocator goes back and hands out the same memory again.
\<close>

theorem bump_alloc_wraps:
  "bump_alloc 0xFFFFFFF0 1 (bump_init 0x100000 0x1000 bump_new) =
     (0x100000, (bump_init 0x100000 0x1000 bump_new)\<lparr>bump_next := 0xFFFF0\<rparr>)"
  by (simp add: bump_alloc_def bump_init_def bump_new_def)

text \<open>
  The limit on the size of a layout keeps the wrap-around away: for a heap below two
  gigabytes \<open>rust_allocate\<close> panics for a size above \<open>isize::MAX\<close>, answers null and changes
  nothing if the rest of the heap is too small, and else answers the next free byte and
  takes exactly the block, inside the heap.
\<close>

theorem rust_allocate_correct:
  assumes "bump_wf b" "heap_end b < 0x7FFFFFFF"
  shows "rust_allocate sz b =
    (if 0x7FFFFFFF < sz then Inl Panic
     else if unat (heap_end b) < unat (bump_next b) + unat sz then Inr (0, b)
     else Inr (bump_next b, b\<lparr>bump_next := bump_next b + sz\<rparr>)) \<and> rust_deallocate p sz b \<in> {Inr b, Inl Panic}"
proof -
  have e: "unat (bump_next b) \<le> unat (heap_end b)" "unat (heap_end b) < 0x7FFFFFFF"
    using assms by (simp_all add: bump_wf_def word_le_nat_alt word_less_nat_alt)
  have "bump_alloc sz 1 b = (if unat (heap_end b) < unat (bump_next b) + unat sz then (0, b)
      else (bump_next b, b\<lparr>bump_next := bump_next b + sz\<rparr>))" if "sz \<le> 0x7FFFFFFF"
  proof -
    have "unat sz \<le> 0x7FFFFFFF" using that by (simp add: word_le_nat_alt)
    then have "unat (bump_next b + sz) = unat (bump_next b) + unat sz"
      using e unat_add_lem [of "bump_next b" sz] by simp
    then show ?thesis by (simp add: bump_alloc_def word_less_nat_alt Let_def)
  qed
  then show ?thesis
    by (auto simp: rust_allocate_def rust_deallocate_def bump_dealloc_def not_less linorder_not_le)
qed

theorem rust_allocate_correct_witness:
  "let b = bump_init 0x100000 0x1000 bump_new in
   rust_allocate 0xFFFFFFF0 b =
    (if 0x7FFFFFFF < (0xFFFFFFF0 :: u32) then Inl Panic
     else if unat (heap_end b) < unat (bump_next b) + unat (0xFFFFFFF0 :: u32) then Inr (0, b)
     else Inr (bump_next b, b\<lparr>bump_next := bump_next b + 0xFFFFFFF0\<rparr>)) \<and> rust_deallocate 0x100000 8 b \<in> {Inr b, Inl Panic}"
  unfolding Let_def
  using rust_allocate_correct [of "bump_init 0x100000 0x1000 bump_new" "0xFFFFFFF0"]
    rust_allocate_correct [of "bump_init 0x100000 0x1000 bump_new" 8 "0x100000"]
  by (simp add: bump_wf_def bump_init_def)

text \<open>
  C21. Allocating from the block list is safe as long as nothing is freed, for requests of
  fewer than \<open>2 ^ 32 - 24\<close> bytes. On a well-formed list (ascending blocks of at least
  a header's twelve bytes that do not overlap, below the end of the heap) the search ends within one step more than there are blocks. It answers null exactly when
  no free block holds the request and a header, and
  then changes nothing; otherwise it answers a pointer behind the header of a block that
  was free, whose memory ends before the heap does and meets neither a block in use nor the header of any other block of
  the list, and the list stays well formed with the blocks in use unchanged.
\<close>

theorem slab_alloc_correct:
  assumes "slab_wf e bs s" "unat sz + 24 < 2 ^ 32" "length bs < fuel"
  shows "\<exists>p s' bs'. slab_alloc fuel sz align s = Inr (p, s') \<and> slab_wf e bs' s' \<and> set bs \<subseteq> set bs' \<and>
    (if \<exists>x \<in> set bs. holds_request s sz x
     then \<exists>x \<in> set bs. holds_request s sz x \<and> unat p = unat x + 12 \<and> \<not> sb_free (sl_mem s' x) \<and> unat p + unat sz \<le> e \<and>
       (\<forall>y \<in> set bs'. y \<noteq> x \<longrightarrow> unat p + unat sz \<le> unat y \<or> unat y + 12 \<le> unat x) \<and>
       (\<forall>y \<in> set bs. \<not> sb_free (sl_mem s y) \<longrightarrow> sl_mem s' y = sl_mem s y \<and>
          (unat p + unat sz \<le> unat y \<or> unat y + unat (sb_size (sl_mem s y)) \<le> unat x))
     else p = 0 \<and> s' = s)"
proof (cases "find (fits s (sz + HDR)) bs")
  case None
  then have "\<not> (\<exists>x \<in> set bs. holds_request s sz x)" by (auto simp: find_None_iff fits_iff [OF assms(2)])
  then show ?thesis using None slab_alloc_eq [OF assms(1,3)] assms(1) by auto
next
  case (Some x)
  then have x: "x \<in> set bs" "fits s (sz + HDR) x" by (auto simp: find_Some_iff)
  then have h: "holds_request s sz x" using fits_iff [OF assms(2)] by simp
  then have c: "\<exists>x \<in> set bs. holds_request s sz x" using x(1) by blast
  have eq: "slab_alloc fuel sz align s = Inr (x + HDR, take_block x (sz + HDR) s)"
    using Some slab_alloc_eq [OF assms(1,3)] by simp
  from slab_grant [OF assms(1) x(1) h assms(2)] show ?thesis
    unfolding eq if_P [OF c] using x(1) h by blast
qed

text \<open>A fresh heap of 1000 bytes.\<close>

definition slab_example :: slab where
  "slab_example = slab_init 0x1000 1000 (slab_new (\<lambda>_. \<lparr>sb_next = 0, sb_size = 0, sb_free = False\<rparr>))"

lemma slab_example_wf: "slab_wf 5096 [0x1000] slab_example"
  by (simp add: slab_wf_def slab_example_def slab_init_def slab_new_def)

theorem slab_alloc_correct_witness:
  "\<exists>p s' bs'. slab_alloc 2 100 4 slab_example = Inr (p, s') \<and> slab_wf 5096 bs' s' \<and> set [0x1000] \<subseteq> set bs' \<and>
    (if \<exists>x \<in> set [0x1000]. holds_request slab_example 100 x
     then \<exists>x \<in> set [0x1000]. holds_request slab_example 100 x \<and> unat p = unat x + 12 \<and> \<not> sb_free (sl_mem s' x) \<and>
       unat p + unat (100 :: u32) \<le> 5096 \<and>
       (\<forall>y \<in> set bs'. y \<noteq> x \<longrightarrow> unat p + unat (100 :: u32) \<le> unat y \<or> unat y + 12 \<le> unat x) \<and>
       (\<forall>y \<in> set [0x1000]. \<not> sb_free (sl_mem slab_example y) \<longrightarrow> sl_mem s' y = sl_mem slab_example y \<and>
          (unat p + unat (100 :: u32) \<le> unat y \<or> unat y + unat (sb_size (sl_mem slab_example y)) \<le> unat x))
     else p = 0 \<and> s' = slab_example)"
  by (rule slab_alloc_correct [OF slab_example_wf]) simp_all

text \<open>
  C22. The largest requests are granted without memory for them: adding the header's size
  to a request of \<open>2 ^ 32 - 12\<close> bytes or more wraps around to less than a header, so the
  first block of a well-formed list, if it is free, is taken for it, and the memory the
  caller was promised ends behind the heap.
\<close>

theorem slab_alloc_wraps:
  assumes "slab_wf e (x # bs) s" "sb_free (sl_mem s x)" "2 ^ 32 \<le> unat sz + 12"
  shows "\<exists>s'. slab_alloc (Suc fuel) sz align s = Inr (x + HDR, s') \<and> e < unat (x + HDR) + unat sz"
proof -
  have b: "sl_head s = x" "x \<noteq> 0" "12 \<le> unat (sb_size (sl_mem s x))" "unat x + unat (sb_size (sl_mem s x)) \<le> e" "e < 2 ^ 32"
    using assms(1) blocks_end [of "sl_mem s" e "sl_head s" "x # bs" x] by (auto simp: slab_wf_def)
  have "unat (sz + HDR) = (unat sz + 12) mod 2 ^ 32" by (simp add: unat_word_ariths)
  then have "unat (sz + HDR) = unat sz + 12 - 2 ^ 32"
    using assms(3) unat_u32_less [of sz] by (simp add: mod_if)
  then have "sz + HDR \<le> sb_size (sl_mem s x)" using b(3) unat_u32_less [of sz] by (simp add: word_le_nat_alt)
  moreover have "unat (x + HDR) = unat x + 12" using b(3-5) unat_add_lem [of x 12] by simp
  ultimately show ?thesis using b assms(2,3) by (simp add: slab_alloc_def)
qed

theorem slab_alloc_wraps_witness:
  "\<exists>s'. slab_alloc (Suc 0) 0xFFFFFFF8 4 slab_example = Inr (0x1000 + HDR, s') \<and> 5096 < unat (0x1000 + HDR) + unat (0xFFFFFFF8 :: u32)"
  by (rule slab_alloc_wraps [OF slab_example_wf]) (simp_all add: slab_example_def slab_init_def)

definition slab_scenario :: "(u32 \<times> u32 \<times> slab) res" where
  "slab_scenario =
     bindR (slab_alloc 5 100 4 slab_example) (\<lambda>(a, s).
     bindR (slab_alloc 5 100 4 s) (\<lambda>(b, s).
     bindR (slab_alloc 5 100 4 s) (\<lambda>(c, s).
     bindR (slab_dealloc 5 a 100 s) (\<lambda>s.
     bindR (slab_dealloc 5 b 100 s) (\<lambda>s.
     bindR (slab_alloc 5 224 4 s) (\<lambda>(p, s). Inr (c, p, s)))))))"

text \<open>
  Freeing breaks the heap: the sizes of allocated blocks count their header, and merging
  two free neighbours adds one header more. After three allocations of 100 bytes and
  freeing the first two, a request for 224 bytes is granted at the first block and covers
  the header of the third, which is still in use.
\<close>

theorem slab_merge_overlaps:
  "\<exists>c p s. slab_scenario = Inr (c, p, s) \<and> \<not> sb_free (sl_mem s (c - HDR)) \<and>
     p \<le> c - HDR \<and> c - HDR + HDR \<le> p + 224"
proof -
  have five: "(5 :: nat) = Suc (Suc (Suc (Suc (Suc 0))))" by simp
  define m0 where "m0 = (\<lambda>_ :: u32. \<lparr>sb_next = 0, sb_size = 0, sb_free = False\<rparr>)"
  define mem where "mem a b c r = m0(0x1150 := r, 0x10E0 := c, 0x1070 := b, 0x1000 := a)" for a b c r
  define h where "h x f m = \<lparr>sl_head = 0x1000, total_allocated = x, total_freed = f, sl_mem = m\<rparr>" for x f m
  define blk where "blk n z = \<lparr>sb_next = n, sb_size = z, sb_free = True\<rparr>" for n z :: u32
  define use where "use n z = \<lparr>sb_next = n, sb_size = z, sb_free = False\<rparr>" for n z :: u32
  note defs = slab_alloc_def slab_dealloc_def take_block_def mem_def h_def blk_def use_def m0_def
  have "slab_alloc 5 100 4 slab_example = Inr (0x100C, h 112 0 (mem (use 0x1070 112) (blk 0 876) (use 0 0) (use 0 0)))"
    unfolding five by (simp add: defs slab_example_def slab_init_def slab_new_def fun_upd_twist fun_upd_idem)
  moreover have "slab_alloc 5 100 4 (h 112 0 (mem (use 0x1070 112) (blk 0 876) (use 0 0) (use 0 0))) =
      Inr (0x107C, h 224 0 (mem (use 0x1070 112) (use 0x10E0 112) (blk 0 764) (use 0 0)))"
    unfolding five by (simp add: defs fun_upd_twist)
  moreover have "slab_alloc 5 100 4 (h 224 0 (mem (use 0x1070 112) (use 0x10E0 112) (blk 0 764) (use 0 0))) =
      Inr (0x10EC, h 336 0 (mem (use 0x1070 112) (use 0x10E0 112) (use 0x1150 112) (blk 0 652)))"
    unfolding five by (simp add: defs fun_upd_twist)
  moreover have "slab_dealloc 5 0x100C 100 (h 336 0 (mem (use 0x1070 112) (use 0x10E0 112) (use 0x1150 112) (blk 0 652))) =
      Inr (h 336 112 (mem (blk 0x1070 112) (use 0x10E0 112) (use 0x1150 112) (blk 0 652)))"
    unfolding five by (simp add: defs fun_upd_twist)
  moreover have "slab_dealloc 5 0x107C 100 (h 336 112 (mem (blk 0x1070 112) (use 0x10E0 112) (use 0x1150 112) (blk 0 652))) =
      Inr (h 336 224 (mem (blk 0x10E0 236) (blk 0x10E0 112) (use 0x1150 112) (blk 0 652)))"
    unfolding five by (simp add: defs fun_upd_twist)
  moreover have "slab_alloc 5 224 4 (h 336 224 (mem (blk 0x10E0 236) (blk 0x10E0 112) (use 0x1150 112) (blk 0 652))) =
      Inr (0x100C, h 572 224 (mem (use 0x10E0 236) (blk 0x10E0 112) (use 0x1150 112) (blk 0 652)))"
    unfolding five by (simp add: defs fun_upd_twist)
  ultimately have r: "slab_scenario = Inr (0x10EC, 0x100C, h 572 224 (mem (use 0x10E0 236) (blk 0x10E0 112) (use 0x1150 112) (blk 0 652)))"
    by (simp add: slab_scenario_def)
  show ?thesis unfolding r by (simp add: h_def mem_def use_def)
qed

end
