(* ===== verification/Security.thy ===== *)
theory Security
  imports Libc
begin

text \<open>
  The security services outside the kernel image: the resource limits of
  \<^verbatim>\<open>security/sandbox/sandbox.rs\<close> and the password check of \<^verbatim>\<open>security/auth/auth.rs\<close>. The
  arithmetic is that of a release build and wraps around; \<open>usize\<close> has 32 bits.
\<close>

section \<open>Sandbox\<close>

record sandbox_policy =
  allow_filesystem :: bool
  allow_network :: bool
  allow_audio :: bool
  max_memory_mb :: u32
  allowed_paths :: "u32 list"

definition RESTRICTED :: sandbox_policy where
  "RESTRICTED = \<lparr>allow_filesystem = False, allow_network = False, allow_audio = False, max_memory_mb = 64,
     allowed_paths = replicate 8 0\<rparr>"

definition NETWORK_ONLY :: sandbox_policy where
  "NETWORK_ONLY = \<lparr>allow_filesystem = False, allow_network = True, allow_audio = False, max_memory_mb = 128,
     allowed_paths = replicate 8 0\<rparr>"

definition FULL :: sandbox_policy where
  "FULL = \<lparr>allow_filesystem = True, allow_network = True, allow_audio = True, max_memory_mb = 1024,
     allowed_paths = replicate 8 0\<rparr>"

definition add_allowed_path :: "u32 \<Rightarrow> nat \<Rightarrow> sandbox_policy \<Rightarrow> sandbox_policy" where
  "add_allowed_path path_hash index p =
     (if index < 8 then p\<lparr>allowed_paths := (allowed_paths p)[index := path_hash]\<rparr> else p)"

definition can_access_path :: "u32 \<Rightarrow> sandbox_policy \<Rightarrow> bool res" where
  "can_access_path path_hash p =
     (if \<not> allow_filesystem p then Inr False
      else bindR (forR 0 8 (\<lambda>i found. if found then Inr True
                                    else bindR (buf_read (allowed_paths p) i) (\<lambda>h. Inr (h = path_hash))) False) Inr)"

record sandbox =
  sb_policy :: sandbox_policy
  memory_used :: u32

definition new_sandbox :: "sandbox_policy \<Rightarrow> sandbox" where
  "new_sandbox p = \<lparr>sb_policy = p, memory_used = 0\<rparr>"

definition check_alloc :: "u32 \<Rightarrow> sandbox \<Rightarrow> bool \<times> sandbox" where
  "check_alloc size_mb s =
     (if memory_used s + size_mb > max_memory_mb (sb_policy s) then (False, s)
      else (True, s\<lparr>memory_used := memory_used s + size_mb\<rparr>))"

definition free_memory :: "u32 \<Rightarrow> sandbox \<Rightarrow> sandbox" where
  "free_memory size_mb s =
     (if size_mb \<le> memory_used s then s\<lparr>memory_used := memory_used s - size_mb\<rparr> else s\<lparr>memory_used := 0\<rparr>)"

section \<open>SHA-256 as written\<close>

text \<open>
  The eight working variables are a tuple. The chunks all have 64 bytes, so the accesses to
  them and to the message schedule are in range.
\<close>

definition K256 :: "u32 list" where
  "K256 = [0x428A2F98, 0x71374491, 0xB5C0FBCF, 0xE9B5DBA5, 0x3956C25B, 0x59F111F1, 0x923F82A4, 0xAB1C5ED5,
      0xD807AA98, 0x12835B01, 0x243185BE, 0x550C7DC3, 0x72BE5D74, 0x80DEB1FE, 0x9BDC06A7, 0xC19BF174,
      0xE49B69C1, 0xEFBE4786, 0x0FC19DC6, 0x240CA1CC, 0x2DE92C6F, 0x4A7484AA, 0x5CB0A9DC, 0x76F988DA,
      0x983E5152, 0xA831C66D, 0xB00327C8, 0xBF597FC7, 0xC6E00BF3, 0xD5A79147, 0x06CA6351, 0x14292967,
      0x27B70A85, 0x2E1B2138, 0x4D2C6DFC, 0x53380D13, 0x650A7354, 0x766A0ABB, 0x81C2C92E, 0x92722C85,
      0xA2BFE8A1, 0xA81A664B, 0xC24B8B70, 0xC76C51A3, 0xD192E819, 0xD6990624, 0xF40E3585, 0x106AA070,
      0x19A4C116, 0x1E376C08, 0x2748774C, 0x34B0BCB5, 0x391C0CB3, 0x4ED8AA4A, 0x5B9CCA4F, 0x682E6FF3,
      0x748F82EE, 0x78A5636F, 0x84C87814, 0x8CC70208, 0x90BEFFFA, 0xA4506CEB, 0xBEF9A3F7, 0xC67178F2]"

type_synonym hash8 = "u32 \<times> u32 \<times> u32 \<times> u32 \<times> u32 \<times> u32 \<times> u32 \<times> u32"

definition H256 :: hash8 where
  "H256 = (0x6A09E667, 0xBB67AE85, 0x3C6EF372, 0xA54FF53A, 0x510E527F, 0x9B05688C, 0x1F83D9AB, 0x5BE0CD19)"

function pad_zeros :: "u8 list \<Rightarrow> u8 list" where
  "pad_zeros p = (if length p mod 64 \<noteq> 56 then pad_zeros (p @ [0]) else p)"
  by pat_completeness auto
termination
  by (relation "measure (\<lambda>p. if length p mod 64 \<le> 56 then 56 - length p mod 64 else 120 - length p mod 64)")
    (auto simp: mod_Suc)

declare pad_zeros.simps [simp del]

definition be_bytes32 :: "u32 \<Rightarrow> u8 list" where
  "be_bytes32 v = [ucast (drop_bit 24 v), ucast (drop_bit 16 v), ucast (drop_bit 8 v), ucast v]"

definition be_bytes64 :: "u64 \<Rightarrow> u8 list" where
  "be_bytes64 v = map (\<lambda>i. ucast (drop_bit (56 - 8 * i) v)) [0..<8]"

definition pad_message :: "u8 list \<Rightarrow> u8 list" where
  "pad_message data = pad_zeros (data @ [0x80]) @ be_bytes64 (of_nat (length data))"

definition from_be_bytes :: "u8 \<Rightarrow> u8 \<Rightarrow> u8 \<Rightarrow> u8 \<Rightarrow> u32" where
  "from_be_bytes a b c d = push_bit 24 (ucast a) OR push_bit 16 (ucast b) OR push_bit 8 (ucast c) OR ucast d"

definition rotate_right :: "nat \<Rightarrow> u32 \<Rightarrow> u32" where
  "rotate_right n x = word_rotr n x"

definition schedule_step :: "nat \<Rightarrow> u32 list \<Rightarrow> u32 list" where
  "schedule_step i w =
     (let s0 = rotate_right 7 (w ! (i - 15)) XOR rotate_right 18 (w ! (i - 15)) XOR drop_bit 3 (w ! (i - 15));
          s1 = rotate_right 17 (w ! (i - 2)) XOR rotate_right 19 (w ! (i - 2)) XOR drop_bit 10 (w ! (i - 2)) in
      w[i := w ! (i - 16) + s0 + w ! (i - 7) + s1])"

definition message_schedule :: "u8 list \<Rightarrow> u32 list" where
  "message_schedule chunk =
     fold schedule_step [16..<64]
       (fold (\<lambda>i w. w[i := from_be_bytes (chunk ! (i * 4)) (chunk ! (i * 4 + 1)) (chunk ! (i * 4 + 2)) (chunk ! (i * 4 + 3))])
         [0..<16] (replicate 64 0))"

fun sha_round :: "u32 list \<Rightarrow> nat \<Rightarrow> hash8 \<Rightarrow> hash8" where
  "sha_round w i (a, b, c, d, e, f, g, h) =
     (let s1 = rotate_right 6 e XOR rotate_right 11 e XOR rotate_right 25 e;
          ch = (e AND f) XOR (NOT e AND g);
          temp1 = h + s1 + ch + K256 ! i + w ! i;
          s0 = rotate_right 2 a XOR rotate_right 13 a XOR rotate_right 22 a;
          maj = (a AND b) XOR (a AND c) XOR (b AND c);
          temp2 = s0 + maj in
      (temp1 + temp2, a, b, c, d + temp1, e, f, g))"

fun sha_add :: "hash8 \<Rightarrow> hash8 \<Rightarrow> hash8" where
  "sha_add (a, b, c, d, e, f, g, h) (a', b', c', d', e', f', g', h') =
     (a + a', b + b', c + c', d + d', e + e', f + f', g + g', h + h')"

definition sha_chunk :: "u8 list \<Rightarrow> hash8 \<Rightarrow> hash8" where
  "sha_chunk chunk hs = sha_add hs (fold (sha_round (message_schedule chunk)) [0..<64] hs)"

function chunks64 :: "u8 list \<Rightarrow> u8 list list" where
  "chunks64 xs = (if xs = [] then [] else take 64 xs # chunks64 (drop 64 xs))"
  by pat_completeness auto
termination
  by (relation "measure length") auto

declare chunks64.simps [simp del]

fun hash_bytes :: "hash8 \<Rightarrow> u8 list" where
  "hash_bytes (a, b, c, d, e, f, g, h) =
     be_bytes32 a @ be_bytes32 b @ be_bytes32 c @ be_bytes32 d @ be_bytes32 e @ be_bytes32 f @ be_bytes32 g @ be_bytes32 h"

definition sha256 :: "u8 list \<Rightarrow> u8 list" where
  "sha256 data = hash_bytes (fold sha_chunk (chunks64 (pad_message data)) H256)"

section \<open>Users\<close>

record user =
  username :: "u8 list"
  password_hash :: "u8 list"
  salt :: "u8 list"

definition copy_into :: "u8 list \<Rightarrow> nat \<Rightarrow> nat \<Rightarrow> u8 list" where
  "copy_into bytes limit n = take (min (length bytes) limit) bytes @ replicate (n - min (length bytes) limit) 0"

definition sha256_with_salt :: "u8 list \<Rightarrow> u8 list \<Rightarrow> u8 list" where
  "sha256_with_salt data slt = sha256 (take 48 (copy_into data 48 64) @ slt)"

definition user_salt :: "u8 list" where
  "user_salt = map (\<lambda>i. ucast ((of_nat i * 0x9E3779B9 :: u32) AND 0xFF)) [0..<16]"

definition user_new :: "u8 list \<Rightarrow> u8 list \<Rightarrow> user" where
  "user_new uname password =
     \<lparr>username = copy_into uname 32 32, password_hash = sha256_with_salt password user_salt, salt = user_salt\<rparr>"

definition user_verify :: "u8 list \<Rightarrow> user \<Rightarrow> bool" where
  "user_verify password u \<longleftrightarrow> password_hash u = sha256_with_salt password (salt u)"

section \<open>Lemmas\<close>

datatype sandbox_op = Alloc_Mb u32 | Free_Mb u32

fun sandbox_step :: "sandbox_op \<Rightarrow> sandbox \<Rightarrow> sandbox" where
  "sandbox_step (Alloc_Mb n) s = snd (check_alloc n s)"
| "sandbox_step (Free_Mb n) s = free_memory n s"

lemma sandbox_step_limit:
  "memory_used s \<le> max_memory_mb (sb_policy s) \<Longrightarrow>
   memory_used (sandbox_step op s) \<le> max_memory_mb (sb_policy s) \<and> sb_policy (sandbox_step op s) = sb_policy s"
  by (cases op) (auto simp: check_alloc_def free_memory_def word_le_nat_alt word_less_nat_alt unat_sub)

lemma path_scan:
  assumes "length ps = 8"
  shows "forR 0 8 (\<lambda>i found. if found then Inr True else bindR (buf_read ps i) (\<lambda>h. Inr (h = x))) False = Inr (x \<in> set ps)"
proof -
  obtain a b c d e f g h where ps: "ps = [a, b, c, d, e, f, g, h]"
    using assms by (auto simp: length_Suc_conv eval_nat_numeral)
  show ?thesis unfolding ps by (auto simp: forR.simps buf_read_def)
qed

lemma access_path:
  "length (allowed_paths p) = 8 \<Longrightarrow> can_access_path h p = Inr (allow_filesystem p \<and> h \<in> set (allowed_paths p))"
  by (simp add: can_access_path_def path_scan)

lemma pad_zeros_eq: "\<exists>n. pad_zeros p = p @ replicate n 0 \<and> length (pad_zeros p) mod 64 = 56"
proof (induction p rule: pad_zeros.induct)
  case (1 p)
  show ?case
  proof (cases "length p mod 64 = 56")
    case True
    then show ?thesis by (intro exI [of _ 0]) (simp add: pad_zeros.simps)
  next
    case False
    then obtain n where "pad_zeros (p @ [0]) = (p @ [0]) @ replicate n 0" "length (pad_zeros (p @ [0])) mod 64 = 56"
      using 1 by blast
    moreover have "pad_zeros p = pad_zeros (p @ [0])" using False by (simp add: pad_zeros.simps [of p])
    ultimately show ?thesis by (intro exI [of _ "Suc n"]) simp
  qed
qed

lemma pad_message_length: "64 dvd length (pad_message data)"
proof -
  have "(length (pad_zeros (data @ [0x80])) + 8) mod 64 = 0"
    using pad_zeros_eq [of "data @ [0x80]"] by (metis mod_add_left_eq mod_self numeral_plus_numeral add_num_simps)
  then show ?thesis by (simp add: pad_message_def be_bytes64_def dvd_eq_mod_eq_0)
qed

lemma chunks64_full: "64 dvd length xs \<Longrightarrow> c \<in> set (chunks64 xs) \<Longrightarrow> length c = 64"
proof (induction xs rule: chunks64.induct)
  case (1 xs)
  show ?case
  proof (cases "xs = []")
    case False
    then have "64 \<le> length xs" using "1.prems"(1) by (auto dest: dvd_imp_le)
    moreover have "64 dvd length (drop 64 xs)" using "1.prems"(1) by (simp add: dvd_diff_nat)
    moreover have "c = take 64 xs \<or> c \<in> set (chunks64 (drop 64 xs))"
      using "1.prems"(2) False by (subst (asm) chunks64.simps) auto
    ultimately show ?thesis using "1.IH" [OF False] by auto
  qed (use "1.prems"(2) in \<open>simp add: chunks64.simps\<close>)
qed

lemma hash_bytes_length: "length (hash_bytes h) = 32"
  by (cases h rule: hash_bytes.cases) (simp add: be_bytes32_def)

section \<open>Properties\<close>

text \<open>
  A sandbox stays within its limit: whatever is allocated and freed, in any order, the
  memory accounted never exceeds the policy's maximum, and the policy does not change.
\<close>

theorem sandbox_within_limit:
  "memory_used (fold sandbox_step ops (new_sandbox p)) \<le> max_memory_mb p \<and> sb_policy (fold sandbox_step ops (new_sandbox p)) = p"
proof -
  have "memory_used (fold sandbox_step ops s) \<le> max_memory_mb (sb_policy s) \<and> sb_policy (fold sandbox_step ops s) = sb_policy s"
    if "memory_used s \<le> max_memory_mb (sb_policy s)" for s
    using that
  proof (induction ops arbitrary: s)
    case (Cons op ops)
    then show ?case using Cons.IH [of "sandbox_step op s"] sandbox_step_limit [of s op] by simp
  qed simp
  from this [of "new_sandbox p"] show ?thesis by (simp add: new_sandbox_def)
qed

text \<open>
  The accounting can be cheated: the sum wraps around, so with 10 megabytes in use a request
  for almost the whole address space is granted, and only 2 megabytes count as used then.
\<close>

theorem sandbox_alloc_wraps:
  "check_alloc 0xFFFFFFF8 ((new_sandbox RESTRICTED)\<lparr>memory_used := 10\<rparr>) =
     (True, (new_sandbox RESTRICTED)\<lparr>memory_used := 2\<rparr>)"
  by (simp add: check_alloc_def new_sandbox_def RESTRICTED_def)

text \<open>
  A path may be accessed exactly when the policy allows file access and lists the hash
  of the path; the predefined full policy lists none, so it admits only the hash zero.
\<close>

theorem can_access_path_correct:
  assumes "length (allowed_paths p) = 8"
  shows "can_access_path h p = Inr (allow_filesystem p \<and> h \<in> set (allowed_paths p)) \<and> can_access_path h FULL = Inr (h = 0)"
proof -
  have "allow_filesystem FULL" "length (allowed_paths FULL) = 8" "set (allowed_paths FULL) = {0}"
    by (simp_all add: FULL_def)
  then show ?thesis using access_path [OF assms] access_path [of FULL] by simp
qed

theorem can_access_path_correct_witness:
  "can_access_path 7 (add_allowed_path 7 2 FULL) =
     Inr (allow_filesystem (add_allowed_path 7 2 FULL) \<and> 7 \<in> set (allowed_paths (add_allowed_path 7 2 FULL))) \<and>
   can_access_path 7 FULL = Inr (7 = (0 :: u32))"
  by (rule can_access_path_correct) (simp add: add_allowed_path_def FULL_def)

text \<open>
  The right password is accepted, and so is every other one that agrees with it in the
  first 48 bytes: the rest of a password is never looked at, and a shorter one is extended
  by zero bytes.
\<close>

theorem verify_ignores_tail:
  assumes "take 48 (password @ replicate 48 0) = take 48 (other @ replicate 48 0)"
  shows "user_verify password (user_new name password) \<and> user_verify other (user_new name password)"
proof -
  have "take 48 (copy_into bs 48 64) = take 48 (bs @ replicate 48 0)" for bs
    by (simp add: copy_into_def min_def)
  then show ?thesis using assms by (simp add: user_verify_def user_new_def sha256_with_salt_def)
qed

theorem verify_ignores_tail_witness:
  "user_verify (replicate 48 0x61 @ [0x62]) (user_new [0x72] (replicate 48 0x61 @ [0x62])) \<and>
   user_verify (replicate 48 0x61 @ [0x63, 0x64]) (user_new [0x72] (replicate 48 0x61 @ [0x62]))"
  by (rule verify_ignores_tail) simp

text \<open>
  Hashing is total: the padding ends with a multiple of 64 bytes, every chunk that is
  hashed has 64 bytes, and the digest has 32.
\<close>

theorem sha256_total:
  "64 dvd length (pad_message data) \<and> (\<forall>c. c \<in> set (chunks64 (pad_message data)) \<longrightarrow> length c = 64) \<and>
   length (sha256 data) = 32"
  using pad_message_length chunks64_full by (auto simp: sha256_def hash_bytes_length)

end
