(* ===== verification/Sound.thy ===== *)
theory Sound
  imports Larch_Prelude "HOL-Library.Signed_Division"
begin

text \<open>
  The audio mixer, \<^verbatim>\<open>sound/core/mixer.rs\<close>. Samples are 16-bit signed integers, here integers
  wrapped to 16 bits after every operation, as in a release build; division truncates
  towards zero.
\<close>

section \<open>Channels and mixer\<close>

record mixer_channel =
  volume :: int
  muted :: bool
  left_gain :: int
  right_gain :: int

record audio_mixer =
  master :: mixer_channel
  channels :: "mixer_channel list"
  sample_rate :: u32

definition new_channel :: mixer_channel where
  "new_channel = \<lparr>volume = 100, muted = False, left_gain = 100, right_gain = 100\<rparr>"

definition set_volume :: "u8 \<Rightarrow> mixer_channel \<Rightarrow> mixer_channel" where
  "set_volume v c = c\<lparr>volume := (if v > 100 then 100 else uint v)\<rparr>"

definition set_mute :: "bool \<Rightarrow> mixer_channel \<Rightarrow> mixer_channel" where
  "set_mute m c = c\<lparr>muted := m\<rparr>"

definition get_volume :: "mixer_channel \<Rightarrow> int" where
  "get_volume c = (if muted c then 0 else volume c)"

definition set_gain :: "u8 \<Rightarrow> u8 \<Rightarrow> mixer_channel \<Rightarrow> mixer_channel" where
  "set_gain l r c = c\<lparr>left_gain := (if l > 100 then 100 else uint l), right_gain := (if r > 100 then 100 else uint r)\<rparr>"

definition new_mixer :: audio_mixer where
  "new_mixer = \<lparr>master = new_channel, channels = replicate 16 new_channel, sample_rate = 44100\<rparr>"

definition set_sample_rate :: "u32 \<Rightarrow> audio_mixer \<Rightarrow> audio_mixer" where
  "set_sample_rate r m = m\<lparr>sample_rate := r\<rparr>"

section \<open>Mixing\<close>

definition i16 :: "int \<Rightarrow> int" where
  "i16 x = signed_take_bit 15 x"

definition mix_gain :: "mixer_channel \<Rightarrow> mixer_channel \<Rightarrow> int" where
  "mix_gain m c = i16 (get_volume m * get_volume c) sdiv 100"

definition mix_one :: "int \<Rightarrow> int list \<Rightarrow> int \<Rightarrow> int list \<Rightarrow> int list res" where
  "mix_one gain input i out =
     bindR (buf_read input i) (\<lambda>x.
     bindR (buf_read out i) (\<lambda>y.
     buf_write out i (i16 (y + i16 (x * gain) sdiv 100))))"

definition mix_samples :: "int list \<Rightarrow> nat \<Rightarrow> audio_mixer \<Rightarrow> int list \<Rightarrow> int list res" where
  "mix_samples input channel m out =
     bindR (buf_read (channels m) (int channel)) (\<lambda>c.
     let gain = mix_gain (master m) c in
     forR 0 (int (length input) div 2) (\<lambda>i out.
       bindR (mix_one gain input (i * 2) out) (mix_one gain input (i * 2 + 1))) out)"

section \<open>Volumes\<close>

definition channel_wf :: "mixer_channel \<Rightarrow> bool" where
  "channel_wf c \<longleftrightarrow> 0 \<le> volume c \<and> volume c \<le> 100 \<and> 0 \<le> left_gain c \<and> left_gain c \<le> 100 \<and>
     0 \<le> right_gain c \<and> right_gain c \<le> 100"

lemma u8_clamp: "0 \<le> (if (v :: u8) > 100 then 100 else uint v)" "(if (v :: u8) > 100 then 100 else uint v) \<le> 100"
proof -
  have "uint v \<le> 100" if "\<not> v > 100" using that by (simp add: word_less_def)
  then show "(if v > 100 then 100 else uint v) \<le> 100" by simp
qed simp

lemma channel_wf_ops:
  "channel_wf new_channel" "channel_wf c \<Longrightarrow> channel_wf (set_volume v c)" "channel_wf c \<Longrightarrow> channel_wf (set_mute b c)"
  "channel_wf c \<Longrightarrow> channel_wf (set_gain l r c)"
  using u8_clamp by (simp_all add: channel_wf_def new_channel_def set_volume_def set_mute_def set_gain_def)

lemma i16_id: "- 32768 \<le> x \<Longrightarrow> x \<le> 32767 \<Longrightarrow> i16 x = x"
  by (simp add: i16_def signed_take_bit_int_eq_self)

lemma mix_gain_eq:
  assumes "channel_wf m" "channel_wf c"
  shows "mix_gain m c = (if muted m \<or> muted c then 0 else volume m * volume c div 100)" "0 \<le> mix_gain m c" "mix_gain m c \<le> 100"
proof -
  have v: "0 \<le> get_volume m" "get_volume m \<le> 100" "0 \<le> get_volume c" "get_volume c \<le> 100"
    using assms by (auto simp: channel_wf_def get_volume_def)
  then have p: "0 \<le> get_volume m * get_volume c" "get_volume m * get_volume c \<le> 100 * 100"
    by (simp, intro mult_mono) simp_all
  then have e: "mix_gain m c = get_volume m * get_volume c div 100"
    by (simp add: mix_gain_def i16_id signed_divide_int_def sgn_if)
  then show "mix_gain m c = (if muted m \<or> muted c then 0 else volume m * volume c div 100)"
    by (simp add: get_volume_def)
  show "0 \<le> mix_gain m c" "mix_gain m c \<le> 100" using p e by (simp_all add: pos_imp_zdiv_nonneg_iff)
qed

section \<open>The loop\<close>

definition mixed :: "int \<Rightarrow> int list \<Rightarrow> int list \<Rightarrow> nat \<Rightarrow> int" where
  "mixed gain input out j = i16 (out ! j + i16 (input ! j * gain) sdiv 100)"

definition mixed_upto :: "nat \<Rightarrow> int \<Rightarrow> int list \<Rightarrow> int list \<Rightarrow> int list" where
  "mixed_upto n gain input out = map (\<lambda>j. if j < n then mixed gain input out j else out ! j) [0..<length out]"

lemma mixed_upto_step:
  assumes "n < length input" "n < length out"
  shows "mix_one gain input (int n) (mixed_upto n gain input out) = Inr (mixed_upto (Suc n) gain input out)"
proof -
  have "(mixed_upto n gain input out)[n := mixed gain input out n] = mixed_upto (Suc n) gain input out"
    by (rule nth_equalityI) (auto simp: mixed_upto_def nth_list_update less_Suc_eq)
  then show ?thesis using assms by (simp add: mix_one_def buf_simps mixed_upto_def mixed_def)
qed

lemma mix_samples_eq:
  assumes "c < length (channels m)" "length input \<le> length out"
  shows "mix_samples input c m out =
    Inr (mixed_upto (length input div 2 * 2) (mix_gain (master m) (channels m ! c)) input out)"
proof -
  let ?g = "mix_gain (master m) (channels m ! c)"
  have "succeeds (forR 0 (int (length input) div 2) (\<lambda>i out. bindR (mix_one ?g input (i * 2) out) (mix_one ?g input (i * 2 + 1))) out)
    (\<lambda>o'. o' = mixed_upto (nat (int (length input) div 2) * 2) ?g input out)"
  proof (rule succeeds_forR [where I = "\<lambda>i o'. o' = mixed_upto (nat i * 2) ?g input out"])
    fix i o' assume i: "0 \<le> i" "i < int (length input) div 2" "o' = mixed_upto (nat i * 2) ?g input out"
    have n: "nat i * 2 < length input" "Suc (nat i * 2) < length input" using i(1,2) by linarith+
    have "i * 2 = int (nat i * 2)" "i * 2 + 1 = int (Suc (nat i * 2))" "Suc (Suc (nat i * 2)) = nat (i + 1) * 2"
      using i(1) by simp_all
    then show "succeeds (bindR (mix_one ?g input (i * 2) o') (mix_one ?g input (i * 2 + 1)))
        (\<lambda>o'. o' = mixed_upto (nat (i + 1) * 2) ?g input out)"
      using mixed_upto_step [of "nat i * 2" input out ?g] mixed_upto_step [of "Suc (nat i * 2)" input out ?g] n assms(2)
      unfolding i(3) by (simp only: bindR_Inr succeeds_Inr order_less_le_trans)
  next
    show "out = mixed_upto (nat 0 * 2) ?g input out" by (simp add: mixed_upto_def map_nth)
  qed simp
  moreover have "nat (int (length input) div 2) = length input div 2" by (simp add: nat_div_distrib)
  ultimately show ?thesis using assms(1) by (simp add: mix_samples_def buf_simps succeeds_iff Let_def)
qed

section \<open>Properties\<close>

text \<open>
  Mixing is exact for quiet signals: if the scaled samples and the sums fit 16 bits,
  every sample of the output grows by the input sample times the product of the two
  volumes in per cent, rounded towards zero, and a muted channel or master adds nothing.
\<close>

theorem mix_samples_exact:
  assumes "channel_wf (master m)" "c < length (channels m)" "channel_wf (channels m ! c)"
    and "length input \<le> length out" "j < length input div 2 * 2"
    and "\<bar>input ! j\<bar> \<le> 327" "\<bar>out ! j\<bar> \<le> 32440"
  shows "\<exists>out'. mix_samples input c m out = Inr out' \<and> length out' = length out \<and>
    out' ! j = out ! j + (input ! j * (if muted (master m) \<or> muted (channels m ! c) then 0
                                       else volume (master m) * volume (channels m ! c) div 100)) sdiv 100"
proof -
  let ?g = "mix_gain (master m) (channels m ! c)" and ?x = "input ! j"
  note g = mix_gain_eq [OF assms(1,3)]
  have "\<bar>?x\<bar> * ?g \<le> 327 * 100" using assms(6) g(2,3) by (intro mult_mono) simp_all
  then have x: "\<bar>?x * ?g\<bar> \<le> 32700" using g(2) by (simp add: abs_mult)
  have "\<bar>?x * ?g\<bar> div 100 \<le> 327" using x by simp
  moreover have "0 \<le> \<bar>?x * ?g\<bar> div 100" by (simp add: pos_imp_zdiv_nonneg_iff)
  moreover have "\<bar>(?x * ?g) sdiv 100\<bar> \<le> \<bar>\<bar>?x * ?g\<bar> div 100\<bar>" by (simp add: signed_divide_int_def abs_mult abs_sgn_eq)
  ultimately have "\<bar>(?x * ?g) sdiv 100\<bar> \<le> 327" by linarith
  then have "mixed ?g input out j = out ! j + (?x * ?g) sdiv 100"
    using x assms(7) by (simp add: mixed_def i16_id abs_le_iff)
  moreover have "j < length out" using assms(4,5) by linarith
  ultimately show ?thesis
    using mix_samples_eq [OF assms(2,4)] assms(5) g(1) by (simp add: mixed_upto_def)
qed

theorem mix_samples_exact_witness:
  "\<exists>out'. mix_samples [100, - 50] 0 new_mixer [1000, 1000] = Inr out' \<and> length out' = 2 \<and> out' ! 1 = 950"
  using mix_samples_exact [of new_mixer 0 "[100, - 50]" "[1000, 1000]" 1]
  by (simp add: new_mixer_def channel_wf_def new_channel_def signed_divide_int_def sgn_if numeral_2_eq_2)

text \<open>
  At full volume a sample of 328 or more overflows the 16-bit product and comes out with
  the wrong sign.
\<close>

theorem mix_samples_wraps:
  "mix_samples [328, 328] 0 new_mixer [0, 0] = Inr [- 327, - 327]"
  using mix_samples_eq [of 0 new_mixer "[328, 328]" "[0, 0]"]
  by (simp add: new_mixer_def mixed_upto_def mixed_def mix_gain_def get_volume_def new_channel_def i16_def
      signed_take_bit_eq_if_positive signed_divide_int_def)

end
