(* ===== verification/Boot.thy ===== *)
theory Boot
  imports Context Kernel_Main
begin

text \<open>
  The first code of the kernel, \<^verbatim>\<open>kernel/larch/boot.s\<close>: the Multiboot2 header by which a boot
  loader recognises the kernel, and \<open>_start\<close>, which sets up a stack and calls \<open>kernel_main\<close>
  with the loader's two registers. The processor and its stack are those of \<open>Context\<close>.
\<close>

section \<open>The header\<close>

text \<open>The words of the section: the two 16-bit zeros of the end tag make up one word.\<close>

definition header_length :: u32 where
  "header_length = 8"

definition multiboot2_header :: "u32 list" where
  "multiboot2_header =
     [0xE85250D6, 0, header_length, - (0xE85250D6 + 0 + header_length)] @ [0, 8]"

section \<open>The entry\<close>

text \<open>
  The linker chooses the top of the stack and the address of \<open>kernel_main\<close>; \<open>ret\<close> is the
  address of the instruction behind the call.
\<close>

definition boot_start :: "u32 \<Rightarrow> u32 \<Rightarrow> u32 \<Rightarrow> cpu \<Rightarrow> cpu" where
  "boot_start stk kmain ret s =
     (let s = s\<lparr>esp := stk\<rparr>;
          s = push (ebx s) s;
          s = push (eax s) s;
          s = push ret s in
      s\<lparr>eip := kmain\<rparr>)"

text \<open>The arguments that a C function finds above its return address.\<close>

definition c_arg :: "nat \<Rightarrow> cpu \<Rightarrow> u32" where
  "c_arg n s = read32 (c_mem s) (esp s + 4 + 4 * of_nat n)"

text \<open>From the loader's jump to \<open>_start\<close> into \<open>kernel_main\<close>, which finds its arguments on the stack.\<close>

definition machine_start ::
  "'a kernel_state_scheme services \<Rightarrow> layout \<Rightarrow> nat \<Rightarrow> u32 \<Rightarrow> u32 \<Rightarrow> u32 \<Rightarrow> cpu \<Rightarrow>
   'a kernel_state_scheme \<Rightarrow> 'a kernel_state_scheme res" where
  "machine_start E L fuel stk kmain ret c k =
     (let c = boot_start stk kmain ret c in kernel_main E L fuel (c_mem c) (c_arg 0 c) (c_arg 1 c) k)"

text \<open>Behind the call: one halt with interrupts off, and no loop around it.\<close>

definition boot_return :: "'a io_state_scheme \<Rightarrow> 'a io_state_scheme" where
  "boot_return s = privileged Hlt (privileged Cli s)"

section \<open>The stack\<close>

lemma boot_start_fields:
  "esp (boot_start stk kmain ret c) = stk - 12" "eip (boot_start stk kmain ret c) = kmain"
  "c_mem (boot_start stk kmain ret c) =
     write32 (stk - 12) ret (write32 (stk - 8) (eax c) (write32 (stk - 4) (ebx c) (c_mem c)))"
  by (simp_all add: boot_start_def push_def Let_def)

lemma boot_words_disjoint:
  "block (stk - 12) 4 \<inter> block (stk - 8) 4 = {}" "block (stk - 12) 4 \<inter> block (stk - 4) 4 = {}"
  "block (stk - 8) 4 \<inter> block (stk - 4) 4 = {}"
  using slots_disjoint [of 0 1 "stk - 12"] slots_disjoint [of 0 2 "stk - 12"] slots_disjoint [of 1 2 "stk - 12"] by simp_all

lemma boot_args:
  "c_arg 0 (boot_start stk kmain ret c) = eax c" "c_arg 1 (boot_start stk kmain ret c) = ebx c"
  "read32 (c_mem (boot_start stk kmain ret c)) (esp (boot_start stk kmain ret c)) = ret"
  using boot_words_disjoint [of stk]
  by (simp_all add: c_arg_def boot_start_fields read32_write32_other)

lemma boot_frame:
  assumes "x \<notin> block (stk - 12) 12"
  shows "c_mem (boot_start stk kmain ret c) x = c_mem c x"
proof -
  have "x \<notin> block (stk - 12) 4" "x \<notin> block (stk - 8) 4" "x \<notin> block (stk - 4) 4"
    using assms block_sub [of 0 12 "stk - 12"] block_sub [of 4 12 "stk - 12"] block_sub [of 8 12 "stk - 12"] by auto
  then show ?thesis by (simp add: boot_start_fields write32_frame)
qed

lemma boot_reads:
  "block a 4 \<inter> block (stk - 12) 12 = {} \<Longrightarrow> read32 (c_mem (boot_start stk kmain ret c)) a = read32 (c_mem c) a"
  by (rule read32_cong) (auto intro: boot_frame)

section \<open>Properties\<close>

text \<open>
  The loader accepts the header: the magic number is first and the first four words sum up
  to zero; but the length it declares is that of the end tag alone, not of the whole header.
\<close>

theorem header_checksum:
  "hd multiboot2_header = 0xE85250D6 \<and> sum_list (take 4 multiboot2_header) = 0 \<and>
   multiboot2_header ! 2 = 8 \<and> 4 * length multiboot2_header = 24"
  by (simp add: multiboot2_header_def header_length_def numeral_eq_Suc)

text \<open>
  C10. From the boot loader to the halt loop: a loader that follows the Multiboot2 protocol
  leaves its magic number in \<open>eax\<close> and in \<open>ebx\<close> the address of the boot information, whose
  second word is a reserved zero. \<open>_start\<close> hands both to \<open>kernel_main\<close> in the right order and
  the kernel boots; but the parser takes the header of the information for its end,
  so that both memory sizes stay zero whatever memory map the loader has passed. Assumed are the five functions that
  \<open>kernel_main\<close> calls and no source defines, as for the boot of the kernel, that the three words \<open>_start\<close> pushes do not lie on the
  reserved word of the boot information, and that the variables of the kernel are as the loader leaves them.
\<close>

theorem machine_boots:
  fixes k :: "'a kernel_state_scheme"
  assumes "services_ok E" "cold k" "0 < fuel"
    and "eax c = 0x36D76289" "read32 (c_mem c) (ebx c + 4) = 0"
    and "block (ebx c + 4) 4 \<inter> block (stk - 12) 12 = {}"
    and "multiboot2_memory_lower k = 0" "multiboot2_memory_upper k = 0"
  shows "\<exists>t. machine_start E L fuel stk kmain ret c k = Inl (Spinning (io_log t @ [Hlt])) \<and>
    eip (boot_start stk kmain ret c) = kmain \<and>
    kernel_boot E L fuel (c_mem (boot_start stk kmain ret c)) 0x36D76289 (ebx c) k = Inr t \<and>
    editor_wf t \<and> last (io_log t) = Sti \<and> multiboot2_memory_lower t = 0 \<and> multiboot2_memory_upper t = 0"
proof -
  let ?c = "boot_start stk kmain ret c"
  have chain: "tag_chain (c_mem ?c) (ebx c) []" "length ([] :: u32 list) < fuel"
    using boot_reads [OF assms(6), of kmain ret c] assms(3,5) by simp_all
  obtain t where t: "kernel_boot E L fuel (c_mem ?c) 0x36D76289 (ebx c) k = Inr t" "booted L 0 0 t"
    using boot_ok [OF assms(1,2) chain, of L] assms(7,8) by (auto elim: succeedsE)
  then show ?thesis
    using assms(4) boot_args [of stk kmain ret c]
    by (simp add: machine_start_def Let_def boot_start_fields(2) kernel_main_def halt_forever_def booted_def)
qed

text \<open>The processor as a loader leaves it, with empty boot information at 0x9000.\<close>

definition loaded_cpu :: cpu where
  "loaded_cpu = \<lparr>esp = 0, ebp = 0, ebx = 0x9000, esi = 0, edi = 0, eax = 0x36D76289, edx = 0, eip = 0x100000, c_mem = (\<lambda>_. 0)\<rparr>"

theorem machine_boots_witness:
  "\<exists>t. machine_start example_services example_layout 1 0x204000 0x100100 0x10000D loaded_cpu cold_example =
      Inl (Spinning (io_log t @ [Hlt])) \<and>
    eip (boot_start 0x204000 0x100100 0x10000D loaded_cpu) = 0x100100 \<and>
    kernel_boot example_services example_layout 1 (c_mem (boot_start 0x204000 0x100100 0x10000D loaded_cpu)) 0x36D76289
      (ebx loaded_cpu) cold_example = Inr t \<and>
    editor_wf t \<and> last (io_log t) = Sti \<and> multiboot2_memory_lower t = 0 \<and> multiboot2_memory_upper t = 0"
proof (rule machine_boots [OF example_services_ok cold_example_cold])
  show "block (ebx loaded_cpu + 4) 4 \<inter> block (0x204000 - 12) 12 = {}"
    by (auto simp: block_def loaded_cpu_def lessThan_nat_numeral lessThan_Suc)
qed (simp_all add: loaded_cpu_def read32_def cold_example_def)

end
