(* ===== verification/Kernel_Events.thy ===== *)
theory Kernel_Events
  imports Kernel_Main Mouse
begin

text \<open>
  The booted kernel under calls of its entry points: \<open>pit_handler\<close> of \<^verbatim>\<open>kernel/drivers/pit.c\<close>,
  \<open>shell_handle_key\<close> of \<^verbatim>\<open>kernel/shell/shell_main.c\<close> and \<open>mouse_handler\<close> of
  \<^verbatim>\<open>kernel/drivers/ps2_mouse.c\<close> on one state, in any order. The sources do not say who
  calls them: no code registers a handler or sets a gate, and the interrupt table that \<open>kernel_main\<close> loads has no present
  gate, so that the program as it stands never does. What is shown is what a caller may rely
  on.
\<close>

section \<open>State and calls\<close>

record system_state = kernel_state +
  s_mouse :: mouse_state

text \<open>The mouse driver works on its own variables and the machine's ports.\<close>

definition on_mouse :: "(mouse_state \<Rightarrow> mouse_state res) \<Rightarrow> system_state \<Rightarrow> system_state res" where
  "on_mouse f s =
     bindR (f ((s_mouse s)\<lparr>ins := ins s, io_log := io_log s\<rparr>)) (\<lambda>m.
     Inr (s\<lparr>ins := ins m, io_log := io_log m, s_mouse := m\<rparr>))"

datatype entry_call =
    Call_pit_handler
  | Call_shell_handle_key u8
  | Call_mouse_handler

fun kernel_call ::
  "(system_state \<Rightarrow> system_state) \<Rightarrow> string \<Rightarrow> entry_call \<Rightarrow> system_state \<Rightarrow> system_state res" where
  "kernel_call schedule build Call_pit_handler s = Inr (pit_handler schedule s)"
| "kernel_call schedule build (Call_shell_handle_key ch) s = shell_handle_key build ch s"
| "kernel_call schedule build Call_mouse_handler s = on_mouse mouse_handler s"

text \<open>The statics of the drivers when the kernel has booted.\<close>

definition mouse_power_on :: mouse_state where
  "mouse_power_on = \<lparr>ins = [], io_log = [], mouse_x = 0, mouse_y = 0, mouse_buttons = 0, mouse_cycle = 0,
     mouse_packet = [0, 0, 0]\<rparr>"

definition power_on :: "kernel_state \<Rightarrow> system_state" where
  "power_on k = kernel_state.extend k (system_state.fields mouse_power_on)"

definition ticks :: "entry_call list \<Rightarrow> nat" where
  "ticks calls = count_list calls Call_pit_handler"

text \<open>
  \<open>pit_handler\<close> calls \<open>schedule\<close>, which \<^verbatim>\<open>pit.c\<close> declares and \<^verbatim>\<open>kernel/sched/process.c\<close> defines, a file the
  Makefile does not link. As a parameter it may use the console and the ports, and leaves the variables of the other
  components alone, as the one of \<^verbatim>\<open>process.c\<close> does, which works on its own list (theory \<open>Process\<close>).
\<close>

definition sched_ok :: "(system_state \<Rightarrow> system_state) \<Rightarrow> bool" where
  "sched_ok schedule \<longleftrightarrow> (\<forall>s. vga_wf s \<longrightarrow> kept s (schedule s))"

section \<open>The invariant\<close>

text \<open>\<open>system_wf L n\<close>: the invariant of the running kernel after \<open>n\<close> timer interrupts.\<close>

definition system_wf :: "layout \<Rightarrow> nat \<Rightarrow> system_state \<Rightarrow> bool" where
  "system_wf L n s \<longleftrightarrow> editor_wf s \<and> mouse_wf (s_mouse s) \<and> tick_count s = of_nat n \<and>
     flat_table (tss_address L) (k_gdt s) \<and> t_esp0 (k_tss s) = 0x300000 \<and>
     idtp_base (k_idtp s) = idt_address L \<and> filter gate_present (k_idt s) = []"

text \<open>Steps that keep the invariant: output and port accesses, and what a key does.\<close>

lemma kept_system_wf: "system_wf L n s \<Longrightarrow> kept s s' \<Longrightarrow> system_wf L n s'"
  using kept_editor_wf [of s s'] kept_machine(2) [of s s'] kept_editor(4) [of s s']
  by (cases s; cases s'; simp add: system_wf_def editor_state.defs)

lemma handled_system_wf: "system_wf L n s \<Longrightarrow> handled s s' \<Longrightarrow> system_wf L n s'"
  by (cases s; cases s'; simp add: system_wf_def handled_def shell_state.defs)

lemma system_vga: "system_wf L n s \<Longrightarrow> vga_wf s"
  by (simp add: system_wf_def editor_vga)

section \<open>The calls keep it\<close>

lemma pit_call_wf:
  assumes "system_wf L n s" "sched_ok schedule" "Suc n < 3600000000"
  shows "system_wf L (Suc n) (pit_handler schedule s)"
proof -
  let ?t = "s\<lparr>tick_count := tick_count s + 1\<rparr>"
  have "unat (of_nat n + 1 :: u32) = Suc n"
    using unat_of_nat_u32 [of "Suc n"] assms(3) by (simp add: add.commute)
  then have t: "system_wf L (Suc n) ?t"
    using assms by (cases s) (simp add: system_wf_def editor_wf_def machine_wf_def vga_wf_def editor_line_def add.commute)
  then have "kept ?t (schedule ?t)"
    using assms(2) system_vga [OF t] by (simp add: sched_ok_def)
  then show ?thesis by (simp add: pit_handler_def kept_system_wf [OF t])
qed

lemma key_call_safe:
  assumes "system_wf L n s"
  shows "safe (shell_handle_key build ch s) (system_wf L n)"
proof -
  have "editor_wf s" using assms by (simp add: system_wf_def)
  from handle_key_handled [OF this] show ?thesis by (rule safe_weaken) (rule handled_system_wf [OF assms])
qed

lemma mouse_call_safe:
  assumes "system_wf L n s"
  shows "safe (on_mouse mouse_handler s) (system_wf L n)"
proof -
  have "mouse_wf ((s_mouse s)\<lparr>ins := ins s, io_log := io_log s\<rparr>)"
    using assms by (simp add: system_wf_def mouse_wf_def)
  moreover have "system_wf L n (s\<lparr>ins := ins m, io_log := io_log m, s_mouse := m\<rparr>)" if "mouse_wf m" for m
    using assms that
    by (cases s) (simp add: system_wf_def editor_wf_def machine_wf_def vga_wf_def editor_line_def)
  ultimately show ?thesis
    unfolding on_mouse_def by (intro safe_bindR [OF mouse_handler_safe]) auto
qed

text \<open>Every call counts itself.\<close>

lemma call_safe:
  assumes "system_wf L n s" "sched_ok schedule" "n + ticks [c] < 3600000000"
  shows "safe (kernel_call schedule build c s) (system_wf L (n + ticks [c]))"
  using assms pit_call_wf [OF assms(1,2)] key_call_safe [OF assms(1), of build] mouse_call_safe [OF assms(1)]
  by (cases c) (simp_all add: ticks_def)

lemma ticks_Cons: "ticks (c # calls) = ticks [c] + ticks calls"
  by (simp add: ticks_def)

lemma calls_safe:
  assumes "system_wf L n s" "sched_ok schedule" "n + ticks calls < 3600000000"
  shows "safe (foldR (kernel_call schedule build) calls s) (system_wf L (n + ticks calls))"
  using assms(1,3)
proof (induction calls arbitrary: n s)
  case (Cons c calls)
  note t = ticks_Cons [of c calls]
  have "safe (kernel_call schedule build c s) (system_wf L (n + ticks [c]))"
    using Cons.prems t by (intro call_safe [OF _ assms(2)]) simp_all
  then show ?case
    unfolding foldR.simps by (rule safe_bindR) (use Cons.IH [of "n + ticks [c]"] Cons.prems t in \<open>simp add: add.assoc\<close>)
qed (simp add: ticks_def)

lemma power_on_wf: "booted L l u k \<Longrightarrow> system_wf L 0 (power_on k)"
  by (cases k) (simp add: booted_def system_wf_def power_on_def kernel_state.extend_def system_state.fields_def mouse_wf_def
      mouse_power_on_def editor_wf_def machine_wf_def vga_wf_def editor_line_def)

lemma id_sched_ok: "sched_ok id"
  by (cases "undefined :: system_state") (simp add: sched_ok_def kept_def)

section \<open>Properties\<close>

text \<open>
  C3. Whoever calls the kernel's entry points, it does not go wrong. After \<open>kernel_boot\<close>, let there
  be any sequence of calls of \<open>pit_handler\<close>, of \<open>shell_handle_key\<close> with any byte and of \<open>mouse_handler\<close>, each
  run to its end before the next, with fewer than 3600000000 calls of \<open>pit_handler\<close> (416 days at 100 Hz) and whatever the devices
  answer. No call leaves an array, divides by zero, overflows or panics; one that does not
  return waits for a device or reboots. Afterwards the console, the files, the
  history and the typed line are well-formed, the mouse is on its screen, the tick counter
  is the number of timer calls, and the descriptor tables are as the boot left them. Assumed
  are a chain of boot information tags, that the five functions \<open>kernel_main\<close> calls and no source defines
  return and touch no variable of the modelled components (\<open>initramfs_init\<close> leaving a well-formed file table), and that the scheduler behind \<open>pit_handler\<close>
  leaves these variables alone. Nothing in the sources makes these calls: the last conjunct says that the loaded
  interrupt table has no present gate.
\<close>

theorem kernel_calls_safe:
  fixes k0 :: kernel_state
  assumes "services_ok E" "cold k0" "tag_chain m addr ts" "length ts < fuel"
    and "sched_ok schedule" "ticks calls < 3600000000"
  shows "\<exists>k. kernel_boot E L fuel m 0x36D76289 addr k0 = Inr k \<and>
    safe (foldR (kernel_call schedule build) calls (power_on k)) (\<lambda>s.
      editor_wf s \<and> 0 \<le> mouse_x (s_mouse s) \<and> mouse_x (s_mouse s) \<le> 1024 \<and>
      0 \<le> mouse_y (s_mouse s) \<and> mouse_y (s_mouse s) \<le> 768 \<and> unat (pit_get_tick s) = ticks calls \<and>
      flat_table (tss_address L) (k_gdt s) \<and> t_esp0 (k_tss s) = 0x300000 \<and>
      idtp_base (k_idtp s) = idt_address L \<and> filter gate_present (k_idt s) = [])"
proof -
  obtain k l u where k: "kernel_boot E L fuel m 0x36D76289 addr k0 = Inr k" "booted L l u k"
    using boot_ok [OF assms(1-4), of L] by (auto elim: succeedsE)
  have "safe (foldR (kernel_call schedule build) calls (power_on k)) (system_wf L (ticks calls))"
    using calls_safe [OF power_on_wf [OF k(2)] assms(5), of calls build] assms(6) by simp
  then show ?thesis
    using k(1) assms(6) by (intro exI [of _ k] conjI) (auto elim!: safe_weaken simp: system_wf_def mouse_wf_def pit_get_tick_def unat_of_nat_u32)
qed

theorem kernel_calls_safe_witness:
  "\<exists>k. kernel_boot example_services example_layout 2 boot_mem 0x36D76289 0x1000 cold_example = Inr k \<and>
    safe (foldR (kernel_call id ''now'') [Call_pit_handler, Call_shell_handle_key 0x6C, Call_mouse_handler] (power_on k)) (\<lambda>s.
      editor_wf s \<and> 0 \<le> mouse_x (s_mouse s) \<and> mouse_x (s_mouse s) \<le> 1024 \<and>
      0 \<le> mouse_y (s_mouse s) \<and> mouse_y (s_mouse s) \<le> 768 \<and>
      unat (pit_get_tick s) = ticks [Call_pit_handler, Call_shell_handle_key 0x6C, Call_mouse_handler] \<and>
      flat_table (tss_address example_layout) (k_gdt s) \<and> t_esp0 (k_tss s) = 0x300000 \<and>
      idtp_base (k_idtp s) = idt_address example_layout \<and> filter gate_present (k_idt s) = [])"
  by (rule kernel_calls_safe [OF example_services_ok cold_example_cold boot_mem_chain _ id_sched_ok]) (simp_all add: ticks_def)

end
