(* ===== verification/Terminal.thy ===== *)
theory Terminal
  imports Kprintf Process Libc
begin

text \<open>
  The terminal program \<^verbatim>\<open>usr/bin/terminal.rs\<close>: its own text driver over the video memory, and
  \<open>terminal_write\<close>, the function behind the system call \<open>SYS_WRITE\<close>. The cells are those of
  the console; \<open>usize\<close> has 32 bits and wraps around, as the build has no overflow checks.
\<close>

section \<open>State and operations\<close>

record terminal = io_state +
  tm_x :: u32
  tm_y :: u32
  tm_color :: u8
  tm_buffer :: "u16 list"

text \<open>The slice of the constructor shows what the video memory \<open>ram\<close> holds.\<close>

definition terminal_new :: "u16 list \<Rightarrow> io_state \<Rightarrow> terminal" where
  "terminal_new ram io =
     \<lparr>ins = ins io, io_log = io_log io, tm_x = 0, tm_y = 0, tm_color = 0x0F, tm_buffer = take (80 * 25) ram\<rparr>"

text \<open>\<open>(v as u16) | ((self.color as u16) << 8)\<close>\<close>

definition tm_cell :: "u16 \<Rightarrow> u8 \<Rightarrow> u16" where
  "tm_cell v color = v OR push_bit 8 (ucast color)"

definition term_set :: "int \<Rightarrow> u16 \<Rightarrow> terminal \<Rightarrow> terminal res" where
  "term_set i v s = bindR (buf_write (tm_buffer s) i v) (\<lambda>b. Inr (s\<lparr>tm_buffer := b\<rparr>))"

definition term_scroll :: "terminal \<Rightarrow> terminal res" where
  "term_scroll s =
     bindR (forR 1 25 (\<lambda>row. forR 0 80 (\<lambda>col s.
              bindR (buf_read (tm_buffer s) (row * 80 + col)) (\<lambda>v.
              term_set ((row - 1) * 80 + col) v s))) s) (\<lambda>s.
     bindR (forR 0 80 (\<lambda>col s. term_set ((25 - 1) * 80 + col) (tm_cell 0x20 (tm_color s)) s) s) (\<lambda>s.
     Inr (s\<lparr>tm_y := 24\<rparr>)))"

text \<open>The common end of \<open>putchar\<close> and \<open>write_bytes\<close>: wrap, scroll, store, advance.\<close>

definition term_glyph :: "u16 \<Rightarrow> terminal \<Rightarrow> terminal res" where
  "term_glyph v s =
     (let s = (if tm_x s \<ge> 80 then s\<lparr>tm_x := 0, tm_y := tm_y s + 1\<rparr> else s) in
      bindR (if tm_y s \<ge> 25 then term_scroll s else Inr s) (\<lambda>s.
      bindR (term_set (uint (tm_y s * 80 + tm_x s)) (tm_cell v (tm_color s)) s) (\<lambda>s.
      Inr (s\<lparr>tm_x := tm_x s + 1\<rparr>))))"

text \<open>A Rust \<open>char\<close> is a code point; \<open>c as u16\<close> keeps its low sixteen bits.\<close>

definition term_putchar :: "u32 \<Rightarrow> terminal \<Rightarrow> terminal res" where
  "term_putchar c s =
     (if c = 10 then Inr (s\<lparr>tm_x := 0, tm_y := tm_y s + 1\<rparr>)
      else if c = 13 then Inr (s\<lparr>tm_x := 0\<rparr>)
      else term_glyph (ucast c) s)"

definition term_write :: "u32 list \<Rightarrow> terminal \<Rightarrow> terminal res" where
  "term_write str = foldR term_putchar str"

definition write_byte :: "u8 \<Rightarrow> terminal \<Rightarrow> terminal res" where
  "write_byte b s =
     (if b = 10 then Inr (s\<lparr>tm_x := 0, tm_y := tm_y s + 1\<rparr>)
      else if b \<ge> 32 \<and> b \<le> 126 then term_glyph (ucast b) s
      else Inr s)"

definition write_bytes :: "u8 list \<Rightarrow> terminal \<Rightarrow> terminal res" where
  "write_bytes bytes = foldR write_byte bytes"

definition term_clear :: "terminal \<Rightarrow> terminal res" where
  "term_clear s =
     bindR (forR 0 (80 * 25) (\<lambda>i s. term_set i (tm_cell 0x20 (tm_color s)) s) s) (\<lambda>s.
     Inr (s\<lparr>tm_x := 0, tm_y := 0\<rparr>))"

definition term_set_color :: "u8 \<Rightarrow> u8 \<Rightarrow> terminal \<Rightarrow> terminal" where
  "term_set_color fg bg s = s\<lparr>tm_color := push_bit 4 bg OR fg\<rparr>"

definition term_set_cursor :: "terminal \<Rightarrow> terminal" where
  "term_set_cursor s =
     (let pos = (ucast (tm_y s * 80 + tm_x s) :: u16) in
      outb 0x3D5 (ucast (drop_bit 8 pos)) (outb 0x3D4 0x0E
        (outb 0x3D5 (ucast (pos AND 0xFF)) (outb 0x3D4 0x0F s))))"

definition terminal_write :: "mem \<Rightarrow> u32 \<Rightarrow> u32 \<Rightarrow> terminal \<Rightarrow> terminal res" where
  "terminal_write m p len s =
     (if p \<noteq> 0 \<and> len > 0
      then bindR (write_bytes (map (\<lambda>i. m (p + of_nat i)) [0..<unat len]) s) (\<lambda>s. Inr (term_set_cursor s))
      else Inr s)"

definition terminal_clear :: "terminal \<Rightarrow> terminal res" where
  "terminal_clear s = bindR (term_clear s) (\<lambda>s. Inr (term_set_cursor s))"

definition terminal_set_color :: "u8 \<Rightarrow> u8 \<Rightarrow> terminal \<Rightarrow> terminal" where
  "terminal_set_color fg bg = term_set_color fg bg"

text \<open>\<open>_start\<close> up to its halt loop.\<close>

definition terminal_start :: "terminal \<Rightarrow> terminal res" where
  "terminal_start = seqR
     [term_clear,
      Inr \<circ> term_set_color 0x0A 0x00,
      write_bytes (map of_char ([NL] @ ''Larch Terminal v1.0'' @ [NL])),
      Inr \<circ> term_set_color 0x0F 0x00,
      write_bytes (map of_char ''$> ''),
      Inr \<circ> term_set_cursor]"

text \<open>
  The panic handler up to its halt loop, with the source file, the line, which
  \<open>to_string\<close> turns into decimal digits, and the message, where the panic information has them.
\<close>

definition terminal_panic :: "(u8 list \<times> u32) option \<Rightarrow> u8 list option \<Rightarrow> terminal \<Rightarrow> terminal res" where
  "terminal_panic location msg s =
     bindR (case location of
              None \<Rightarrow> Inr (term_set_color 0x0C 0x00 s)
            | Some (file, line) \<Rightarrow> seqR
                [term_write (map ucast file), write_bytes (map of_char '':''), term_write (map ucast (dec_string (unat line)))]
                (term_set_color 0x0C 0x00 s)) (\<lambda>s.
     bindR (write_bytes (map of_char ([NL] @ ''PANIC: '')) s) (\<lambda>s.
     case msg of None \<Rightarrow> Inr s | Some bytes \<Rightarrow> write_bytes bytes s))"

section \<open>Scrolling and clearing\<close>

interpretation term_cells: cell_array tm_buffer "\<lambda>b s. s\<lparr>tm_buffer := b\<rparr>"
  by unfold_locales simp_all

lemma term_scroll_eq:
  assumes "length (tm_buffer s) = 2000"
  shows "term_scroll s = Inr (s\<lparr>tm_buffer := drop 80 (tm_buffer s) @ replicate 80 (tm_cell 0x20 (tm_color s)), tm_y := 24\<rparr>)"
  unfolding term_scroll_def term_set_def
  using assms by (subst term_cells.scroll_rows_then) simp_all

lemma term_clear_eq:
  assumes "length (tm_buffer s) = 2000"
  shows "term_clear s = Inr (s\<lparr>tm_buffer := replicate 2000 (tm_cell 0x20 (tm_color s)), tm_x := 0, tm_y := 0\<rparr>)"
  using assms term_cells.fill_loop [of 0 2000 s "\<lambda>s. tm_cell 0x20 (tm_color s)"]
  by (simp add: term_clear_def term_set_def)

section \<open>Safety\<close>

definition term_wf :: "terminal \<Rightarrow> bool" where
  "term_wf s \<longleftrightarrow> length (tm_buffer s) = 2000 \<and> tm_x s \<le> 80"

text \<open>The glyph in closed form: where it goes and what has scrolled.\<close>

definition wrapped :: "terminal \<Rightarrow> terminal" where
  "wrapped s = (if tm_x s \<ge> 80 then s\<lparr>tm_x := 0, tm_y := tm_y s + 1\<rparr> else s)"

definition scrolled :: "terminal \<Rightarrow> terminal" where
  "scrolled s = (if tm_y s \<ge> 25
     then s\<lparr>tm_buffer := drop 80 (tm_buffer s) @ replicate 80 (tm_cell 0x20 (tm_color s)), tm_y := 24\<rparr> else s)"

definition tm_pos :: "terminal \<Rightarrow> nat" where
  "tm_pos s = 80 * unat (tm_y s) + unat (tm_x s)"

lemma tm_index:
  assumes "tm_y s < 25" "tm_x s < 80"
  shows "unat (tm_y s * 80 + tm_x s) = tm_pos s" "tm_pos s < 2000"
proof -
  have "unat (tm_y s) < 25" "unat (tm_x s) < 80" using assms by (simp_all add: word_less_nat_alt)
  then show "unat (tm_y s * 80 + tm_x s) = tm_pos s" "tm_pos s < 2000"
    by (simp_all add: tm_pos_def unat_word_ariths)
qed

lemma term_glyph_eq:
  assumes "term_wf s"
  shows "term_glyph v s = (let t = scrolled (wrapped s) in
      Inr (t\<lparr>tm_buffer := (tm_buffer t)[tm_pos t := tm_cell v (tm_color t)], tm_x := tm_x t + 1\<rparr>)) \<and>
    length (tm_buffer (scrolled (wrapped s))) = 2000 \<and> tm_x (scrolled (wrapped s)) < 80 \<and> tm_y (scrolled (wrapped s)) < 25"
proof -
  define w where "w = wrapped s"
  define t where "t = scrolled w"
  have w: "length (tm_buffer w) = 2000" "tm_x w < 80"
    using assms by (auto simp: term_wf_def w_def wrapped_def not_le)
  have t: "length (tm_buffer t) = 2000" "tm_x t < 80" "tm_y t < 25"
    using w by (auto simp: t_def scrolled_def not_le)
  have c: "(if tm_y w \<ge> 25 then term_scroll w else Inr w) = Inr t"
    using term_scroll_eq [OF w(1)] by (simp add: t_def scrolled_def)
  have i: "uint (tm_y t * 80 + tm_x t) = int (tm_pos t)" "tm_pos t < 2000"
    using arg_cong [OF tm_index(1) [OF t(3,2)], of int] tm_index(2) [OF t(3,2)] by simp_all
  have "term_glyph v s = Inr (t\<lparr>tm_buffer := (tm_buffer t)[tm_pos t := tm_cell v (tm_color t)], tm_x := tm_x t + 1\<rparr>)"
    unfolding term_glyph_def Let_def wrapped_def [symmetric] w_def [symmetric] c
    using i t(1) by (simp add: term_set_def buf_simps)
  then show ?thesis using t unfolding t_def w_def Let_def by (intro conjI)
qed

lemma term_glyph_wf:
  assumes "term_wf s"
  shows "succeeds (term_glyph v s) (\<lambda>t. term_wf t \<and> tm_color t = tm_color s \<and> tm_y t < 25)"
proof -
  let ?t = "scrolled (wrapped s)"
  have t: "length (tm_buffer ?t) = 2000" "tm_x ?t < 80" "tm_y ?t < 25" using term_glyph_eq [OF assms] by auto
  then have "tm_x ?t + 1 \<le> 80" by (intro inc_le)
  moreover have "tm_color ?t = tm_color s" by (simp add: scrolled_def wrapped_def)
  ultimately show ?thesis
    using term_glyph_eq [OF assms, of v] t by (simp add: Let_def term_wf_def)
qed

lemma write_byte_wf: "term_wf s \<Longrightarrow> succeeds (write_byte b s) (\<lambda>t. term_wf t \<and> tm_color t = tm_color s)"
  using term_glyph_wf [of s "ucast b"] by (auto simp: write_byte_def term_wf_def elim: succeeds_weaken)

lemma putchar_wf: "term_wf s \<Longrightarrow> succeeds (term_putchar c s) (\<lambda>t. term_wf t \<and> tm_color t = tm_color s)"
  using term_glyph_wf [of s "ucast c"] by (auto simp: term_putchar_def term_wf_def elim: succeeds_weaken)

lemma write_bytes_wf:
  assumes "term_wf s"
  shows "succeeds (write_bytes bytes s) (\<lambda>t. term_wf t \<and> tm_color t = tm_color s)"
  unfolding write_bytes_def
  by (rule succeeds_foldR) (use assms in \<open>auto intro: succeeds_weaken [OF write_byte_wf]\<close>)

lemma term_write_wf:
  assumes "term_wf s"
  shows "succeeds (term_write str s) (\<lambda>t. term_wf t \<and> tm_color t = tm_color s)"
  unfolding term_write_def
  by (rule succeeds_foldR) (use assms in \<open>auto intro: succeeds_weaken [OF putchar_wf]\<close>)

lemma term_wf_simps [simp]:
  "term_wf (term_set_color fg bg s) = term_wf s" "term_wf (term_set_cursor s) = term_wf s"
  by (simp_all add: term_wf_def term_set_color_def term_set_cursor_def outb_def Let_def)

lemma cursor_fields [simp]:
  "tm_buffer (term_set_cursor s) = tm_buffer s" "tm_x (term_set_cursor s) = tm_x s" "tm_y (term_set_cursor s) = tm_y s"
  "tm_color (term_set_cursor s) = tm_color s"
  by (simp_all add: term_set_cursor_def outb_def Let_def)

section \<open>What appears on the screen\<close>

definition printable :: "u8 \<Rightarrow> bool" where
  "printable b \<longleftrightarrow> 32 \<le> b \<and> b \<le> 126"

lemma glyph_at:
  assumes "term_wf s" "tm_pos s < 2000"
  shows "\<exists>t. term_glyph v s = Inr t \<and> term_wf t \<and> tm_color t = tm_color s \<and> io_log t = io_log s \<and> tm_pos t = Suc (tm_pos s) \<and>
    tm_buffer t = (tm_buffer s)[tm_pos s := tm_cell v (tm_color s)]"
proof -
  let ?w = "wrapped s"
  have x: "unat (tm_x s) \<le> 80" using assms(1) by (simp add: term_wf_def word_le_nat_alt)
  have y: "unat (tm_y s) < 25" using assms(2) by (simp add: tm_pos_def)
  have w: "tm_pos ?w = tm_pos s" "tm_buffer ?w = tm_buffer s" "tm_color ?w = tm_color s" "io_log ?w = io_log s"
    using x y by (auto simp: wrapped_def tm_pos_def word_le_nat_alt unat_word_ariths)
  then have "unat (tm_y ?w) < 25" using assms(2) by (simp add: tm_pos_def)
  then have c: "scrolled ?w = ?w" by (simp add: scrolled_def word_le_nat_alt)
  have "tm_x ?w < 80" using term_glyph_eq [OF assms(1), of v] c by simp
  then have "unat (tm_x ?w + 1) = Suc (unat (tm_x ?w))" by (rule unat_inc)
  then show ?thesis
    using term_glyph_eq [OF assms(1), of v] term_glyph_wf [OF assms(1), of v] c w
    by (simp add: Let_def tm_pos_def)
qed

lemma write_printable:
  assumes "term_wf s" "list_all printable bs" "tm_pos s + length bs \<le> 2000"
  shows "\<exists>t. write_bytes bs s = Inr t \<and> term_wf t \<and> tm_color t = tm_color s \<and> io_log t = io_log s \<and> tm_pos t = tm_pos s + length bs \<and>
    tm_buffer t = take (tm_pos s) (tm_buffer s) @ map (\<lambda>b. tm_cell (ucast b) (tm_color s)) bs @
      drop (tm_pos s + length bs) (tm_buffer s)"
  using assms
proof (induction bs arbitrary: s)
  case Nil
  then show ?case by (simp add: write_bytes_def)
next
  case (Cons b bs)
  have b: "b \<noteq> 10" using Cons.prems(2) by (auto simp: printable_def)
  then have "write_byte b s = term_glyph (ucast b) s" using Cons.prems(2) by (simp add: write_byte_def printable_def)
  with glyph_at [OF Cons.prems(1), of "ucast b"] Cons.prems(3) obtain t where
    t: "write_byte b s = Inr t" "term_wf t" "tm_color t = tm_color s" "io_log t = io_log s" "tm_pos t = Suc (tm_pos s)"
      "tm_buffer t = (tm_buffer s)[tm_pos s := tm_cell (ucast b) (tm_color s)]" by auto
  have "tm_pos s < length (tm_buffer s)" using Cons.prems(1,3) by (simp add: term_wf_def)
  then have "take (Suc (tm_pos s)) (tm_buffer t) = take (tm_pos s) (tm_buffer s) @ [tm_cell (ucast b) (tm_color s)]"
    unfolding t(6) by (simp add: take_Suc_conv_app_nth)
  then show ?case
    using Cons.IH [OF t(2)] Cons.prems(2,3) t by (simp add: write_bytes_def)
qed

text \<open>Newlines move down without scrolling; the next glyph scrolls once.\<close>

lemma write_newlines:
  "write_bytes (replicate k 10) s = Inr (if k = 0 then s else s\<lparr>tm_x := 0, tm_y := tm_y s + of_nat k\<rparr>)"
proof (induction k arbitrary: s)
  case (Suc k)
  then show ?case by (simp add: write_bytes_def write_byte_def algebra_simps)
qed (simp add: write_bytes_def)

lemma glyph_below:
  assumes "length (tm_buffer s) = 2000" "tm_x s = 0" "25 \<le> tm_y s"
  shows "term_glyph v s = Inr (s\<lparr>tm_buffer := (drop 80 (tm_buffer s) @ replicate 80 (tm_cell 0x20 (tm_color s)))[1920 := tm_cell v (tm_color s)],
    tm_x := 1, tm_y := 24\<rparr>)"
proof -
  have "term_wf s" using assms by (simp add: term_wf_def)
  moreover have "wrapped s = s" using assms by (simp add: wrapped_def)
  moreover have "tm_pos (scrolled s) = 1920" using assms by (simp add: scrolled_def tm_pos_def)
  ultimately show ?thesis
    using term_glyph_eq [of s v] assms by (simp add: Let_def) (simp add: scrolled_def)
qed

lemma newlines_glyph:
  assumes "term_wf s" "tm_y s = 24" "0 < k" "k < 2 ^ 32 - 24" "printable b"
  shows "write_bytes (replicate k 10 @ [b]) s = Inr (s\<lparr>tm_buffer :=
    (drop 80 (tm_buffer s) @ replicate 80 (tm_cell 0x20 (tm_color s)))[1920 := tm_cell (ucast b) (tm_color s)],
    tm_x := 1, tm_y := 24\<rparr>)"
proof -
  let ?s = "s\<lparr>tm_x := 0, tm_y := 24 + of_nat k\<rparr>"
  have "unat (24 + of_nat k :: u32) = 24 + k"
    using unat_of_nat_u32 [of "24 + k"] assms(4) by (simp add: of_nat_add)
  then have "25 \<le> tm_y ?s" using assms(3) by (simp add: word_le_nat_alt)
  then have g: "term_glyph (ucast b) ?s = Inr (?s\<lparr>tm_buffer :=
      (drop 80 (tm_buffer s) @ replicate 80 (tm_cell 0x20 (tm_color s)))[1920 := tm_cell (ucast b) (tm_color s)], tm_x := 1, tm_y := 24\<rparr>)"
    using glyph_below [of ?s] assms(1) by (simp add: term_wf_def)
  have "b \<noteq> 10" "write_bytes (replicate k 10) s = Inr ?s"
    using assms(2,3,5) write_newlines [of k s] by (auto simp: printable_def)
  then show ?thesis
    using g assms(5) unfolding write_bytes_def by (simp add: foldR_append write_byte_def printable_def)
qed

text \<open>The cursor registers name the cell behind the last one written.\<close>

lemma u16_bytes:
  fixes p :: u16
  shows "unat (ucast (p AND 0xFF) :: u8) = unat p mod 256" "unat (ucast (drop_bit 8 p) :: u8) = unat p div 256"
proof -
  show "unat (ucast (p AND 0xFF) :: u8) = unat p mod 256"
    by (simp only: and_mask_simps unsigned_ucast_eq unsigned_take_bit_eq) (simp add: take_bit_eq_mod)
  have p: "unat p < 65536" using unsigned_less [of p] by simp
  show "unat (ucast (drop_bit 8 p) :: u8) = unat p div 256"
    using p by (simp only: unsigned_ucast_eq unat_drop_bit_eq) (simp add: take_bit_eq_mod drop_bit_eq_div)
qed

lemma set_cursor_log:
  assumes "tm_pos s < 2 ^ 16"
  shows "\<exists>lo hi. io_log (term_set_cursor s) = io_log s @ [Out 0x3D4 0x0F, Out 0x3D5 lo, Out 0x3D4 0x0E, Out 0x3D5 hi] \<and>
    unat lo + 256 * unat hi = tm_pos s"
proof -
  define p where "p = (ucast (tm_y s * 80 + tm_x s) :: u16)"
  have "unat (tm_y s * 80 + tm_x s) = tm_pos s"
    using assms by (simp add: tm_pos_def unat_word_ariths mult.commute)
  then have p: "unat p = tm_pos s" using assms unfolding p_def by (simp only: unsigned_ucast_eq) (simp add: take_bit_nat_eq_self)
  show ?thesis
    unfolding p [symmetric] term_set_cursor_def p_def [symmetric] Let_def
    by (intro exI [of _ "ucast (p AND 0xFF)"] exI [of _ "ucast (drop_bit 8 p)"]) (simp only: outb_simps u16_bytes, simp)
qed

section \<open>The system call\<close>

text \<open>
  The system call interface around the terminal: a failed write ends the call. The bytes of
  the caller are read from the memory \<open>m\<close>.
\<close>

definition term_syscall :: "mem \<Rightarrow> u32 \<Rightarrow> u32 \<Rightarrow> terminal res \<Rightarrow> terminal res" where
  "term_syscall m p len r = bindR r (terminal_write m p len)"

definition bytes_at :: "mem \<Rightarrow> u32 \<Rightarrow> u32 \<Rightarrow> u8 list" where
  "bytes_at m p len = map (\<lambda>i. m (p + of_nat i)) [0..<unat len]"

lemma terminal_write_ok:
  assumes "term_wf s"
  shows "succeeds (terminal_write m p len s) (\<lambda>t. term_wf t \<and> tm_color t = tm_color s)"
  using write_bytes_wf [OF assms] assms unfolding terminal_write_def by (auto intro!: succeeds_bindR)

lemma terminal_write_shows:
  assumes "term_wf s" "p \<noteq> 0" "0 < len" "list_all printable (bytes_at m p len)" "tm_pos s + unat len \<le> 2000"
  shows "\<exists>t lo hi. terminal_write m p len s = Inr t \<and>
    tm_buffer t = take (tm_pos s) (tm_buffer s) @ map (\<lambda>b. tm_cell (ucast b) (tm_color s)) (bytes_at m p len) @
      drop (tm_pos s + unat len) (tm_buffer s) \<and>
    term_wf t \<and> tm_pos t = tm_pos s + unat len \<and> tm_color t = tm_color s \<and>
    io_log t = io_log s @ [Out 0x3D4 0x0F, Out 0x3D5 lo, Out 0x3D4 0x0E, Out 0x3D5 hi] \<and>
    unat lo + 256 * unat hi = tm_pos s + unat len"
proof -
  have len: "length (bytes_at m p len) = unat len" by (simp add: bytes_at_def)
  then obtain t where t: "write_bytes (bytes_at m p len) s = Inr t" "term_wf t" "io_log t = io_log s"
    "tm_pos t = tm_pos s + unat len"
    "tm_buffer t = take (tm_pos s) (tm_buffer s) @ map (\<lambda>b. tm_cell (ucast b) (tm_color s)) (bytes_at m p len) @
      drop (tm_pos s + unat len) (tm_buffer s)"
    using write_printable [OF assms(1,4)] assms(5) by auto
  then have eq: "terminal_write m p len s = Inr (term_set_cursor t)"
    using assms(2,3) unfolding terminal_write_def bytes_at_def by simp
  have "tm_color (term_set_cursor t) = tm_color s" using terminal_write_ok [OF assms(1), of m p len] eq by simp
  moreover have "tm_pos (term_set_cursor t) = tm_pos t" by (simp add: term_set_cursor_def tm_pos_def Let_def outb_def)
  moreover have "tm_pos t < 2 ^ 16" using t(4) assms(5) by simp
  ultimately show ?thesis using eq t set_cursor_log [of t] by auto
qed

section \<open>Starting\<close>

abbreviation banner :: string where "banner \<equiv> ''Larch Terminal v1.0''"

lemma banner_printable: "list_all printable (map of_char banner)" "list_all printable (map of_char ''$> '')"
  by (simp_all add: printable_def)

lemma terminal_start_eq:
  assumes "length (tm_buffer s) = 2000"
  shows "\<exists>t. terminal_start s = Inr t \<and> term_wf t \<and> tm_pos t = 163 \<and> tm_color t = 0x0F \<and>
    tm_buffer t = (let sp = tm_cell 0x20 (tm_color s); row = (\<lambda>w color. map (\<lambda>c. tm_cell (ucast (of_char c :: u8)) color) w) in
      replicate 80 sp @ row banner 0x0A @ replicate 61 sp @ row ''$> '' 0x0F @ replicate 1837 sp)"
proof -
  let ?sp = "tm_cell 0x20 (tm_color s)"
  let ?r = "\<lambda>w color. map (\<lambda>c. tm_cell (ucast (of_char c :: u8)) color) w"
  define s1 where "s1 = s\<lparr>tm_buffer := replicate 2000 ?sp, tm_color := 0x0A, tm_x := 0, tm_y := 1\<rparr>"
  have s1: "term_wf s1" "tm_pos s1 = 80" by (simp_all add: s1_def term_wf_def tm_pos_def)
  obtain t1 where t1: "write_bytes (map of_char banner) s1 = Inr t1" "term_wf t1" "tm_pos t1 = 99"
    "tm_buffer t1 = replicate 80 ?sp @ ?r banner 0x0A @ replicate 1901 ?sp"
    using write_printable [OF s1(1) banner_printable(1)] s1(2) by (auto simp: s1_def take_replicate drop_replicate comp_def)
  have "80 * unat (tm_y t1) + unat (tm_x t1) = 99" "unat (tm_x t1) \<le> 80"
    using t1(2,3) by (simp_all add: tm_pos_def term_wf_def word_le_nat_alt)
  then have "unat (tm_y t1) = 1" by presburger
  then have y: "tm_y t1 = 1" by (simp add: word_unat_eq_iff)
  define s2 where "s2 = t1\<lparr>tm_x := 0, tm_y := 2, tm_color := 0x0F\<rparr>"
  have s2: "term_wf s2" "tm_pos s2 = 160" "tm_color s2 = 0x0F" "tm_buffer s2 = tm_buffer t1"
    using t1(2) by (simp_all add: s2_def term_wf_def tm_pos_def)
  obtain t2 where t2: "write_bytes (map of_char ''$> '') s2 = Inr t2" "term_wf t2" "tm_pos t2 = 163" "tm_color t2 = 0x0F"
    "tm_buffer t2 = take 160 (tm_buffer t1) @ ?r ''$> '' 0x0F @ drop 163 (tm_buffer t1)"
    using write_printable [OF s2(1) banner_printable(2)] s2 by (auto simp: comp_def)
  have nl: "write_bytes (map of_char ([NL] @ w @ [NL])) u = bindR (write_bytes (map of_char w) (u\<lparr>tm_x := 0, tm_y := tm_y u + 1\<rparr>))
      (\<lambda>u. Inr (u\<lparr>tm_x := 0, tm_y := tm_y u + 1\<rparr>))" for w u
    unfolding write_bytes_def
    by (simp add: foldR_append write_byte_def) (intro bindR_cong refl, simp add: write_byte_def)
  have "terminal_start s = Inr (term_set_cursor t2)"
    unfolding terminal_start_def
    using term_clear_eq [OF assms] t1(1) t2(1) y
    by (simp only: seqR.simps nl bindR_Inr comp_apply term_set_color_def) (simp add: s1_def s2_def term_set_color_def)
  moreover have "tm_buffer t2 = replicate 80 ?sp @ ?r banner 0x0A @ replicate 61 ?sp @ ?r ''$> '' 0x0F @ replicate 1837 ?sp"
    unfolding t2(5) t1(4) by (simp add: take_replicate drop_replicate)
  ultimately show ?thesis
    using t2(2-4) by (simp add: tm_pos_def Let_def)
qed

lemma terminal_panic_wf:
  assumes "term_wf s"
  shows "succeeds (terminal_panic location msg s) term_wf"
proof -
  let ?s = "term_set_color 0x0C 0x00 s"
  have wf: "term_wf ?s" using assms by simp
  have steps: "succeeds (write_bytes b t) term_wf" "succeeds (term_write c t) term_wf" if "term_wf t" for b c t
    using that write_bytes_wf [of t b] term_write_wf [of t c] by (auto elim: succeeds_weaken)
  have "succeeds (seqR [term_write f, write_bytes c, term_write l] ?s) term_wf" for f c l
    by (rule succeeds_seqR) (use wf steps in auto)
  then have "succeeds (case location of None \<Rightarrow> Inr ?s | Some (file, line) \<Rightarrow> seqR
      [term_write (map ucast file), write_bytes (map of_char '':''), term_write (map ucast (dec_string (unat line)))] ?s) term_wf"
    using wf by (cases location) auto
  moreover have "succeeds (bindR (write_bytes b t) (\<lambda>s. case msg of None \<Rightarrow> Inr s | Some bytes \<Rightarrow> write_bytes bytes s)) term_wf"
    if "term_wf t" for t b
    by (rule succeeds_bindR [OF steps(1) [OF that]]) (auto split: option.split intro: steps)
  ultimately show ?thesis
    unfolding terminal_panic_def by (rule succeeds_bindR)
qed

definition term_example :: terminal where
  "term_example = \<lparr>ins = [], io_log = [], tm_x = 0, tm_y = 24, tm_color = 0x0F, tm_buffer = replicate 2000 0x0F20\<rparr>"

definition hello_mem :: mem where
  "hello_mem a = (if a = 0x5000 then 0x48 else if a = 0x5001 then 0x69 else 0)"

lemma term_example_wf: "term_wf term_example"
  by (simp add: term_wf_def term_example_def)

section \<open>Properties\<close>

text \<open>
  C14. The terminal never leaves the screen: whatever pointer, length and bytes a program
  passes to \<open>terminal_write\<close>, and whatever it has written before, every store is within the
  2000 cells and the call returns with the driver's invariant; the panic handler does too.
\<close>

theorem terminal_write_safe:
  assumes "term_wf s"
  shows "\<exists>t u. terminal_write m p len s = Inr t \<and> term_wf t \<and> tm_color t = tm_color s \<and>
    terminal_panic location msg t = Inr u \<and> term_wf u"
  using terminal_write_ok [OF assms, of m p len] terminal_panic_wf [of _ location msg]
  by (fastforce simp: succeeds_iff)

theorem terminal_write_safe_witness:
  "\<exists>t u. terminal_write hello_mem 0x5000 0xFFFFFFFF term_example = Inr t \<and> term_wf t \<and> tm_color t = tm_color term_example \<and>
    terminal_panic (Some ([0x78], 7)) None t = Inr u \<and> term_wf u"
  by (rule terminal_write_safe [OF term_example_wf])

text \<open>
  C13. The write call puts its text on the screen: \<open>syscall_handler\<close> with the number \<open>SYS_WRITE\<close>, a
  pointer that is not null and a positive length, and \<open>terminal_write\<close> of \<^verbatim>\<open>terminal.rs\<close> behind it. If the bytes are printable and fit between the cursor and the
  end of the screen (cursor position plus length at most 2000, so that nothing scrolls), they appear cell by cell, across line ends, at the
  cursor and in the current colour; all other cells, the colour and the driver's invariant are kept, the cursor is placed behind the text, by the four
  writes to its registers, and the call answers the number of bytes. How the call is entered is left open: the
  loaded interrupt table has no gate for interrupt 0x80.
\<close>

theorem syscall_write_prints:
  assumes "term_wf s" "p \<noteq> 0" "0 < len" "list_all printable (bytes_at m p len)" "tm_pos s + unat len \<le> 2000"
  shows "\<exists>t lo hi. syscall_handler (term_syscall m) sys_alloc sys_free SYS_WRITE p len a3 (Inr s) = (len, Inr t) \<and>
    tm_buffer t = take (tm_pos s) (tm_buffer s) @ map (\<lambda>b. tm_cell (ucast b) (tm_color s)) (bytes_at m p len) @
      drop (tm_pos s + unat len) (tm_buffer s) \<and>
    term_wf t \<and> tm_pos t = tm_pos s + unat len \<and> tm_color t = tm_color s \<and>
    io_log t = io_log s @ [Out 0x3D4 0x0F, Out 0x3D5 lo, Out 0x3D4 0x0E, Out 0x3D5 hi] \<and>
    unat lo + 256 * unat hi = tm_pos s + unat len"
  using terminal_write_shows [OF assms] by (auto simp: syscall_handler_def term_syscall_def)

theorem syscall_write_prints_witness:
  "\<exists>t lo hi. syscall_handler (term_syscall hello_mem) (\<lambda>n r. (0, r)) (\<lambda>p n r. r) SYS_WRITE 0x5000 2 0 (Inr term_example) = (2, Inr t) \<and>
    tm_buffer t = take (tm_pos term_example) (tm_buffer term_example) @
      map (\<lambda>b. tm_cell (ucast b) (tm_color term_example)) (bytes_at hello_mem 0x5000 2) @
      drop (tm_pos term_example + unat (2 :: u32)) (tm_buffer term_example) \<and>
    term_wf t \<and> tm_pos t = tm_pos term_example + unat (2 :: u32) \<and> tm_color t = tm_color term_example \<and>
    io_log t = io_log term_example @ [Out 0x3D4 0x0F, Out 0x3D5 lo, Out 0x3D4 0x0E, Out 0x3D5 hi] \<and>
    unat lo + 256 * unat hi = tm_pos term_example + unat (2 :: u32)"
  by (rule syscall_write_prints [OF term_example_wf])
    (simp_all add: bytes_at_def hello_mem_def printable_def upt_rec tm_pos_def term_example_def)

text \<open>
  C15. Empty lines are lost at the bottom of the screen: on the last row, however many newlines
  precede a character, the screen scrolls by one row only, because a newline moves the
  cursor below the screen and the next character brings it back with one scroll.
\<close>

theorem terminal_loses_blank_lines:
  assumes "term_wf s" "tm_y s = 24" "0 < k" "k < 2 ^ 32 - 24" "printable b"
  shows "write_bytes (replicate k 10 @ [b]) s = write_bytes [10, b] s \<and>
    write_bytes (replicate k 10 @ [b]) s = Inr (s\<lparr>tm_buffer :=
      (drop 80 (tm_buffer s) @ replicate 80 (tm_cell 0x20 (tm_color s)))[1920 := tm_cell (ucast b) (tm_color s)],
      tm_x := 1, tm_y := 24\<rparr>)"
  using newlines_glyph [OF assms] newlines_glyph [of s 1 b] assms by simp

theorem terminal_loses_blank_lines_witness:
  "write_bytes (replicate 7 10 @ [0x48]) term_example = write_bytes [10, 0x48] term_example \<and>
    write_bytes (replicate 7 10 @ [0x48]) term_example = Inr (term_example\<lparr>tm_buffer :=
      (drop 80 (tm_buffer term_example) @ replicate 80 (tm_cell 0x20 (tm_color term_example)))
        [1920 := tm_cell (ucast (0x48 :: u8)) (tm_color term_example)], tm_x := 1, tm_y := 24\<rparr>)"
  by (rule terminal_loses_blank_lines [OF term_example_wf]) (simp_all add: term_example_def printable_def)

text \<open>
  The terminal starts with its banner in light green on the second row and the prompt in
  white on the third, the cursor behind the prompt, and everything else blank.
\<close>

theorem terminal_starts:
  assumes "length (tm_buffer s) = 2000"
  shows "\<exists>t. terminal_start s = Inr t \<and> term_wf t \<and> tm_pos t = 163 \<and> tm_color t = 0x0F \<and>
    tm_buffer t = (let sp = tm_cell 0x20 (tm_color s); row = (\<lambda>w color. map (\<lambda>c. tm_cell (ucast (of_char c :: u8)) color) w) in
      replicate 80 sp @ row banner 0x0A @ replicate 61 sp @ row ''$> '' 0x0F @ replicate 1837 sp)"
  using assms by (rule terminal_start_eq)

text \<open>
  A character above 0xFF written with \<open>putchar\<close> changes the colour of its cell: the bits of
  the code point from 8 on are merged into the attribute byte.
\<close>

theorem wide_char_attribute:
  "drop_bit 8 (tm_cell (ucast c) color) = (ucast color OR drop_bit 8 (ucast c :: u16) :: u16)" for c :: u32
proof (rule bit_word_eqI)
  fix n :: nat
  have "bit color n \<Longrightarrow> n < 8" using bit_imp_le_length [of color n] by auto
  then show "n < LENGTH(16) \<Longrightarrow> bit (drop_bit 8 (tm_cell (ucast c) color)) n = bit (ucast color OR drop_bit 8 (ucast c :: u16) :: u16) n"
    by (auto simp: tm_cell_def bit_simps bit_imp_le_length)
qed

end
