(* ===== verification/Paging.thy ===== *)
theory Paging
  imports Vmm
begin

text \<open>
  Long-mode paging, \<^verbatim>\<open>kernel/larch/paging.rs\<close>: the operations on a 64-bit table entry, the
  static tables and \<open>init_paging\<close>, and \<open>map_page\<close> over four levels. The tables are reached
  through addresses, the static ones too once an entry points to them, so all entries live
  in one store of 64-bit words by address; the compiler chooses where the static tables lie.
  Pointers have 32 bits on the kernel's target, so turning an address of an entry into a pointer
  drops its upper half.
\<close>

section \<open>Entries\<close>

abbreviation ADDR :: u64 where "ADDR \<equiv> 0x000FFFFFFFFFF000"

definition entry_new :: u64 where
  "entry_new = 0"

definition set_address :: "u64 \<Rightarrow> u64 \<Rightarrow> u64" where
  "set_address addr v = (v AND NOT ADDR) OR (addr AND ADDR)"

definition set_present :: "bool \<Rightarrow> u64 \<Rightarrow> u64" where
  "set_present present v = (if present then v OR 1 else v AND NOT 1)"

definition set_writable :: "bool \<Rightarrow> u64 \<Rightarrow> u64" where
  "set_writable writable v = (if writable then v OR push_bit 1 1 else v AND NOT (push_bit 1 1))"

definition set_user :: "bool \<Rightarrow> u64 \<Rightarrow> u64" where
  "set_user user v = (if user then v OR push_bit 2 1 else v AND NOT (push_bit 2 1))"

definition is_present :: "u64 \<Rightarrow> bool" where
  "is_present v \<longleftrightarrow> v AND 1 \<noteq> 0"

definition physical_address :: "u64 \<Rightarrow> u64" where
  "physical_address v = v AND ADDR"

section \<open>Tables\<close>

record paging =
  pg_ent :: "u64 \<Rightarrow> u64"
  pg_pmm :: pmm
  pg_cr3 :: u64
  pg_initialized :: bool

record table_addresses =
  PML4_at :: u64
  PDPT_at :: u64
  PD_at :: u64

text \<open>The address of entry \<open>i\<close> of the table at \<open>t\<close>, and an update of one entry.\<close>

definition slot :: "u64 \<Rightarrow> u64 \<Rightarrow> u64" where
  "slot t i = t + 8 * i"

definition modify :: "u64 \<Rightarrow> (u64 \<Rightarrow> u64) \<Rightarrow> paging \<Rightarrow> paging" where
  "modify a f s = s\<lparr>pg_ent := (pg_ent s)(a := f (pg_ent s a))\<rparr>"

definition for_entries :: "nat \<Rightarrow> nat \<Rightarrow> (nat \<Rightarrow> paging \<Rightarrow> paging) \<Rightarrow> paging \<Rightarrow> paging" where
  "for_entries a b f s = fold f [a..<b] s"

text \<open>The four groups of assignments of \<open>init_paging\<close>; \<open>PD_table k\<close> is the address of \<open>PD[k]\<close>.\<close>

definition PD_table :: "table_addresses \<Rightarrow> nat \<Rightarrow> u64" where
  "PD_table L k = PD_at L + of_nat (k * 4096)"

definition table_on :: "u64 \<Rightarrow> u64 \<Rightarrow> u64" where
  "table_on a = set_address a \<circ> set_writable True \<circ> set_present True"

definition table_off :: "u64 \<Rightarrow> u64" where
  "table_off = set_address 0 \<circ> set_present False"

definition init_identity :: "table_addresses \<Rightarrow> paging \<Rightarrow> paging" where
  "init_identity L = for_entries 0 512 (\<lambda>i. modify (slot (PD_table L 0) (of_nat i)) (table_on (of_nat (i * 4096))))"

definition init_unused :: "table_addresses \<Rightarrow> paging \<Rightarrow> paging" where
  "init_unused L = for_entries 1 4 (\<lambda>k. for_entries 0 512 (\<lambda>i. modify (slot (PD_table L k) (of_nat i)) table_off))"

definition init_PDPT :: "table_addresses \<Rightarrow> paging \<Rightarrow> paging" where
  "init_PDPT L s =
     for_entries 1 4 (\<lambda>i. modify (slot (PDPT_at L) (of_nat i)) table_off)
       (modify (slot (PDPT_at L) 0) (table_on (PD_table L 0)) s)"

definition init_PML4 :: "table_addresses \<Rightarrow> paging \<Rightarrow> paging" where
  "init_PML4 L s =
     for_entries 1 512 (\<lambda>i. modify (slot (PML4_at L) (of_nat i)) table_off)
       (modify (slot (PML4_at L) 0) (table_on (PDPT_at L)) s)"

text \<open>
  \<open>mov {}, cr3\<close> has the control register as its source: the instruction copies it into the
  register that held the address of the table.
\<close>

definition init_paging :: "table_addresses \<Rightarrow> paging \<Rightarrow> paging" where
  "init_paging L s =
     (if pg_initialized s then s
      else (init_PML4 L (init_PDPT L (init_unused L (init_identity L s))))\<lparr>pg_initialized := True\<rparr>)"

text \<open>\<open>as *mut PageTableEntry\<close>: the address as a 32-bit pointer.\<close>

definition as_pointer :: "u64 \<Rightarrow> u64" where
  "as_pointer a = ucast (ucast a :: u32)"

text \<open>One level of \<open>map_page\<close>: the table that an entry points to, allocated if there is none.\<close>

definition next_table :: "u64 \<Rightarrow> u64 \<Rightarrow> u64 \<Rightarrow> paging \<Rightarrow> (u64 \<times> paging) res" where
  "next_table flags table idx s =
     bindR (if is_present (pg_ent s (slot table idx)) then Inr s
            else case alloc_page (pg_pmm s) of
                   (None, p) \<Rightarrow> Inl Panic
                 | (Some new_table, p) \<Rightarrow>
                     Inr (modify (slot table idx)
                       (set_user (flags AND 4 \<noteq> 0) \<circ> set_writable True \<circ> set_present True \<circ> set_address (ucast new_table))
                       (s\<lparr>pg_pmm := p\<rparr>))) (\<lambda>s.
     Inr (as_pointer (physical_address (pg_ent s (slot table idx))), s))"

definition level_index :: "nat \<Rightarrow> u64 \<Rightarrow> u64" where
  "level_index k virt = drop_bit k virt AND 0x1FF"

definition map_page64 :: "table_addresses \<Rightarrow> u64 \<Rightarrow> u64 \<Rightarrow> u64 \<Rightarrow> paging \<Rightarrow> paging res" where
  "map_page64 L virt phys flags s =
     bindR (next_table flags (PML4_at L) (level_index 39 virt) s) (\<lambda>(pdpt, s).
     bindR (next_table flags pdpt (level_index 30 virt) s) (\<lambda>(pd, s).
     bindR (next_table flags pd (level_index 21 virt) s) (\<lambda>(pt, s).
     Inr (modify (slot pt (level_index 12 virt))
       (set_user (flags AND 4 \<noteq> 0) \<circ> set_writable (flags AND 2 \<noteq> 0) \<circ> set_present True \<circ> set_address (phys AND ADDR)) s))))"

section \<open>The fields of an entry are independent\<close>

named_theorems entry_bits "bits of the table entries"

lemma ADDR_eq: "ADDR = push_bit 12 (mask 40)"
  by (simp add: mask_eq_exp_minus_1)

lemma bit_ADDR: "bit ADDR n \<longleftrightarrow> 12 \<le> n \<and> n < 52"
  unfolding ADDR_eq by (auto simp: bit_simps)

lemma bit_set [entry_bits]:
  "bit (set_address a v) n \<longleftrightarrow> (if 12 \<le> n \<and> n < 52 then bit a n else bit v n)"
  "bit (set_present b v) n \<longleftrightarrow> (if n = 0 then b else bit v n)"
  "bit (set_writable b v) n \<longleftrightarrow> (if n = 1 then b else bit v n)"
  "bit (set_user b v) n \<longleftrightarrow> (if n = 2 then b else bit v n)"
  "bit (physical_address v) n \<longleftrightarrow> bit v n \<and> 12 \<le> n \<and> n < 52"
proof -
  have n: "bit x n \<Longrightarrow> n < 64" for x :: u64 using bit_imp_le_length [of x n] by simp
  show "bit (set_address a v) n \<longleftrightarrow> (if 12 \<le> n \<and> n < 52 then bit a n else bit v n)"
    unfolding set_address_def bit_and_iff bit_or_iff bit_not_iff bit_ADDR using n by auto
  show "bit (physical_address v) n \<longleftrightarrow> bit v n \<and> 12 \<le> n \<and> n < 52"
    unfolding physical_address_def bit_and_iff bit_ADDR by auto
  have "bit (2 ^ 2 :: u64) n \<longleftrightarrow> n = 2" by (auto simp only: bit_exp_iff possible_bit_word) simp
  then have e: "bit (4 :: u64) n \<longleftrightarrow> n = 2" by simp
  show "bit (set_present b v) n \<longleftrightarrow> (if n = 0 then b else bit v n)"
    "bit (set_writable b v) n \<longleftrightarrow> (if n = 1 then b else bit v n)"
    "bit (set_user b v) n \<longleftrightarrow> (if n = 2 then b else bit v n)"
    using n e by (auto simp: set_present_def set_writable_def set_user_def bit_simps)
qed

lemma is_present_bit [entry_bits]: "is_present v \<longleftrightarrow> bit v 0"
  by (simp add: is_present_def and_one_eq even_iff_mod_2_eq_zero bit_0)

lemma entry_fields [simp]:
  "physical_address (set_address a v) = physical_address a" "physical_address (set_present b v) = physical_address v"
  "physical_address (set_writable b v) = physical_address v" "physical_address (set_user b v) = physical_address v"
  "is_present (set_address a v) = is_present v" "is_present (set_present b v) = b"
  "is_present (set_writable b v) = is_present v" "is_present (set_user b v) = is_present v"
  "physical_address (physical_address a) = physical_address a" "\<not> is_present 0"
  by (auto intro!: bit_word_eqI simp: entry_bits)

lemma physical_masked [simp]: "physical_address (a AND ADDR) = physical_address a"
  by (simp add: physical_address_def and.assoc)

section \<open>Addresses of entries\<close>

definition page_aligned :: "u64 \<Rightarrow> bool" where
  "page_aligned t \<longleftrightarrow> take_bit 12 t = 0"

lemma physical_aligned [simp]: "page_aligned (physical_address v)"
  unfolding page_aligned_def by (rule bit_word_eqI) (simp add: bit_take_bit_iff entry_bits)

lemma level_index_less [simp]: "level_index k virt < 512"
proof -
  have "level_index k virt = take_bit 9 (drop_bit k virt)"
    by (simp add: level_index_def take_bit_eq_mask mask_eq_exp_minus_1)
  also have "\<dots> < 512"
    using take_bit_nat_less_exp [of 9 "unat (drop_bit k virt)"] by (simp only: word_less_nat_alt unsigned_take_bit_eq) simp
  finally show ?thesis .
qed

lemma slot64_unat:
  assumes "page_aligned t" "i < 512"
  shows "\<exists>q. unat t = 4096 * q \<and> unat (slot t i) = 4096 * q + 8 * unat i \<and> unat i < 512"
proof -
  have "unat (take_bit 12 t) = unat t mod 4096" by (simp only: unsigned_take_bit_eq) (simp add: take_bit_eq_mod)
  then have "unat t mod 4096 = 0" using assms(1) by (simp add: page_aligned_def)
  then obtain q where q: "unat t = 4096 * q" by (metis mod_0_imp_dvd dvdE)
  have i: "unat i < 512" using assms(2) by (simp add: word_less_nat_alt)
  have "unat t < 2 ^ 64" using unsigned_less [of t] by simp
  then have "4096 * q + 8 * unat i < 2 ^ 64" using q i by simp
  then have "unat (slot t i) = 4096 * q + 8 * unat i"
    using q by (simp add: slot_def unat_word_ariths)
  then show ?thesis using q i by blast
qed

lemma slot_eq_iff:
  assumes "page_aligned t" "page_aligned u" "i < 512" "j < 512"
  shows "slot t i = slot u j \<longleftrightarrow> t = u \<and> i = j"
proof
  assume eq: "slot t i = slot u j"
  obtain p where p: "unat t = 4096 * p" "unat (slot t i) = 4096 * p + 8 * unat i" "unat i < 512"
    using slot64_unat [OF assms(1,3)] by blast
  obtain q where q: "unat u = 4096 * q" "unat (slot u j) = 4096 * q + 8 * unat j" "unat j < 512"
    using slot64_unat [OF assms(2,4)] by blast
  have "4096 * p + 8 * unat i = 4096 * q + 8 * unat j" using p(2) q(2) eq by simp
  moreover from this have "p = q" using p(3) q(3) by linarith
  ultimately have "p = q" "unat i = unat j" by simp_all
  then show "t = u \<and> i = j" using p(1) q(1) by (simp add: word_unat_eq_iff)
qed simp

section \<open>Walking the tables\<close>

text \<open>
  The table that the processor reaches from the table \<open>t\<close> by a list of indices: every entry
  on the way is present and points to a table, not to a large page (bit 7).
\<close>

definition points :: "u64 \<Rightarrow> bool" where
  "points e \<longleftrightarrow> is_present e \<and> \<not> bit e 7"

fun walk :: "(u64 \<Rightarrow> u64) \<Rightarrow> u64 \<Rightarrow> u64 list \<Rightarrow> u64 option" where
  "walk m t [] = Some t"
| "walk m t (i # is) = (if points (m (slot t i)) then walk m (physical_address (m (slot t i))) is else None)"

text \<open>The entry of a page, by its four indices, if it is present.\<close>

definition page_entry :: "u64 \<Rightarrow> paging \<Rightarrow> u64 list \<times> u64 \<Rightarrow> u64 option" where
  "page_entry root s p = (case walk (pg_ent s) root (fst p) of
      None \<Rightarrow> None
    | Some t \<Rightarrow> if is_present (pg_ent s (slot t (snd p))) then Some (pg_ent s (slot t (snd p))) else None)"

definition page_path :: "u64 \<Rightarrow> u64 list \<times> u64" where
  "page_path virt = (map (\<lambda>k. level_index k virt) [39, 30, 21], level_index 12 virt)"

lemma walk_append: "walk m t (p @ q) = Option.bind (walk m t p) (\<lambda>u. walk m u q)"
  by (induction p arbitrary: t) auto

lemma walk_aligned: "page_aligned t \<Longrightarrow> walk m t p = Some u \<Longrightarrow> page_aligned u"
proof (induction p arbitrary: t)
  case (Cons i p)
  show ?case by (rule Cons.IH [of "physical_address (m (slot t i))"]) (use Cons.prems in \<open>simp_all split: if_splits\<close>)
qed simp

text \<open>
  The tree of tables: different paths of at most three indices reach different tables, all of them
  below four gigabytes, where a pointer reaches them, and none
  of them a page the memory manager may still hand out; there are no large pages. The code
  does not clear a new table: that the pages still to be handed out hold zeros is a condition of its own.
\<close>

definition paths :: "u64 list set" where
  "paths = {p. length p \<le> 3 \<and> set p \<subseteq> {..<512}}"

definition free_tables :: "paging \<Rightarrow> u64 set" where
  "free_tables s = ucast ` (page_pool (pg_pmm s) - used_pages (pg_pmm s))"

definition tree_wf :: "u64 \<Rightarrow> paging \<Rightarrow> bool" where
  "tree_wf root s \<longleftrightarrow> pmm_inv (pg_pmm s) \<and> page_aligned root \<and>
     (\<forall>p \<in> paths. \<forall>t. walk (pg_ent s) root p = Some t \<longrightarrow> t \<notin> free_tables s \<and> as_pointer t = t \<and>
        (\<forall>q \<in> paths. walk (pg_ent s) root q = Some t \<longrightarrow> q = p) \<and>
        (length p < 3 \<longrightarrow> (\<forall>i < 512. \<not> bit (pg_ent s (slot t i)) 7)))"

definition free_zero :: "paging \<Rightarrow> bool" where
  "free_zero s \<longleftrightarrow> (\<forall>t \<in> free_tables s. \<forall>i < 512. pg_ent s (slot t i) = 0)"

definition tree_clean :: "u64 \<Rightarrow> paging \<Rightarrow> bool" where
  "tree_clean root s \<longleftrightarrow> tree_wf root s \<and> free_zero s"

lemma as_pointer_ucast [simp]: "as_pointer (ucast (n :: u32)) = ucast n"
proof -
  have "(ucast (ucast n :: u64) :: u32) = n" by (rule bit_word_eqI) (simp add: bit_ucast_iff)
  then show ?thesis by (simp add: as_pointer_def)
qed

lemma aligned_ucast:
  assumes "aligned t"
  shows "physical_address (ucast t) = ucast t" "page_aligned (ucast t)"
proof -
  have "\<not> bit t n" if "n < 12" for n
  proof -
    have "t AND 0xFFF = take_bit 12 t" by (simp add: take_bit_eq_mask mask_eq_exp_minus_1)
    then have "take_bit 12 t = 0" using assms by (simp add: aligned_def)
    then show ?thesis using that by (metis bit_take_bit_iff bit_0_eq bot_apply bot_bool_def)
  qed
  moreover have "bit t n \<Longrightarrow> n < 52" for n using bit_imp_le_length [of t n] by simp
  ultimately show "physical_address (ucast t) = ucast t"
    by (intro bit_word_eqI) (auto simp: entry_bits bit_ucast_iff not_less [symmetric])
  then show "page_aligned (ucast t)" using physical_aligned [of "ucast t"] by simp
qed

lemma free_tables_aligned:
  assumes "t \<in> free_tables s"
  shows "page_aligned t" "physical_address t = t"
proof -
  obtain n where n: "n \<in> page_pool (pg_pmm s)" "t = ucast n" using assms by (auto simp: free_tables_def)
  then have "aligned n" using page_of_aligned by (auto simp: page_pool_def)
  then show "page_aligned t" "physical_address t = t" using aligned_ucast n(2) by simp_all
qed

lemma tree_cleanD:
  assumes "tree_clean root s"
  shows "pmm_inv (pg_pmm s)" "page_aligned root"
    "p \<in> paths \<Longrightarrow> walk (pg_ent s) root p = Some t \<Longrightarrow> t \<notin> free_tables s"
    "p \<in> paths \<Longrightarrow> q \<in> paths \<Longrightarrow> walk (pg_ent s) root p = Some t \<Longrightarrow> walk (pg_ent s) root q = Some t \<Longrightarrow> q = p"
    "t \<in> free_tables s \<Longrightarrow> i < 512 \<Longrightarrow> pg_ent s (slot t i) = 0"
    "p \<in> paths \<Longrightarrow> walk (pg_ent s) root p = Some t \<Longrightarrow> length p < 3 \<Longrightarrow> i < 512 \<Longrightarrow> \<not> bit (pg_ent s (slot t i)) 7"
    "p \<in> paths \<Longrightarrow> walk (pg_ent s) root p = Some t \<Longrightarrow> as_pointer t = t"
  using assms unfolding tree_clean_def tree_wf_def free_zero_def by blast+

lemma tree_cleanI:
  assumes "pmm_inv (pg_pmm s)" "page_aligned root"
    and "\<And>p t. p \<in> paths \<Longrightarrow> walk (pg_ent s) root p = Some t \<Longrightarrow> t \<notin> free_tables s \<and> as_pointer t = t"
    and "\<And>p q t. p \<in> paths \<Longrightarrow> q \<in> paths \<Longrightarrow> walk (pg_ent s) root p = Some t \<Longrightarrow> walk (pg_ent s) root q = Some t \<Longrightarrow> q = p"
    and "\<And>t i. t \<in> free_tables s \<Longrightarrow> i < 512 \<Longrightarrow> pg_ent s (slot t i) = 0"
    and "\<And>p t i. p \<in> paths \<Longrightarrow> walk (pg_ent s) root p = Some t \<Longrightarrow> length p < 3 \<Longrightarrow> i < 512 \<Longrightarrow> \<not> bit (pg_ent s (slot t i)) 7"
  shows "tree_clean root s"
  using assms unfolding tree_clean_def tree_wf_def free_zero_def by blast

lemma paths_snoc: "p @ [i] \<in> paths \<longleftrightarrow> p \<in> paths \<and> length p < 3 \<and> i < 512"
  by (auto simp: paths_def)

text \<open>Writing an entry leaves the paths alone that do not go through it.\<close>

lemma walk_upd:
  fixes e :: u64
  assumes wf: "tree_clean root s" and p: "p \<in> paths" "walk (pg_ent s) root p = Some t" "i < 512"
    and q: "q \<in> paths" "\<forall>r. q \<noteq> p @ i # r"
  defines "m' \<equiv> (pg_ent s)(slot t i := e)"
  shows "walk m' root q = walk (pg_ent s) root q"
  using q
proof (induction q rule: rev_induct)
  case (snoc j r)
  have r: "r \<in> paths" "j < 512" using snoc.prems(1) by (simp_all add: paths_snoc)
  have "\<forall>r'. r \<noteq> p @ i # r'" using snoc.prems(2) by (metis append_Cons append_assoc)
  then have IH: "walk m' root r = walk (pg_ent s) root r" using snoc.IH r(1) by blast
  have "slot u j \<noteq> slot t i" if "walk (pg_ent s) root r = Some u" for u
  proof
    assume "slot u j = slot t i"
    moreover have "page_aligned u" "page_aligned t"
      using walk_aligned [OF tree_cleanD(2) [OF wf]] that p(2) by blast+
    ultimately have "u = t" "j = i" using slot_eq_iff r(2) p(3) by blast+
    then have "r = p" using tree_cleanD(4) [OF wf p(1) r(1) p(2)] that by simp
    then show False using snoc.prems(2) \<open>j = i\<close> by simp
  qed
  then have "m' (slot u j) = pg_ent s (slot u j)" if "walk (pg_ent s) root r = Some u" for u
    using that by (simp add: m'_def)
  then show ?case by (cases "walk (pg_ent s) root r") (simp_all add: walk_append IH)
qed simp

text \<open>A new table: its page is taken from the pool and its entry points to it.\<close>

definition new_entry :: "u64 \<Rightarrow> u32 \<Rightarrow> u64 \<Rightarrow> u64" where
  "new_entry flags n = set_user (flags AND 4 \<noteq> 0) \<circ> set_writable True \<circ> set_present True \<circ> set_address (ucast n)"

lemma new_entry_fields:
  "is_present (new_entry flags n v)" "physical_address (new_entry flags n v) = physical_address (ucast n)"
  "bit (new_entry flags n v) 7 = bit v 7"
  by (simp_all add: new_entry_def entry_bits)

lemma ucast_inj_u64: "(ucast (a :: u32) :: u64) = ucast b \<longleftrightarrow> a = b"
proof -
  have "unat x < 2 ^ 64" for x :: u32
    by (rule less_trans [of _ "2 ^ 32"]) (use unsigned_less [of x] in simp_all)
  then have "unat (ucast x :: u64) = unat x" for x :: u32
    by (simp add: unsigned_ucast_eq take_bit_nat_eq_self)
  then show ?thesis by (metis word_unat_eq_iff)
qed

lemma free_tables_alloc:
  assumes "tree_clean root s" "alloc_page (pg_pmm s) = (Some n, q)"
  shows "ucast n \<in> free_tables s" "free_tables (s\<lparr>pg_pmm := q, pg_ent := m\<rparr>) = free_tables s - {ucast n}"
    "pmm_inv q" "finite (free_tables s)"
proof -
  note a = pages.alloc_some [OF tree_cleanD(1) [OF assms(1)] assms(2)]
  show "ucast n \<in> free_tables s" unfolding free_tables_def using a by (intro imageI) blast
  show "pmm_inv q" using a by blast
  have "inj (ucast :: u32 \<Rightarrow> u64)" by (simp add: inj_def ucast_inj_u64)
  moreover have "page_pool q - used_pages q = (page_pool (pg_pmm s) - used_pages (pg_pmm s)) - {n}"
  proof -
    have "page_pool q = page_pool (pg_pmm s)" "used_pages q = insert n (used_pages (pg_pmm s))" using a by blast+
    then show ?thesis by blast
  qed
  ultimately show "free_tables (s\<lparr>pg_pmm := q, pg_ent := m\<rparr>) = free_tables s - {ucast n}"
    unfolding free_tables_def by (simp add: image_set_diff)
  show "finite (free_tables s)"
    using pages.pool_finite [OF tree_cleanD(1) [OF assms(1)]] by (simp add: free_tables_def)
qed

lemma new_table_walk:
  fixes flags :: u64
  assumes wf: "tree_clean root s" and p: "p @ [i] \<in> paths" "walk (pg_ent s) root p = Some t"
    and np: "\<not> is_present (pg_ent s (slot t i))" and al: "alloc_page (pg_pmm s) = (Some n, k)"
  defines "m' \<equiv> (pg_ent s)(slot t i := new_entry flags n (pg_ent s (slot t i)))"
  shows "q \<in> paths \<Longrightarrow> walk m' root q = (if q = p @ [i] then Some (ucast n) else walk (pg_ent s) root q)"
    "j < 512 \<Longrightarrow> m' (slot (ucast n) j) = 0"
proof -
  have p': "p \<in> paths" "length p < 3" "i < 512" using p(1) by (simp_all add: paths_snoc)
  note fn = free_tables_alloc(1) [OF wf al]
  have ne: "t \<noteq> ucast n" using tree_cleanD(3) [OF wf p'(1) p(2)] fn by blast
  have al_t: "page_aligned t" "page_aligned (ucast n)" using walk_aligned [OF tree_cleanD(2) [OF wf] p(2)] free_tables_aligned(1) [OF fn] .
  show z: "m' (slot (ucast n) j) = 0" if "j < 512" for j
    using that ne slot_eq_iff [OF al_t(2,1) that p'(3)] tree_cleanD(5) [OF wf fn that] by (simp add: m'_def)
  have e: "m' (slot t i) = new_entry flags n (pg_ent s (slot t i))" by (simp add: m'_def)
  have "points (m' (slot t i))" "physical_address (m' (slot t i)) = ucast n"
    using tree_cleanD(6) [OF wf p'(1) p(2) p'(2,3)] free_tables_aligned(2) [OF fn] by (simp_all add: e points_def new_entry_fields)
  then have down: "walk m' t (i # r) = walk m' (ucast n) r" for r by simp
  have wp: "walk m' root p = Some t"
    using walk_upd [OF wf p'(1) p(2) p'(3) p'(1)] p(2) by (simp add: m'_def)
  show "walk m' root q = (if q = p @ [i] then Some (ucast n) else walk (pg_ent s) root q)" if q: "q \<in> paths"
  proof (cases "\<exists>r. q = p @ i # r")
    case True
    then obtain r where r: "q = p @ i # r" by blast
    show ?thesis
    proof (cases r)
      case Nil
      then show ?thesis using wp down [of "[]"] by (simp add: r walk_append)
    next
      case (Cons j r')
      then have "j < 512" using q r by (auto simp: paths_def)
      then have "walk m' (ucast n) r = None" using z Cons by (simp add: points_def)
      then have "walk m' root q = None" using wp down by (simp add: r walk_append del: walk.simps)
      moreover have "walk (pg_ent s) root q = None" using p(2) np by (simp add: r walk_append points_def)
      ultimately show ?thesis using r Cons by simp
    qed
  next
    case False
    then show ?thesis using walk_upd [OF wf p'(1) p(2) p'(3) q] by (auto simp: m'_def)
  qed
qed

text \<open>What a level keeps: the present entries of all pages, and all but at most one free page.\<close>

definition same_pages :: "u64 \<Rightarrow> paging \<Rightarrow> paging \<Rightarrow> bool" where
  "same_pages root s s' \<longleftrightarrow> (\<forall>q \<in> paths. length q = 3 \<longrightarrow> (\<forall>j < 512. page_entry root s' (q, j) = page_entry root s (q, j)))"

lemma new_table_same_pages:
  fixes flags :: u64
  assumes wf: "tree_clean root s" and p: "p @ [i] \<in> paths" "walk (pg_ent s) root p = Some t"
    and np: "\<not> is_present (pg_ent s (slot t i))" and al: "alloc_page (pg_pmm s) = (Some n, k)"
  shows "same_pages root s (modify (slot t i) (new_entry flags n) (s\<lparr>pg_pmm := k\<rparr>))"
proof -
  define m' where "m' = (pg_ent s)(slot t i := new_entry flags n (pg_ent s (slot t i)))"
  have s': "pg_ent (modify (slot t i) (new_entry flags n) (s\<lparr>pg_pmm := k\<rparr>)) = m'" by (simp add: m'_def modify_def)
  have p': "p \<in> paths" "length p < 3" "i < 512" using p(1) by (simp_all add: paths_snoc)
  note w = new_table_walk [OF wf p np al, of _ flags, folded m'_def]
  have al_t: "page_aligned t" using walk_aligned [OF tree_cleanD(2) [OF wf] p(2)] .
  have same: "m' (slot u j) = pg_ent s (slot u j)" if "page_aligned u" "j < 512" "u \<noteq> t \<or> j \<noteq> i" for u j
    using slot_eq_iff [OF that(1) al_t that(2) p'(3)] that(3) by (auto simp: m'_def)
  show ?thesis
    unfolding same_pages_def page_entry_def fst_conv snd_conv s'
  proof (intro ballI impI allI)
    fix q j assume q: "q \<in> paths" "length q = 3" and j: "j < (512 :: u64)"
    have new: "walk (pg_ent s) root (p @ [i]) = None" using p(2) np by (simp add: walk_append points_def)
    have "m' (slot u j) = pg_ent s (slot u j)" if "walk (pg_ent s) root q = Some u" for u
    proof (rule same [OF _ j])
      show "page_aligned u" using walk_aligned [OF tree_cleanD(2) [OF wf] that] .
      have "q \<noteq> p" using q(2) p'(2) by auto
      then show "u \<noteq> t \<or> j \<noteq> i" using tree_cleanD(4) [OF wf p'(1) q(1) p(2)] that by auto
    qed
    then show "(case walk m' root q of None \<Rightarrow> None | Some t \<Rightarrow> if is_present (m' (slot t j)) then Some (m' (slot t j)) else None) =
        (case walk (pg_ent s) root q of None \<Rightarrow> None
         | Some t \<Rightarrow> if is_present (pg_ent s (slot t j)) then Some (pg_ent s (slot t j)) else None)"
      using w(1) [OF q(1)] w(2) [OF j] new by (auto split: option.split)
  qed
qed

lemma new_table_wf:
  fixes flags :: u64
  assumes wf: "tree_clean root s" and p: "p @ [i] \<in> paths" "walk (pg_ent s) root p = Some t"
    and np: "\<not> is_present (pg_ent s (slot t i))" and al: "alloc_page (pg_pmm s) = (Some n, k)"
  defines "s' \<equiv> modify (slot t i) (new_entry flags n) (s\<lparr>pg_pmm := k\<rparr>)"
  shows "tree_clean root s'" "walk (pg_ent s') root (p @ [i]) = Some (ucast n)"
    "free_tables s' = free_tables s - {ucast n}" "pg_ent s' (slot t i) = new_entry flags n (pg_ent s (slot t i))"
    "physical_address (pg_ent s' (slot t i)) = ucast n"
proof -
  define m' where "m' = (pg_ent s)(slot t i := new_entry flags n (pg_ent s (slot t i)))"
  have s': "s' = s\<lparr>pg_pmm := k, pg_ent := m'\<rparr>" "pg_ent s' = m'" by (simp_all add: s'_def m'_def modify_def)
  have p': "p \<in> paths" "length p < 3" "i < 512" using p(1) by (simp_all add: paths_snoc)
  note fr = free_tables_alloc [OF wf al]
  note w = new_table_walk [OF wf p np al, of _ flags, folded m'_def]
  show ft: "free_tables s' = free_tables s - {ucast n}" using fr(2) by (simp add: s'(1))
  show wn: "walk (pg_ent s') root (p @ [i]) = Some (ucast n)" using w(1) [OF p(1)] by (simp add: s'(2))
  show "pg_ent s' (slot t i) = new_entry flags n (pg_ent s (slot t i))" by (simp add: s'(2) m'_def)
  then show "physical_address (pg_ent s' (slot t i)) = ucast n" using free_tables_aligned(2) [OF fr(1)] by (simp add: new_entry_fields)
  have al_t: "page_aligned t" using walk_aligned [OF tree_cleanD(2) [OF wf] p(2)] .
  have same: "m' (slot u j) = pg_ent s (slot u j)" if "page_aligned u" "j < 512" "u \<noteq> t \<or> j \<noteq> i" for u j
    using slot_eq_iff [OF that(1) al_t that(2) p'(3)] that(3) by (auto simp: m'_def)
  have old: "u \<noteq> ucast n" if "q \<in> paths" "walk (pg_ent s) root q = Some u" for q u
    using tree_cleanD(3) [OF wf that] fr(1) by blast
  show "tree_clean root s'"
  proof (rule tree_cleanI)
    show "pmm_inv (pg_pmm s')" "page_aligned root" using fr(3) tree_cleanD(2) [OF wf] by (simp_all add: s'(1))
    show "u \<notin> free_tables s' \<and> as_pointer u = u" if "q \<in> paths" "walk (pg_ent s') root q = Some u" for q u
      using that w(1) [OF that(1)] tree_cleanD(3,7) [OF wf that(1)] unfolding ft s'(2) by (auto split: if_splits)
    show "r = q" if "q \<in> paths" "r \<in> paths" "walk (pg_ent s') root q = Some u" "walk (pg_ent s') root r = Some u" for q r u
      using that w(1) [OF that(1)] w(1) [OF that(2)] old [OF that(1)] old [OF that(2)] tree_cleanD(4) [OF wf that(1,2)]
      unfolding s'(2) by (auto split: if_splits)
    show "pg_ent s' (slot u j) = 0" if "u \<in> free_tables s'" "j < 512" for u j
    proof -
      have u: "u \<in> free_tables s" "u \<noteq> t" using that tree_cleanD(3) [OF wf p'(1) p(2)] unfolding ft by auto
      then show ?thesis using tree_cleanD(5) [OF wf u(1) that(2)] same [OF free_tables_aligned(1) [OF u(1)] that(2)] unfolding s'(2) by simp
    qed
    show "\<not> bit (pg_ent s' (slot u j)) 7" if "q \<in> paths" "walk (pg_ent s') root q = Some u" "length q < 3" "j < 512" for q u j
    proof (cases "q = p @ [i]")
      case True
      then show ?thesis using that wn w(2) by (simp add: s'(2))
    next
      case False
      then have "walk (pg_ent s) root q = Some u" using that(2) w(1) [OF that(1)] by (simp add: s'(2))
      from tree_cleanD(6) [OF wf that(1) this that(3)] show ?thesis
        using that(4) by (simp add: s'(2) m'_def new_entry_fields) metis
    qed
  qed
qed

lemma next_table_ok:
  assumes wf: "tree_clean root s" and p: "p @ [i] \<in> paths" "walk (pg_ent s) root p = Some t"
    and room: "is_present (pg_ent s (slot t i)) \<or> free_tables s \<noteq> {}"
  shows "\<exists>u s'. next_table flags t i s = Inr (u, s') \<and> tree_clean root s' \<and> walk (pg_ent s') root (p @ [i]) = Some u \<and>
    same_pages root s s' \<and> card (free_tables s) \<le> Suc (card (free_tables s'))"
proof (cases "is_present (pg_ent s (slot t i))")
  case True
  have "p \<in> paths" "length p < 3" "i < 512" using p(1) by (simp_all add: paths_snoc)
  then have "points (pg_ent s (slot t i))" using True tree_cleanD(6) [OF wf _ p(2)] by (simp add: points_def)
  then have "walk (pg_ent s) root (p @ [i]) = Some (physical_address (pg_ent s (slot t i)))" using p(2) by (simp add: walk_append)
  then show ?thesis using True wf tree_cleanD(7) [OF wf p(1)] by (simp add: next_table_def same_pages_def)
next
  case False
  then have "used_pages (pg_pmm s) \<noteq> page_pool (pg_pmm s)" using room by (auto simp: free_tables_def)
  then obtain n k where al: "alloc_page (pg_pmm s) = (Some n, k)"
    using pages.alloc_live [OF tree_cleanD(1) [OF wf]] by blast
  note nt = new_table_wf [OF wf p False al, of flags]
  have "next_table flags t i s = Inr (ucast n, modify (slot t i) (new_entry flags n) (s\<lparr>pg_pmm := k\<rparr>))"
    using False al nt(5) by (simp add: next_table_def new_entry_def)
  moreover have "card (free_tables s) \<le> Suc (card (free_tables s - {ucast n}))"
    using card_Suc_Diff1 [OF free_tables_alloc(4,1) [OF wf al]] by simp
  ultimately show ?thesis using nt(1-3) new_table_same_pages [OF wf p False al] by simp
qed

lemma next_table_panics:
  assumes "tree_clean root s" "\<not> is_present (pg_ent s (slot t i))" "free_tables s = {}"
  shows "next_table flags t i s = Inl Panic"
proof (cases "alloc_page (pg_pmm s)")
  case (Pair r k)
  then show ?thesis
    using assms free_tables_alloc(1) [OF assms(1)] by (cases r) (auto simp: next_table_def)
qed

text \<open>The last level: one page changes.\<close>

lemma write_page:
  fixes f :: "u64 \<Rightarrow> u64"
  assumes wf: "tree_clean root s" and p: "p \<in> paths" "length p = 3" "walk (pg_ent s) root p = Some t" "i < 512"
  defines "s' \<equiv> modify (slot t i) f s"
  shows "tree_clean root s'"
    "q \<in> paths \<Longrightarrow> length q = 3 \<Longrightarrow> j < 512 \<Longrightarrow> page_entry root s' (q, j) =
      (if (q, j) = (p, i) then let e = f (pg_ent s (slot t i)) in if is_present e then Some e else None
       else page_entry root s (q, j))"
proof -
  define m' where "m' = (pg_ent s)(slot t i := f (pg_ent s (slot t i)))"
  have s': "s' = s\<lparr>pg_ent := m'\<rparr>" "pg_ent s' = m'" "free_tables s' = free_tables s" "pg_pmm s' = pg_pmm s"
    by (simp_all add: s'_def m'_def modify_def free_tables_def)
  have at: "page_aligned t" using walk_aligned [OF tree_cleanD(2) [OF wf] p(3)] .
  have same: "m' (slot u k) = pg_ent s (slot u k)" if "page_aligned u" "k < 512" "u \<noteq> t \<or> k \<noteq> i" for u k
    using slot_eq_iff [OF that(1) at that(2) p(4)] that(3) by (auto simp: m'_def)
  have w: "walk m' root q = walk (pg_ent s) root q" if "q \<in> paths" for q
  proof -
    have "\<forall>r. q \<noteq> p @ i # r" using that p(2) by (auto simp: paths_def)
    then show ?thesis using walk_upd [OF wf p(1,3,4) that] by (simp add: m'_def)
  qed
  have uniq: "u = t \<longleftrightarrow> q = p" if "q \<in> paths" "walk (pg_ent s) root q = Some u" for q u
    using tree_cleanD(4) [OF wf p(1) that(1) p(3)] that p(3) by auto
  show "tree_clean root s'"
  proof (rule tree_cleanI)
    show "pmm_inv (pg_pmm s')" "page_aligned root" using tree_cleanD(1,2) [OF wf] by (simp_all add: s'(4))
    show "u \<notin> free_tables s' \<and> as_pointer u = u" if "q \<in> paths" "walk (pg_ent s') root q = Some u" for q u
      using that w tree_cleanD(3,7) [OF wf] by (simp add: s'(2,3))
    show "r = q" if "q \<in> paths" "r \<in> paths" "walk (pg_ent s') root q = Some u" "walk (pg_ent s') root r = Some u" for q r u
      using that w tree_cleanD(4) [OF wf that(1,2)] by (simp add: s'(2))
    show "pg_ent s' (slot u j) = 0" if "u \<in> free_tables s'" "j < 512" for u j
      using that tree_cleanD(3) [OF wf p(1,3)] tree_cleanD(5) [OF wf, of u] same [OF free_tables_aligned(1), of u s] unfolding s'(2,3) by auto
    show "\<not> bit (pg_ent s' (slot u k)) 7" if q: "q \<in> paths" "walk (pg_ent s') root q = Some u" "length q < 3" "k < 512" for q u k
    proof -
      have u: "walk (pg_ent s) root q = Some u" using q(2) w [OF q(1)] by (simp add: s'(2))
      then have "u \<noteq> t" using uniq [OF q(1)] q(3) p(2) by auto
      then show ?thesis
        using tree_cleanD(6) [OF wf q(1) u q(3,4)] same [OF walk_aligned [OF tree_cleanD(2) [OF wf] u] q(4)] by (simp add: s'(2))
    qed
  qed
  show "page_entry root s' (q, j) = (if (q, j) = (p, i) then let e = f (pg_ent s (slot t i)) in if is_present e then Some e else None
       else page_entry root s (q, j))" if q: "q \<in> paths" "length q = 3" and j: "j < 512"
  proof (cases "walk (pg_ent s) root q")
    case None
    then show ?thesis using p(3) w [OF q(1)] by (auto simp: page_entry_def s'(2))
  next
    case (Some u)
    then show ?thesis
      using uniq [OF q(1) Some] w [OF q(1)] same [OF walk_aligned [OF tree_cleanD(2) [OF wf] Some] j]
      by (auto simp: page_entry_def s'(2) Let_def m'_def)
  qed
qed

section \<open>Mapping a page\<close>

lemma page_path_paths: "fst (page_path v) \<in> paths" "length (fst (page_path v)) = 3" "snd (page_path v) < 512"
  by (simp_all add: page_path_def paths_def)

text \<open>The four indices are the bits 12 to 47 of the address.\<close>

lemma page_path_eq_iff:
  "page_path v = page_path w \<longleftrightarrow> (\<forall>n. 12 \<le> n \<and> n < 48 \<longrightarrow> bit v n = bit w n)"
proof -
  have b: "bit (level_index k x) n \<longleftrightarrow> n < 9 \<and> bit x (k + n)" for k n and x :: u64
  proof -
    have "level_index k x = take_bit 9 (drop_bit k x)"
      by (simp add: level_index_def take_bit_eq_mask mask_eq_exp_minus_1)
    then show ?thesis by (auto simp: bit_simps)
  qed
  have l: "level_index k v = level_index k w \<longleftrightarrow> (\<forall>n. k \<le> n \<and> n < k + 9 \<longrightarrow> bit v n = bit w n)" for k
  proof
    assume e: "level_index k v = level_index k w"
    show "\<forall>n. k \<le> n \<and> n < k + 9 \<longrightarrow> bit v n = bit w n"
    proof (intro allI impI)
      fix n assume "k \<le> n \<and> n < k + 9"
      then have "n - k < 9" "k + (n - k) = n" by auto
      then show "bit v n = bit w n" using b [of k v "n - k"] b [of k w "n - k"] e by simp
    qed
  next
    assume e: "\<forall>n. k \<le> n \<and> n < k + 9 \<longrightarrow> bit v n = bit w n"
    show "level_index k v = level_index k w"
    proof (rule bit_word_eqI)
      fix n show "bit (level_index k v) n = bit (level_index k w) n"
        unfolding b using e [rule_format, of "k + n"] by (cases "n < 9") simp_all
    qed
  qed
  have split: "12 \<le> n \<and> n < 48 \<longleftrightarrow> (39 \<le> n \<and> n < 48) \<or> (30 \<le> n \<and> n < 39) \<or> (21 \<le> n \<and> n < 30) \<or> (12 \<le> n \<and> n < (21 :: nat))" for n
    by auto
  show ?thesis
    unfolding split imp_disjL all_conj_distrib page_path_def
    by (simp only: list.map prod.inject list.inject simp_thms l) (simp add: conj_ac)
qed

lemma page_path_bits:
  "page_path v = page_path w \<longleftrightarrow> take_bit 36 (drop_bit 12 v) = take_bit 36 (drop_bit 12 w)"
  unfolding page_path_eq_iff
proof
  have b: "bit (take_bit 36 (drop_bit 12 x)) n \<longleftrightarrow> n < 36 \<and> bit x (12 + n)" for x :: u64 and n
    by (simp add: bit_take_bit_iff bit_drop_bit_eq)
  show "take_bit 36 (drop_bit 12 v) = take_bit 36 (drop_bit 12 w)" if "\<forall>n. 12 \<le> n \<and> n < 48 \<longrightarrow> bit v n = bit w n"
  proof (rule bit_word_eqI)
    fix n show "bit (take_bit 36 (drop_bit 12 v)) n = bit (take_bit 36 (drop_bit 12 w)) n"
      unfolding b using that [rule_format, of "12 + n"] by (cases "n < 36") simp_all
  qed
  show "\<forall>n. 12 \<le> n \<and> n < 48 \<longrightarrow> bit v n = bit w n" if "take_bit 36 (drop_bit 12 v) = take_bit 36 (drop_bit 12 w)"
  proof (intro allI impI)
    fix n assume "12 \<le> n \<and> n < (48 :: nat)"
    then have "n - 12 < 36" "12 + (n - 12) = n" by auto
    then show "bit v n = bit w n" using b [of v "n - 12"] b [of w "n - 12"] that by simp
  qed
qed

definition mapped_entry :: "u64 \<Rightarrow> u64 \<Rightarrow> u64 \<Rightarrow> u64" where
  "mapped_entry phys flags =
     set_user (flags AND 4 \<noteq> 0) \<circ> set_writable (flags AND 2 \<noteq> 0) \<circ> set_present True \<circ> set_address (phys AND ADDR)"

lemma mapped_entry_fields:
  "is_present (mapped_entry phys flags v)" "physical_address (mapped_entry phys flags v) = physical_address phys"
  "bit (mapped_entry phys flags v) 1 = (flags AND 2 \<noteq> 0)" "bit (mapped_entry phys flags v) 2 = (flags AND 4 \<noteq> 0)"
  by (simp_all add: mapped_entry_def entry_bits)

lemma same_pages_trans: "same_pages root s t \<Longrightarrow> same_pages root t u \<Longrightarrow> same_pages root s u"
  by (simp add: same_pages_def)

lemma map_page64_ok:
  assumes wf: "tree_clean (PML4_at L) s" and room: "3 \<le> card (free_tables s)"
  shows "\<exists>s' v. map_page64 L virt phys flags s = Inr s' \<and> tree_clean (PML4_at L) s' \<and>
    (\<forall>w. page_entry (PML4_at L) s' (page_path w) =
      (if page_path w = page_path virt then Some (mapped_entry phys flags v) else page_entry (PML4_at L) s (page_path w)))"
proof -
  let ?r = "PML4_at L" and ?i = "\<lambda>k. level_index k virt"
  have pp: "[] @ [?i 39] \<in> paths" "[?i 39] @ [?i 30] \<in> paths" "[?i 39, ?i 30] @ [?i 21] \<in> paths" by (simp_all add: paths_def)
  have room0: "free_tables t \<noteq> {}" if "0 < card (free_tables t)" for t using that by auto
  obtain u1 s1 where s1: "next_table flags ?r (?i 39) s = Inr (u1, s1)" "tree_clean ?r s1" "walk (pg_ent s1) ?r [?i 39] = Some u1"
      "same_pages ?r s s1" "2 \<le> card (free_tables s1)"
    using next_table_ok [OF wf pp(1), of ?r flags] room0 [of s] room by auto
  obtain u2 s2 where s2: "next_table flags u1 (?i 30) s1 = Inr (u2, s2)" "tree_clean ?r s2" "walk (pg_ent s2) ?r [?i 39, ?i 30] = Some u2"
      "same_pages ?r s1 s2" "1 \<le> card (free_tables s2)"
    using next_table_ok [OF s1(2) pp(2) s1(3), of flags] room0 [of s1] s1(5) by auto
  obtain u3 s3 where s3: "next_table flags u2 (?i 21) s2 = Inr (u3, s3)" "tree_clean ?r s3"
      "walk (pg_ent s3) ?r [?i 39, ?i 30, ?i 21] = Some u3" "same_pages ?r s2 s3"
    using next_table_ok [OF s2(2) pp(3) s2(3), of flags] room0 [of s2] s2(5) by auto
  let ?v = "pg_ent s3 (slot u3 (?i 12))" and ?s' = "modify (slot u3 (?i 12)) (mapped_entry phys flags) s3"
  have "map_page64 L virt phys flags s = Inr ?s'"
    by (simp add: map_page64_def s1(1) s2(1) s3(1) mapped_entry_def)
  moreover have "[?i 39, ?i 30, ?i 21] \<in> paths" by (simp add: paths_def)
  note w = write_page [OF s3(2) this _ s3(3), where i = "?i 12" and f = "mapped_entry phys flags", simplified]
  have "page_entry ?r ?s' (page_path x) =
      (if page_path x = page_path virt then Some (mapped_entry phys flags ?v) else page_entry ?r s (page_path x))" for x
  proof -
    have "page_entry ?r s3 (page_path x) = page_entry ?r s (page_path x)"
      using same_pages_trans [OF same_pages_trans [OF s1(4) s2(4)] s3(4)] page_path_paths [of x]
      unfolding same_pages_def by (metis prod.collapse)
    moreover have "page_path virt = ([?i 39, ?i 30, ?i 21], ?i 12)" by (simp add: page_path_def)
    moreover obtain q j where x: "page_path x = (q, j)" by (cases "page_path x")
    moreover have "q \<in> paths" "length q = 3" "j < 512" using page_path_paths [of x] x by simp_all
    ultimately show ?thesis
      using w(2) [of q j] by (simp add: Let_def mapped_entry_fields)
  qed
  ultimately show ?thesis using w(1) by blast
qed

section \<open>The initial tables\<close>

lemma modify_fields [simp]:
  "pg_pmm (modify a f s) = pg_pmm s" "pg_cr3 (modify a f s) = pg_cr3 s" "pg_initialized (modify a f s) = pg_initialized s"
  "pg_ent (modify a f s) x = (if x = a then f (pg_ent s a) else pg_ent s x)"
  by (simp_all add: modify_def)

lemma for_entries_same:
  assumes "\<And>i s. i \<in> {a..<b} \<Longrightarrow> F (f i s) = F s"
  shows "F (for_entries a b f s) = F s"
proof -
  have "F (fold f xs s) = F s" if "set xs \<subseteq> {a..<b}" for xs s
    using that assms by (induction xs arbitrary: s) simp_all
  then show ?thesis by (simp add: for_entries_def)
qed

lemma for_entries_out:
  assumes "x \<notin> g ` {a..<b}"
  shows "pg_ent (for_entries a b (\<lambda>i. modify (g i) (f i)) s) x = pg_ent s x"
  by (rule for_entries_same [where F = "\<lambda>s. pg_ent s x"]) (use assms in auto)

lemma for_entries_in:
  assumes "inj_on g {0..<n}" "i < n"
  shows "pg_ent (for_entries 0 n (\<lambda>i. modify (g i) (f i)) s) (g i) = f i (pg_ent s (g i))"
  using assms
proof (induction n)
  case (Suc n)
  have inj: "inj_on g {0..<n}" using Suc.prems(1) by (rule inj_on_subset) auto
  have "g i \<noteq> g n" if "i < n" using inj_onD [OF Suc.prems(1), of i n] that by auto
  moreover have "g n \<notin> g ` {0..<n}" using inj_on_image_mem_iff [OF Suc.prems(1), of n "{0..<n}"] by auto
  ultimately show ?case
    using Suc.IH [OF inj] Suc.prems(2) for_entries_out [of "g n" g 0 n f s]
    by (cases "i = n") (simp_all add: for_entries_def)
qed simp

text \<open>Where the tables have to lie: on page boundaries, below two to the 52, all different.\<close>

definition static_ok :: "table_addresses \<Rightarrow> bool" where
  "static_ok L \<longleftrightarrow> (\<forall>t \<in> {PML4_at L, PDPT_at L} \<union> PD_table L ` {0..<4}. physical_address t = t) \<and>
     distinct (PML4_at L # PDPT_at L # map (PD_table L) [0..<4])"

lemma of_nat_index: "i < 512 \<Longrightarrow> (of_nat i :: u64) < 512" "i < 512 \<Longrightarrow> j < 512 \<Longrightarrow> (of_nat i :: u64) = of_nat j \<longleftrightarrow> i = j"
proof -
  have u: "i < 512 \<Longrightarrow> unat (of_nat i :: u64) = i" for i by (simp add: unat_of_nat)
  then show "i < 512 \<Longrightarrow> (of_nat i :: u64) < 512" by (simp add: word_less_nat_alt)
  show "(of_nat i :: u64) = of_nat j \<longleftrightarrow> i = j" if "i < 512" "j < 512" using u that by metis
qed

lemma slot64_neq: "page_aligned t \<Longrightarrow> page_aligned u \<Longrightarrow> t \<noteq> u \<Longrightarrow> i < 512 \<Longrightarrow> j < 512 \<Longrightarrow> slot t (of_nat i) \<noteq> slot u (of_nat j)"
  by (simp add: slot_eq_iff of_nat_index)

lemma slots_inj: "page_aligned t \<Longrightarrow> inj_on (\<lambda>i. slot t (of_nat i)) {0..<512}"
  by (rule inj_onI) (simp add: slot_eq_iff of_nat_index)

lemma table_on_fields:
  "is_present (table_on a v)" "physical_address (table_on a v) = physical_address a" "bit (table_on a v) 7 = bit v 7"
  by (simp_all add: table_on_def entry_bits)

lemma static_okD:
  assumes "static_ok L"
  shows "page_aligned (PML4_at L)" "page_aligned (PDPT_at L)" "k < 4 \<Longrightarrow> page_aligned (PD_table L k)"
    "PML4_at L \<noteq> PDPT_at L" "k < 4 \<Longrightarrow> PML4_at L \<noteq> PD_table L k" "k < 4 \<Longrightarrow> PDPT_at L \<noteq> PD_table L k"
    "0 < k \<Longrightarrow> k < 4 \<Longrightarrow> PD_table L k \<noteq> PD_table L 0"
    "physical_address (PML4_at L) = PML4_at L" "physical_address (PDPT_at L) = PDPT_at L"
    "physical_address (PD_table L 0) = PD_table L 0"
proof -
  have p: "physical_address t = t" if "t \<in> {PML4_at L, PDPT_at L} \<union> PD_table L ` {0..<4}" for t
    using assms that unfolding static_ok_def by blast
  then show "physical_address (PML4_at L) = PML4_at L" "physical_address (PDPT_at L) = PDPT_at L"
    "physical_address (PD_table L 0) = PD_table L 0" by simp_all
  show "page_aligned (PML4_at L)" "page_aligned (PDPT_at L)" "k < 4 \<Longrightarrow> page_aligned (PD_table L k)"
    using p physical_aligned by (metis UnI1 UnI2 insertCI imageI atLeastLessThan_iff le0)+
  have d: "distinct (PML4_at L # PDPT_at L # map (PD_table L) [0..<4])" using assms by (simp add: static_ok_def)
  then show "PML4_at L \<noteq> PDPT_at L" by simp
  show "k < 4 \<Longrightarrow> PML4_at L \<noteq> PD_table L k" "k < 4 \<Longrightarrow> PDPT_at L \<noteq> PD_table L k" using d by force+
  have "inj_on (PD_table L) (set [0..<4])" using d by (simp add: distinct_map)
  then show "0 < k \<Longrightarrow> k < 4 \<Longrightarrow> PD_table L k \<noteq> PD_table L 0" by (auto dest: inj_onD)
qed

text \<open>The groups touch only their own tables.\<close>

lemma table_head:
  fixes s :: paging and f g :: "u64 \<Rightarrow> u64"
  assumes "page_aligned t" "n \<le> 512"
  defines "s' \<equiv> for_entries 1 n (\<lambda>i. modify (slot t (of_nat i)) f) (modify (slot t 0) g s)"
  shows "pg_ent s' (slot t 0) = g (pg_ent s (slot t 0))"
    "page_aligned u \<Longrightarrow> u \<noteq> t \<Longrightarrow> j < 512 \<Longrightarrow> pg_ent s' (slot u (of_nat j)) = pg_ent s (slot u (of_nat j))"
proof -
  have "slot t 0 \<noteq> slot t (of_nat i)" if "1 \<le> i" "i < n" for i
    using that assms(2) slot_eq_iff [OF assms(1,1), of 0 "of_nat i"] of_nat_index(1) [of i] of_nat_index(2) [of 0 i] by simp
  then have "slot t 0 \<notin> (\<lambda>i. slot t (of_nat i)) ` {1..<n}" by (simp add: image_iff)
  from for_entries_out [OF this] show "pg_ent s' (slot t 0) = g (pg_ent s (slot t 0))" by (simp add: s'_def)
  assume u: "page_aligned u" "u \<noteq> t" "j < 512"
  have o: "slot u (of_nat j) \<noteq> slot t (of_nat i)" if "i < 512" for i using slot64_neq [OF u(1) assms(1) u(2,3) that] .
  then have "slot u (of_nat j) \<notin> (\<lambda>i. slot t (of_nat i)) ` {1..<n}" using assms(2) by (simp add: image_iff)
  from for_entries_out [OF this] show "pg_ent s' (slot u (of_nat j)) = pg_ent s (slot u (of_nat j))"
    using o [of 0] by (simp add: s'_def)
qed

lemma init_unused_out:
  assumes "static_ok L" "page_aligned u" "\<And>k. 0 < k \<Longrightarrow> k < 4 \<Longrightarrow> u \<noteq> PD_table L k" "j < 512"
  shows "pg_ent (init_unused L s) (slot u (of_nat j)) = pg_ent s (slot u (of_nat j))"
  unfolding init_unused_def
proof (rule for_entries_same [where F = "\<lambda>s. pg_ent s (slot u (of_nat j))"], rule for_entries_out)
  fix k assume "k \<in> {1..<4 :: nat}"
  then have k: "0 < k" "k < 4" by auto
  show "slot u (of_nat j) \<notin> (\<lambda>i. slot (PD_table L k) (of_nat i)) ` {0..<512}"
    using slot64_neq [OF assms(2) static_okD(3) [OF assms(1) k(2)] assms(3) [OF k] assms(4)] by (simp add: image_iff)
qed

lemma init_identity_ent:
  assumes "page_aligned (PD_table L 0)" "j < 512"
  shows "pg_ent (init_identity L s) (slot (PD_table L 0) (of_nat j)) =
      table_on (of_nat (j * 4096)) (pg_ent s (slot (PD_table L 0) (of_nat j)))"
    "page_aligned u \<Longrightarrow> u \<noteq> PD_table L 0 \<Longrightarrow> pg_ent (init_identity L s) (slot u (of_nat j)) = pg_ent s (slot u (of_nat j))"
proof -
  show "pg_ent (init_identity L s) (slot (PD_table L 0) (of_nat j)) =
      table_on (of_nat (j * 4096)) (pg_ent s (slot (PD_table L 0) (of_nat j)))"
    unfolding init_identity_def using assms by (intro for_entries_in slots_inj) simp_all
  assume u: "page_aligned u" "u \<noteq> PD_table L 0"
  then have "slot u (of_nat j) \<notin> (\<lambda>i. slot (PD_table L 0) (of_nat i)) ` {0..<512}"
    using slot64_neq [OF u(1) assms(1) u(2) assms(2)] by (simp add: image_iff)
  from for_entries_out [OF this] show "pg_ent (init_identity L s) (slot u (of_nat j)) = pg_ent s (slot u (of_nat j))"
    by (simp add: init_identity_def)
qed

lemma init_entries:
  assumes L: "static_ok L" and s: "\<not> pg_initialized s"
  shows "i < 512 \<Longrightarrow> pg_ent (init_paging L s) (slot (PD_table L 0) (of_nat i)) =
      table_on (of_nat (i * 4096)) (pg_ent s (slot (PD_table L 0) (of_nat i)))"
    "pg_ent (init_paging L s) (slot (PDPT_at L) 0) = table_on (PD_table L 0) (pg_ent s (slot (PDPT_at L) 0))"
    "pg_ent (init_paging L s) (slot (PML4_at L) 0) = table_on (PDPT_at L) (pg_ent s (slot (PML4_at L) 0))"
    "pg_cr3 (init_paging L s) = pg_cr3 s"
proof -
  note d = static_okD [OF L]
  have d0: "page_aligned (PD_table L 0)" "PDPT_at L \<noteq> PD_table L 0" "PML4_at L \<noteq> PD_table L 0" using d(3,5,6) [of 0] by simp_all
  have e: "pg_ent (init_paging L s) = pg_ent (init_PML4 L (init_PDPT L (init_unused L (init_identity L s))))"
    using s by (simp add: init_paging_def)
  have p4: "pg_ent (init_PML4 L t) (slot u (of_nat j)) = pg_ent t (slot u (of_nat j))"
    if "page_aligned u" "u \<noteq> PML4_at L" "j < 512" for t u j
    unfolding init_PML4_def by (rule table_head(2) [OF d(1) _ that]) simp
  have p3: "pg_ent (init_PDPT L t) (slot u (of_nat j)) = pg_ent t (slot u (of_nat j))"
    if "page_aligned u" "u \<noteq> PDPT_at L" "j < 512" for t u j
    unfolding init_PDPT_def by (rule table_head(2) [OF d(2) _ that]) simp
  show "pg_ent (init_paging L s) (slot (PD_table L 0) (of_nat i)) =
      table_on (of_nat (i * 4096)) (pg_ent s (slot (PD_table L 0) (of_nat i)))" if "i < 512"
    using that d0 d(7) [symmetric] by (simp add: e p4 p3 init_unused_out [OF L] init_identity_ent(1) del: of_nat_mult)
  have "pg_ent (init_paging L s) (slot (PDPT_at L) (of_nat 0)) =
      pg_ent (init_PDPT L (init_unused L (init_identity L s))) (slot (PDPT_at L) (of_nat 0))"
    unfolding e using d by (intro p4) simp_all
  also have "\<dots> = table_on (PD_table L 0) (pg_ent (init_unused L (init_identity L s)) (slot (PDPT_at L) (of_nat 0)))"
    using table_head(1) [OF d(2), of 4] by (simp add: init_PDPT_def)
  also have "pg_ent (init_unused L (init_identity L s)) (slot (PDPT_at L) (of_nat 0)) = pg_ent s (slot (PDPT_at L) (of_nat 0))"
    using init_unused_out [OF L d(2), of 0] init_identity_ent(2) [OF d0(1), of 0 "PDPT_at L"] d(2,6) d0 by simp
  finally show "pg_ent (init_paging L s) (slot (PDPT_at L) 0) = table_on (PD_table L 0) (pg_ent s (slot (PDPT_at L) 0))" by simp
  have "pg_ent (init_PDPT L (init_unused L (init_identity L s))) (slot (PML4_at L) (of_nat 0)) = pg_ent s (slot (PML4_at L) (of_nat 0))"
    using p3 [OF d(1,4), of 0] init_unused_out [OF L d(1), of 0] init_identity_ent(2) [OF d0(1), of 0 "PML4_at L"] d(1,5) d0 by simp
  then show "pg_ent (init_paging L s) (slot (PML4_at L) 0) = table_on (PDPT_at L) (pg_ent s (slot (PML4_at L) 0))"
    unfolding e using table_head(1) [OF d(1), of 512] by (simp add: init_PML4_def)
  show "pg_cr3 (init_paging L s) = pg_cr3 s"
    using s by (simp add: init_paging_def init_PML4_def init_PDPT_def init_unused_def init_identity_def for_entries_same [where F = pg_cr3])
qed

lemma init_walk:
  assumes "static_ok L" "\<not> pg_initialized s" "i < 512"
    and "\<not> bit (pg_ent s (slot (PML4_at L) 0)) 7" "\<not> bit (pg_ent s (slot (PDPT_at L) 0)) 7"
      "\<not> bit (pg_ent s (slot (PD_table L 0) (of_nat i))) 7"
  shows "walk (pg_ent (init_paging L s)) (PML4_at L) [0, 0, of_nat i] = Some (of_nat (i * 4096))"
proof -
  have "physical_address (of_nat (i * 4096)) = of_nat (i * 4096)"
  proof (rule bit_word_eqI)
    fix n
    have "\<not> bit (i * 4096) n" if "n < 12" using that bit_push_bit_iff_nat [of 12 i n] by (simp add: push_bit_nat_def)
    moreover have "\<not> bit (i * 4096) n" if "52 \<le> n"
    proof -
      have "i * 4096 < 2 ^ 21" using assms(3) by simp
      also have "\<dots> \<le> 2 ^ n" using that by (intro power_increasing) simp_all
      finally show ?thesis by (simp add: bit_iff_odd)
    qed
    ultimately show "bit (physical_address (of_nat (i * 4096))) n = bit (of_nat (i * 4096) :: u64) n"
      unfolding bit_set bit_of_nat_iff by (metis not_le)
  qed
  then show ?thesis
    using assms static_okD(8-10) [OF assms(1)]
    by (simp add: init_entries [OF assms(1,2)] points_def table_on_fields)
qed

text \<open>An interior entry that exists is not changed when another page is mapped below it.\<close>

lemma next_table_keeps:
  "is_present (pg_ent s a) \<Longrightarrow> next_table flags t i s = Inr (u, s') \<Longrightarrow> pg_ent s' a = pg_ent s a"
  by (auto simp: next_table_def split: if_splits prod.splits option.splits)

text \<open>An example: the static tables from 0x10000 on, and empty tables.\<close>

definition table_example :: table_addresses where
  "table_example = \<lparr>PML4_at = 0x10000, PDPT_at = 0x11000, PD_at = 0x12000\<rparr>"

definition paging_example :: paging where
  "paging_example = \<lparr>pg_ent = (\<lambda>_. 0), pg_pmm = pmm_example, pg_cr3 = 0, pg_initialized = False\<rparr>"

lemma example_free_pages: "free_tables paging_example = ucast ` free_pool vmm_example"
  by (simp add: free_tables_def free_pool_def paging_example_def vmm_example_def switch_directory_def vmm_new_def)

lemma paging_example_room: "3 \<le> card (free_tables paging_example)"
proof -
  let ?f = "\<lambda>k. (ucast (page_of k) :: u64)"
  have "?f ` {160, 161, 162} \<subseteq> free_tables paging_example"
    unfolding example_free_pages using vmm_example_free by auto
  moreover have "card (?f ` {160, 161, 162}) = 3" by (simp add: page_of_def)
  moreover have "finite (free_tables paging_example)"
    using pages.pool_finite [OF pmm_example_inv] by (simp add: free_tables_def paging_example_def)
  ultimately show ?thesis by (metis card_mono)
qed

lemma paging_example_wf: "tree_clean (PML4_at table_example) paging_example"
proof (rule tree_cleanI)
  have w: "walk (pg_ent paging_example) r p = (if p = [] then Some r else None)" for r p
    by (cases p) (simp_all add: paging_example_def points_def)
  have "(0x10000 :: u32) \<notin> page_pool pmm_example" by (rule example_pool_high) simp
  then have "(ucast (0x10000 :: u32) :: u64) \<notin> free_tables paging_example"
    unfolding free_tables_def image_iff ucast_inj_u64 by (auto simp: paging_example_def)
  then have "(0x10000 :: u64) \<notin> free_tables paging_example" by simp
  then show "t \<notin> free_tables paging_example \<and> as_pointer t = t" if "walk (pg_ent paging_example) (PML4_at table_example) p = Some t" for p t
    using that by (simp add: w table_example_def as_pointer_def split: if_splits)
  show "q = p" if "walk (pg_ent paging_example) (PML4_at table_example) p = Some t"
    "walk (pg_ent paging_example) (PML4_at table_example) q = Some t" for p q t
    using that by (simp add: w split: if_splits)
qed (simp_all add: paging_example_def pmm_example_inv table_example_def page_aligned_def)

lemma table_example_ok: "static_ok table_example"
  by (simp add: static_ok_def table_example_def PD_table_def physical_address_def upt_rec atLeast0LessThan lessThan_nat_numeral lessThan_Suc)

section \<open>Properties\<close>

text \<open>
  The fields of an entry are independent and read back: the address that is set is
  the address that is read, without its offset bits, and every setter leaves the other
  fields alone.
\<close>

theorem entry_fields_independent:
  "physical_address (set_address a v) = a AND ADDR \<and> is_present (set_address a v) = is_present v \<and>
   physical_address (set_present b v) = physical_address v \<and> is_present (set_present b v) = b \<and>
   set_present b (set_address a v) = set_address a (set_present b v) \<and>
   set_writable c (set_user d v) = set_user d (set_writable c v) \<and>
   set_address a (set_address a' v) = set_address a v"
  by (auto intro!: bit_word_eqI simp: entry_bits physical_address_def [symmetric])

text \<open>
  C19. Four-level mapping refines an update of the page map. Let the tables be a tree without
  large pages, all of them below four gigabytes where the 32-bit pointers of the code reach them, let every page the memory manager may still hand out hold
  zeros (the code does not clear a new table), and let three such pages be left. Then
  \<open>map_page\<close> returns, the tables stay such a tree and the free pages zero, and seen by the processor through the tables exactly the page of the
  address has a new entry, with the physical page and the access bits asked for; every
  other page keeps its entry. A page is the bits 12 to 47 of its addresses.
\<close>

theorem map_page64_refines:
  assumes "tree_wf (PML4_at L) s" "free_zero s" "3 \<le> card (free_tables s)"
  shows "\<exists>s' e. map_page64 L virt phys flags s = Inr s' \<and> tree_wf (PML4_at L) s' \<and> free_zero s' \<and>
    physical_address e = phys AND ADDR \<and> is_present e \<and> bit e 1 = (flags AND 2 \<noteq> 0) \<and> bit e 2 = (flags AND 4 \<noteq> 0) \<and>
    (\<forall>v. page_entry (PML4_at L) s' (page_path v) =
      (if take_bit 36 (drop_bit 12 v) = take_bit 36 (drop_bit 12 virt) then Some e
       else page_entry (PML4_at L) s (page_path v)))"
proof -
  have "tree_clean (PML4_at L) s" using assms by (simp add: tree_clean_def)
  then obtain s' x where s': "map_page64 L virt phys flags s = Inr s'" "tree_clean (PML4_at L) s'"
    "\<forall>w. page_entry (PML4_at L) s' (page_path w) =
      (if page_path w = page_path virt then Some (mapped_entry phys flags x) else page_entry (PML4_at L) s (page_path w))"
    using map_page64_ok [OF _ assms(3), of L virt phys flags] by blast
  then show ?thesis
    using mapped_entry_fields [of phys flags x] unfolding page_path_bits physical_address_def [of phys] tree_clean_def by blast
qed

theorem map_page64_refines_witness:
  "\<exists>s' e. map_page64 table_example 0xFFFF800000201000 0x400000 3 paging_example = Inr s' \<and> tree_wf (PML4_at table_example) s' \<and>
    free_zero s' \<and>
    physical_address e = 0x400000 AND ADDR \<and> is_present e \<and> bit e 1 = ((3 :: u64) AND 2 \<noteq> 0) \<and> bit e 2 = ((3 :: u64) AND 4 \<noteq> 0) \<and>
    (\<forall>v. page_entry (PML4_at table_example) s' (page_path v) =
      (if take_bit 36 (drop_bit 12 v) = take_bit 36 (drop_bit 12 0xFFFF800000201000) then Some e
       else page_entry (PML4_at table_example) paging_example (page_path v)))"
  by (rule map_page64_refines [OF paging_example_wf [unfolded tree_clean_def, THEN conjunct1]
      paging_example_wf [unfolded tree_clean_def, THEN conjunct2] paging_example_room])

text \<open>
  Initialising does not switch paging over and maps no memory: the page table base register
  keeps its value, because the instruction reads it, and the entries of the page
  directory name the frames 0, 4096, 8192, \<dots> as page tables, so that translation
  would take its entries from the first two megabytes of memory.
\<close>

theorem init_paging_wrong_tables:
  assumes "static_ok L" "\<not> pg_initialized s" "i < 512"
    and "\<not> bit (pg_ent s (slot (PML4_at L) 0)) 7" "\<not> bit (pg_ent s (slot (PDPT_at L) 0)) 7"
      "\<not> bit (pg_ent s (slot (PD_table L 0) (of_nat i))) 7"
  shows "walk (pg_ent (init_paging L s)) (PML4_at L) [0, 0, of_nat i] = Some (of_nat (i * 4096)) \<and>
    pg_cr3 (init_paging L s) = pg_cr3 s \<and> init_paging L (init_paging L s) = init_paging L s"
proof -
  have "pg_initialized (init_paging L s)" by (simp add: init_paging_def)
  then show ?thesis
    using init_walk [OF assms] init_entries(4) [OF assms(1,2)] by (simp add: init_paging_def [of L "init_paging L s"])
qed

theorem init_paging_wrong_tables_witness:
  "walk (pg_ent (init_paging table_example paging_example)) (PML4_at table_example) [0, 0, of_nat 3] = Some (of_nat (3 * 4096)) \<and>
    pg_cr3 (init_paging table_example paging_example) = pg_cr3 paging_example \<and>
    init_paging table_example (init_paging table_example paging_example) = init_paging table_example paging_example"
  by (rule init_paging_wrong_tables [OF table_example_ok]) (simp_all add: paging_example_def)

end
