(* ===== verification/Audio_Api.thy ===== *)
theory Audio_Api
  imports Process
begin

text \<open>
  The sound interface for programs, \<^verbatim>\<open>sound/api/audio.cs\<close>: calls of the imported function
  \<open>syscall\<close>, which is a parameter here, and its meeting with the system call handler of the
  kernel.
\<close>

section \<open>Operations\<close>

type_synonym 's sys = "int \<Rightarrow> int list \<Rightarrow> 's \<Rightarrow> int \<times> 's"

abbreviation SYS_AUDIO_PLAY :: int where "SYS_AUDIO_PLAY \<equiv> 100"
abbreviation SYS_AUDIO_STOP :: int where "SYS_AUDIO_STOP \<equiv> 101"
abbreviation SYS_AUDIO_VOLUME :: int where "SYS_AUDIO_VOLUME \<equiv> 102"

definition PlaySound :: "'s sys \<Rightarrow> int \<Rightarrow> int \<Rightarrow> 's \<Rightarrow> 's" where
  "PlaySound syscall frequency duration_ms s = snd (syscall SYS_AUDIO_PLAY [frequency, duration_ms] s)"

definition StopSound :: "'s sys \<Rightarrow> 's \<Rightarrow> 's" where
  "StopSound syscall s = snd (syscall SYS_AUDIO_STOP [] s)"

definition SetVolume :: "'s sys \<Rightarrow> int \<Rightarrow> 's \<Rightarrow> 's" where
  "SetVolume syscall volume_percent s =
     (let volume_percent = (if volume_percent < 0 then 0 else volume_percent);
          volume_percent = (if volume_percent > 100 then 100 else volume_percent) in
      snd (syscall SYS_AUDIO_VOLUME [volume_percent] s))"

record audio_player =
  is_playing :: bool

definition player_new :: audio_player where
  "player_new = \<lparr>is_playing = False\<rparr>"

definition PlayBeep :: "'s sys \<Rightarrow> audio_player \<times> 's \<Rightarrow> audio_player \<times> 's" where
  "PlayBeep syscall ps = (case ps of (p, s) \<Rightarrow> let s = PlaySound syscall 440 500 s in (p\<lparr>is_playing := True\<rparr>, s))"

definition player_stop :: "'s sys \<Rightarrow> audio_player \<times> 's \<Rightarrow> audio_player \<times> 's" where
  "player_stop syscall ps = (case ps of (p, s) \<Rightarrow> let s = StopSound syscall s in (p\<lparr>is_playing := False\<rparr>, s))"

section \<open>On this kernel\<close>

text \<open>The kernel's side: the number and up to three arguments in registers, through interrupt 0x80.\<close>

definition argument :: "int list \<Rightarrow> nat \<Rightarrow> u32" where
  "argument args i = (if i < length args then word_of_int (args ! i) else 0)"

definition kernel_sys ::
  "(u32 \<Rightarrow> u32 \<Rightarrow> 's \<Rightarrow> 's) \<Rightarrow> (u32 \<Rightarrow> 's \<Rightarrow> u32 \<times> 's) \<Rightarrow> (u32 \<Rightarrow> u32 \<Rightarrow> 's \<Rightarrow> 's) \<Rightarrow> interrupt_frame \<Rightarrow> 's sys" where
  "kernel_sys terminal_write sys_alloc sys_free regs num args s =
     (let (r, s) = syscall_wrapper (syscall_int80_handler terminal_write sys_alloc sys_free) regs
                     (word_of_int num) (argument args 0) (argument args 1) (argument args 2) s in
      (sint r, s))"

lemma kernel_sys_audio:
  "num \<in> {100, 101, 102} \<Longrightarrow> kernel_sys tw sa sf regs num args s = (- 1, s)"
  by (auto simp: kernel_sys_def syscall_wrapper_def syscall_int80_handler_def syscall_handler_def)

section \<open>Properties\<close>

text \<open>The volume that reaches the kernel is a percentage, whatever the program asks for.\<close>

theorem volume_is_percentage:
  "SetVolume syscall v s = snd (syscall SYS_AUDIO_VOLUME [max 0 (min 100 v)] s) \<and> 0 \<le> max 0 (min 100 v) \<and> max 0 (min 100 v) \<le> (100 :: int)"
  by (auto simp: SetVolume_def Let_def max_def min_def)

text \<open>
  The sound interface is silent on this kernel: the handler knows none of its numbers, so
  that after any sequence of beeps and stops the machine is as before, while the player
  claims to be playing exactly if its last call was a beep.
\<close>

definition player_run :: "'s sys \<Rightarrow> bool list \<Rightarrow> audio_player \<times> 's \<Rightarrow> audio_player \<times> 's" where
  "player_run syscall = fold (\<lambda>beep. if beep then PlayBeep syscall else player_stop syscall)"

theorem player_silent:
  "player_run (kernel_sys terminal_write sys_alloc sys_free regs) calls (p, s) =
     (if calls = [] then p else p\<lparr>is_playing := last calls\<rparr>, s)"
proof (induction calls arbitrary: p)
  case (Cons c calls)
  then show ?case
    by (simp add: player_run_def PlayBeep_def player_stop_def PlaySound_def StopSound_def kernel_sys_audio)
qed (simp add: player_run_def)

end
