(* ===== verification/Session.thy ===== *)
theory Session
  imports Shell
begin

text \<open>
  What a user of \<^verbatim>\<open>kernel/shell/shell_main.c\<close> sees. A session is the document on the
  terminal, the typed line, the remembered lines with the recall position, the state of the
  escape sequence and the machine's files, clock and sizes. \<open>session_key\<close> says what a key
  does to it, without buffers, argument vectors, ring of rows or screen memory; the key
  handler of the shell is shown to follow it for every key, through every command.
\<close>

section \<open>Output\<close>

text \<open>What a command sends to the terminal: text, a change of colour, a cleared screen.\<close>

datatype out_item =
    Text "u8 list"
  | Color u8 u8
  | Wipe

primrec display :: "out_item \<Rightarrow> tty \<Rightarrow> tty" where
  "display (Text cs) t = fold tty_put cs t"
| "display (Color fg bg) t = t\<lparr>tty_color := push_bit 4 bg OR fg\<rparr>"
| "display Wipe t = blank_tty (tty_color t)"

abbreviation say :: "string \<Rightarrow> out_item" where
  "say t \<equiv> Text (map of_char t)"

text \<open>
  \<open>prints s m outs\<close>: from the state \<open>s\<close>, the run \<open>m\<close> returns and has shown \<open>outs\<close>; it
  has changed nothing but the console and the port log.
\<close>

definition prints :: "'a vga_state_scheme \<Rightarrow> 'a vga_state_scheme res \<Rightarrow> out_item list \<Rightarrow> bool" where
  "prints s m outs \<longleftrightarrow>
     (\<forall>t. shows_tty t s \<longrightarrow> succeeds m (\<lambda>s'. on_screen s s' \<and> shows_tty (fold display outs t) s'))"

lemma prints_emit: "prints s (emit cs s) [Text cs]"
  unfolding prints_def
proof (intro allI impI)
  fix t assume t: "shows_tty t s"
  have "succeeds (emit cs s) (on_screen s)"
    by (rule succeeds_weaken [OF emit_on_screen [OF shows_tty_wf [OF t]]]) simp
  moreover have "succeeds (emit cs s) (shows_tty (fold tty_put cs t))"
    unfolding emit_def by (rule foldR_shows [OF t])
  ultimately show "succeeds (emit cs s) (\<lambda>s'. on_screen s s' \<and> shows_tty (fold display [Text cs] t) s')"
    by (auto dest: succeeds_conj)
qed

lemma prints_writestring: "terminated p \<Longrightarrow> prints s (vga_writestring p s) [Text (cstring p)]"
  by (simp add: emit_writestring prints_emit)

lemma prints_color: "prints s ((Inr \<circ> vga_set_color fg bg) s) [Color fg bg]"
  unfolding prints_def
  using vga_set_color_on_screen [OF shows_tty_wf, of _ s fg bg] by (auto simp: shows_tty_def vga_set_color_def)

lemma prints_wipe: "prints s (vga_clear s) [Wipe]"
  unfolding prints_def
proof (intro allI impI)
  fix t assume t: "shows_tty t s"
  have "length (vga_buffer s) = 2000" "current_color s = tty_color t"
    using shows_tty_wf [OF t] t by (simp_all add: vga_wf_def shows_tty_def)
  then show "succeeds (vga_clear s) (\<lambda>s'. on_screen s s' \<and> shows_tty (fold display [Wipe] t) s')"
    by (simp add: vga_clear_eq on_screen_def vga_wf_def shows_tty_def blank_tty_def concat_replicate_replicate)
qed

lemma prints_bind:
  assumes "prints s m a" "\<And>s'. prints s' (f s') b"
  shows "prints s (bindR m f) (a @ b)"
  unfolding prints_def
proof (intro allI impI)
  fix t assume "shows_tty t s"
  with assms(1) have "succeeds m (\<lambda>s'. on_screen s s' \<and> shows_tty (fold display a t) s')" by (simp add: prints_def)
  then show "succeeds (bindR m f) (\<lambda>s'. on_screen s s' \<and> shows_tty (fold display (a @ b) t) s')"
  proof (rule succeeds_bindR)
    fix s' assume s': "on_screen s s' \<and> shows_tty (fold display a t) s'"
    then have "succeeds (f s') (\<lambda>x. on_screen s' x \<and> shows_tty (fold display b (fold display a t)) x)"
      using assms(2) [of s'] by (simp add: prints_def)
    then show "succeeds (f s') (\<lambda>x. on_screen s x \<and> shows_tty (fold display (a @ b) t) x)"
      by (rule succeeds_weaken) (use s' in \<open>auto intro: on_screen_trans\<close>)
  qed
qed

lemma prints_Nil: "prints s (Inr s) []"
  by (simp add: prints_def on_screen_refl shows_tty_wf)

lemma prints_seq:
  "prints s (seqR [] s) []"
  "(\<And>s. prints s (f s) a) \<Longrightarrow> (\<And>s. prints s (seqR fs s) b) \<Longrightarrow> prints s (seqR (f # fs) s) (a @ b)"
  by (simp_all add: prints_Nil prints_bind)

lemma prints_cong: "prints s m a \<Longrightarrow> fold display a = fold display b \<Longrightarrow> prints s m b"
  by (simp add: prints_def)

section \<open>What the commands show\<close>

definition prompt_output :: "out_item list" where
  "prompt_output = [Color 0x0C 0, say ''['', Color 0x0B 0, say ''larch'', Color 0x0C 0, say '']'',
     Color 0x0A 0, say '' $> '', Color 0x0F 0]"

definition help_output :: "out_item list" where
  "help_output =
     [say [NL], Color 0x0B 0, say ('' Larch Commands '' @ [NL]), Color 0x0F 0,
      say ([NL]
        @ ''  help      - Show this help message'' @ [NL]
        @ ''  clear     - Clear the screen'' @ [NL]
        @ ''  reboot    - Reboot the system'' @ [NL]
        @ ''  ls        - List files in initramfs'' @ [NL]
        @ ''  cat <file> - Display file contents'' @ [NL]
        @ ''  echo <text> - Print text to screen'' @ [NL]
        @ ''  mem       - Show memory usage'' @ [NL]
        @ ''  uptime    - Show system uptime'' @ [NL]
        @ ''  uname     - Show OS information'' @ [NL]
        @ ''  hexdump <file> - Hex dump of file'' @ [NL]
        @ ''  date      - Show current time from RTC'' @ [NL]
        @ ''  top       - Show running processes'' @ [NL, NL]),
      Color 0x0A 0, say (''Navigation: Up/Down arrows for command history'' @ [NL]), Color 0x0F 0]"

definition uname_output :: "string \<Rightarrow> out_item list" where
  "uname_output build =
     [say ([NL] @ ''Larch OS v1.0 (Larchwood)'' @ [NL] @ ''Kernel: Larch Kernel'' @ [NL] @ ''Arch: i686'' @ [NL]),
      Text (cstring (cstr (''Build: '' @ build @ [NL])))]"

definition unknown_output :: "u8 list \<Rightarrow> out_item list" where
  "unknown_output name =
     [Color 0x0C 0, say ''Unknown command: '', Text name, say [NL], Color 0x0F 0]"

lemma prints_literal: "CHR 0x00 \<notin> set t \<Longrightarrow> prints s (vga_writestring (cstr t) s) [say t]"
  using prints_writestring [of "cstr t" s] by (simp add: cstring_cstr)

lemma shell_prompt_prints: "prints s (shell_prompt s) prompt_output"
  unfolding shell_prompt_def
  by (rule prints_cong, (rule prints_seq prints_color | (rule prints_literal, simp))+)
    (simp add: prompt_output_def)

lemma cmd_help_prints: "prints s (cmd_help s) help_output"
  unfolding cmd_help_def
  by (rule prints_cong, (rule prints_seq prints_color | (rule prints_literal, simp))+)
    (simp add: help_output_def fun_eq_iff)

lemma cmd_uname_prints: "prints s (cmd_uname build s) (uname_output build)"
  unfolding cmd_uname_def
  by (rule prints_cong, (rule prints_seq | (rule prints_writestring, simp))+)
    (simp add: uname_output_def cstring_cstr fun_eq_iff)

lemma unknown_command_prints: "terminated p \<Longrightarrow> prints s (unknown_command p s) (unknown_output (cstring p))"
  unfolding unknown_command_def
  by (rule prints_cong, (rule prints_seq prints_color | (rule prints_writestring, simp))+)
    (simp add: unknown_output_def cstring_cstr)

section \<open>Sessions\<close>

record session =
  ses_tty :: tty
  ses_line :: "u8 list"
  ses_history :: "u8 list list"
  ses_recall :: nat
  ses_escape :: int
  ses_devices :: "u8 list"
  ses_files :: "(u8 list \<times> u8 list) list"
  ses_ticks :: nat
  ses_memory :: u32

text \<open>The text of the clock for its four answers: status, seconds, minutes, hours.\<close>

definition date_text :: "u8 \<Rightarrow> u8 \<Rightarrow> u8 \<Rightarrow> u8 \<Rightarrow> u8 list" where
  "date_text st sec mi hr =
     (let num = (\<lambda>v. cstring (two_digits (if bit st 2 then uint v else rtc_bcd_to_bin v))) in
      [10] @ num hr @ [0x3A] @ num mi @ [0x3A] @ num sec @ [10])"

text \<open>
  What a command shows and what it leaves of the devices' answers. There is no entry for
  \<open>reboot\<close>, which does not return, and \<open>date\<close> needs four answers of the clock.
\<close>

definition command_outputs ::
  "string \<Rightarrow> u8 list list \<Rightarrow> session \<Rightarrow> (u8 list \<times> (out_item list \<times> u8 list) option) list" where
  "command_outputs build args a =
     (let shown = (\<lambda>outs. Some (outs, ses_devices a)) in
      [(map of_char ''help'', shown help_output),
       (map of_char ''clear'', shown [Wipe]),
       (map of_char ''reboot'', None),
       (map of_char ''ls'', shown [say ([NL] @ ''initramfs files:'' @ [NL] @ ''  bin/hello'' @ [NL, NL])])]
      @ (if args = [] then []
         else [(map of_char ''cat'', shown [case map_of (ses_files a) (hd args) of
                  None \<Rightarrow> Text (map of_char ''File not found: '' @ hd args @ [10])
                | Some d \<Rightarrow> Text ([10] @ d @ [10])]),
               (map of_char ''hexdump'', shown [case map_of (ses_files a) (hd args) of
                  None \<Rightarrow> say (''File not found'' @ [NL])
                | Some d \<Rightarrow> Text ([10] @ concat (map hex_row (chunks 16 d)))])])
      @ [(map of_char ''echo'', shown [Text ([10] @ (if args = [] then [] else hd args) @ [10])]),
         (map of_char ''mem'', shown [Text (map of_char ([NL] @ ''Memory Information:'' @ [NL] @ ''  Total: '')
            @ dec_string (unat (ses_memory a) div 2 ^ 20)
            @ map of_char ('' MB'' @ [NL] @ ''  Free: unknown yet'' @ [NL]))]),
         (map of_char ''uptime'', shown [Text (uptime_text (ses_ticks a div 100))]),
         (map of_char ''uname'', shown (uname_output build)),
         (map of_char ''date'', case ses_devices a of
            st # sec # mi # hr # rest \<Rightarrow> Some ([Text (date_text st sec mi hr)], rest) | _ \<Rightarrow> None),
         (map of_char ''top'', shown [Text (map of_char ([NL] @ ''PID  STATE     TICKS'' @ [NL]
            @ ''---  -----     -----'' @ [NL] @ ''  1  RUNNING   '') @ dec_string (ses_ticks a) @ [10, 10])])])"

definition command_output :: "string \<Rightarrow> u8 list list \<Rightarrow> session \<Rightarrow> (out_item list \<times> u8 list) option" where
  "command_output build ws a =
     (case ws of
        [] \<Rightarrow> Some ([], ses_devices a)
      | name # args \<Rightarrow>
          (case map_of (command_outputs build args a) name of
             None \<Rightarrow> Some (unknown_output name, ses_devices a)
           | Some out \<Rightarrow> out))"

text \<open>Enter: the line break, the command's output and the prompt; the line is remembered.\<close>

definition session_enter :: "string \<Rightarrow> session \<Rightarrow> session option" where
  "session_enter build a =
     (let line = strip_newlines (ses_line a);
          hist = (if line = [] then ses_history a else last_n 20 (ses_history a @ [line])) in
      case command_output build (words line) a of
        None \<Rightarrow> None
      | Some (outs, devices) \<Rightarrow>
          Some (a\<lparr>ses_tty := fold display (outs @ prompt_output) (tty_put 10 (ses_tty a)),
                 ses_line := [], ses_history := hist,
                 ses_recall := (if line = [] then ses_recall a else length hist),
                 ses_escape := 0, ses_devices := devices\<rparr>))"

text \<open>Replacing the typed line: every character is wiped with \<open>"\b \b"\<close>.\<close>

definition replace_line :: "u8 list \<Rightarrow> session \<Rightarrow> session" where
  "replace_line l a =
     a\<lparr>ses_tty := fold tty_put (concat (replicate (length (ses_line a)) [8, 0x20, 8]) @ l) (ses_tty a),
       ses_line := l\<rparr>"

definition session_up :: "session \<Rightarrow> session" where
  "session_up a =
     (let k = ses_recall a - 1; h = ses_history a; a = a\<lparr>ses_recall := k\<rparr> in
      if h = [] \<or> h ! k = [] then a else replace_line (h ! k) a)"

definition session_down :: "session \<Rightarrow> session" where
  "session_down a =
     (let k = Suc (ses_recall a); h = ses_history a in
      if k < length h then replace_line (h ! k) (a\<lparr>ses_recall := k\<rparr>)
      else replace_line [] (a\<lparr>ses_recall := length h\<rparr>))"

definition session_type :: "u8 \<Rightarrow> session \<Rightarrow> session" where
  "session_type key a =
     (if edit_line key (ses_line a) = ses_line a then a
      else a\<lparr>ses_line := edit_line key (ses_line a), ses_tty := tty_put key (ses_tty a)\<rparr>)"

definition session_key :: "string \<Rightarrow> u8 \<Rightarrow> session \<Rightarrow> session option" where
  "session_key build key a =
     (if ses_escape a = 1 \<and> key = of_char (CHR ''['') then Some (a\<lparr>ses_escape := 2\<rparr>)
      else if ses_escape a = 2
      then let a = a\<lparr>ses_escape := 0\<rparr> in
           Some (if key = of_char (CHR ''A'') then session_up a
                 else if key = of_char (CHR ''B'') then session_down a else a)
      else let a = (if ses_escape a = 1 then a\<lparr>ses_escape := 0\<rparr> else a) in
           if key = 0x1B then Some (a\<lparr>ses_escape := 1\<rparr>)
           else if key = 10 then session_enter build a
           else Some (session_type key a))"

text \<open>\<open>in_session a s\<close>: the shell in state \<open>s\<close> is in the session \<open>a\<close>.\<close>

definition in_session :: "session \<Rightarrow> 'a shell_state_scheme \<Rightarrow> bool" where
  "in_session a s \<longleftrightarrow> editor_wf s \<and> shows_tty (ses_tty a) s \<and> editor_line s = ses_line a \<and>
     hist_entries (shell_history s) = ses_history a \<and> hist_cursor (shell_history s) = ses_recall a \<and>
     escape_sequence s = ses_escape a \<and> ins s = ses_devices a \<and> fs_dir (initrd s) = ses_files a \<and>
     unat (tick_count s) = ses_ticks a \<and>
     multiboot2_memory_lower s + multiboot2_memory_upper s = ses_memory a"

section \<open>Commands follow their outputs\<close>

text \<open>The part of a session that commands read.\<close>

definition same_machine :: "session \<Rightarrow> 'a machine_state_scheme \<Rightarrow> bool" where
  "same_machine a s \<longleftrightarrow> ins s = ses_devices a \<and> fs_dir (initrd s) = ses_files a \<and>
     unat (tick_count s) = ses_ticks a \<and>
     multiboot2_memory_lower s + multiboot2_memory_upper s = ses_memory a"

definition follows :: "'a vga_state_scheme \<Rightarrow> 'a vga_state_scheme res \<Rightarrow> (out_item list \<times> u8 list) option \<Rightarrow> bool" where
  "follows s m out \<longleftrightarrow> (\<forall>outs dev t. out = Some (outs, dev) \<longrightarrow> shows_tty t s \<longrightarrow>
     succeeds m (\<lambda>s'. kept s s' \<and> ins s' = dev \<and> shows_tty (fold display outs t) s'))"

lemma prints_follows: "prints s m outs \<Longrightarrow> follows s m (Some (outs, ins s))"
  by (auto simp: prints_def follows_def on_screen_def kept_def elim!: succeeds_weaken)

lemma emit_follows: "follows s (emit cs s) (Some ([Text cs], ins s))"
  by (rule prints_follows [OF prints_emit])

lemma follows_None [simp]: "follows s m None"
  by (simp add: follows_def)

lemma cmd_date_follows:
  assumes "ins s = st # sec # mi # hr # rest"
  shows "follows s (cmd_date s) (Some ([Text (date_text st sec mi hr)], rest))"
proof -
  let ?u = "clock_read st sec mi hr s" and ?num = "\<lambda>v. if bit st 2 then uint v else rtc_bcd_to_bin v"
  let ?print = "seqR [vga_writestring (cstr [NL]), vga_writestring (two_digits (?num hr)), vga_writestring (cstr '':''),
      vga_writestring (two_digits (?num mi)), vga_writestring (cstr '':''), vga_writestring (two_digits (?num sec)),
      vga_writestring (cstr [NL])]"
  have eq: "cmd_date s = ?print ?u" by (simp add: cmd_date_def rtc_get_time_eq [OF assms] del: seqR.simps)
  have p: "prints ?u (?print ?u) [Text (date_text st sec mi hr)]"
    by (rule prints_cong, (rule prints_seq | (rule prints_writestring, simp add: terminated_two_digits))+)
      (simp add: date_text_def cstring_cstr fun_eq_iff Let_def)
  have u: "ins ?u = rest" "\<And>t. shows_tty t s \<Longrightarrow> shows_tty t ?u" "\<And>t. on_screen ?u t \<Longrightarrow> kept s t"
    using assms by (cases s; simp add: clock_read_def shows_tty_def on_screen_def kept_def vga_state.defs)+
  show ?thesis
    unfolding follows_def eq
  proof (intro allI impI)
    fix outs dev t
    assume o: "Some ([Text (date_text st sec mi hr)], rest) = Some (outs, dev)" and t: "shows_tty t s"
    have "succeeds (?print ?u) (\<lambda>s'. on_screen ?u s' \<and> shows_tty (fold display outs t) s')"
      using p u(2) [OF t] o unfolding prints_def by blast
    then show "succeeds (?print ?u) (\<lambda>s'. kept s s' \<and> ins s' = dev \<and> shows_tty (fold display outs t) s')"
      by (rule succeeds_weaken) (use u o in \<open>auto simp: on_screen_def\<close>)
  qed
qed

lemma cmd_ls_follows: "follows s (cmd_ls s) (Some ([say ([NL] @ ''initramfs files:'' @ [NL] @ ''  bin/hello'' @ [NL, NL])], ins s))"
proof (rule prints_follows)
  show "prints s (cmd_ls s) [say ([NL] @ ''initramfs files:'' @ [NL] @ ''  bin/hello'' @ [NL, NL])]"
    unfolding cmd_ls_def
    by (rule prints_cong, (rule prints_seq | (rule prints_literal, simp))+) (simp add: fun_eq_iff)
qed

lemma cmd_echo_follows:
  assumes "terminated p"
  shows "follows s (cmd_echo p s) (Some ([Text ([10] @ cstring p @ [10])], ins s))"
proof (rule prints_follows)
  show "prints s (cmd_echo p s) [Text ([10] @ cstring p @ [10])]"
    unfolding cmd_echo_def
    by (rule prints_cong, (rule prints_seq | (rule prints_writestring, simp add: assms))+)
      (simp add: fun_eq_iff cstring_cstr)
qed

lemma map_of_list_all2:
  "list_all2 (\<lambda>x y. fst x = fst y \<and> R (snd x) (snd y)) xs ys \<Longrightarrow> rel_option R (map_of xs n) (map_of ys n)"
  by (induction xs ys rule: list_all2_induct) auto

lemma file_commands_follow:
  assumes "machine_wf s" "same_machine a s" "terminated p"
  shows "follows s (cmd_cat p s) (Some ([case map_of (ses_files a) (cstring p) of
            None \<Rightarrow> Text (map of_char ''File not found: '' @ cstring p @ [10]) | Some d \<Rightarrow> Text ([10] @ d @ [10])], ses_devices a))"
    "follows s (cmd_hexdump p s) (Some ([case map_of (ses_files a) (cstring p) of
            None \<Rightarrow> say (''File not found'' @ [NL]) | Some d \<Rightarrow> Text ([10] @ concat (map hex_row (chunks 16 d)))], ses_devices a))"
proof -
  have wf: "fs_wf (initrd s)" "vga_wf s" using assms(1) by (simp_all add: machine_wf_def)
  have d: "length d + 256 < 2 ^ 32" "length d + 16 < 2 ^ 32" if "map_of (fs_dir (initrd s)) (cstring p) = Some d" for d
    using machine_wf_files [OF assms(1) that] by simp_all
  have m: "fs_dir (initrd s) = ses_files a" "ins s = ses_devices a" using assms(2) by (simp_all add: same_machine_def)
  note e = emit_follows [of s, unfolded m(2)]
  show "follows s (cmd_cat p s) (Some ([case map_of (ses_files a) (cstring p) of
            None \<Rightarrow> Text (map of_char ''File not found: '' @ cstring p @ [10]) | Some d \<Rightarrow> Text ([10] @ d @ [10])], ses_devices a))"
    using cmd_cat_eq [OF wf assms(3) d(1)] e unfolding m(1) by (cases "map_of (ses_files a) (cstring p)") simp_all
  show "follows s (cmd_hexdump p s) (Some ([case map_of (ses_files a) (cstring p) of
            None \<Rightarrow> say (''File not found'' @ [NL]) | Some d \<Rightarrow> Text ([10] @ concat (map hex_row (chunks 16 d)))], ses_devices a))"
    using cmd_hexdump_eq [OF wf assms(3) d(2)] e unfolding m(1) by (cases "map_of (ses_files a) (cstring p)") simp_all
qed

lemma number_commands_follow:
  assumes "machine_wf s" "same_machine a s"
  shows "follows s (cmd_mem s) (Some ([Text (map of_char ([NL] @ ''Memory Information:'' @ [NL] @ ''  Total: '')
            @ dec_string (unat (ses_memory a) div 2 ^ 20)
            @ map of_char ('' MB'' @ [NL] @ ''  Free: unknown yet'' @ [NL]))], ses_devices a))"
    "follows s (cmd_uptime s) (Some ([Text (uptime_text (ses_ticks a div 100))], ses_devices a))"
    "follows s (cmd_top s) (Some ([Text (map of_char ([NL] @ ''PID  STATE     TICKS'' @ [NL]
            @ ''---  -----     -----'' @ [NL] @ ''  1  RUNNING   '') @ dec_string (ses_ticks a) @ [10, 10])], ses_devices a))"
proof -
  have m: "ins s = ses_devices a" "unat (tick_count s) = ses_ticks a"
    "multiboot2_memory_lower s + multiboot2_memory_upper s = ses_memory a" and t: "unat (tick_count s) < 3600000000"
    using assms by (simp_all add: same_machine_def machine_wf_def)
  note e = emit_follows [of s, unfolded m(1)]
  show "follows s (cmd_mem s) (Some ([Text (map of_char ([NL] @ ''Memory Information:'' @ [NL] @ ''  Total: '')
            @ dec_string (unat (ses_memory a) div 2 ^ 20)
            @ map of_char ('' MB'' @ [NL] @ ''  Free: unknown yet'' @ [NL]))], ses_devices a))"
    unfolding cmd_mem_eq m(3) by (simp add: e)
  show "follows s (cmd_uptime s) (Some ([Text (uptime_text (ses_ticks a div 100))], ses_devices a))"
    unfolding cmd_uptime_eq [OF t] m(2) by (rule e)
  show "follows s (cmd_top s) (Some ([Text (map of_char ([NL] @ ''PID  STATE     TICKS'' @ [NL]
            @ ''---  -----     -----'' @ [NL] @ ''  1  RUNNING   '') @ dec_string (ses_ticks a) @ [10, 10])], ses_devices a))"
    unfolding cmd_top_eq m(2) by (simp add: e)
qed

lemma command_tables_agree:
  fixes s :: "'a machine_state_scheme"
  assumes wf: "machine_wf s" "same_machine a s"
    and args: "\<And>p. p \<in> set args \<Longrightarrow> terminated p" "args = [] \<longleftrightarrow> ws = []" "args \<noteq> [] \<Longrightarrow> cstring (hd args) = hd ws"
  shows "list_all2 (\<lambda>x y. fst x = fst y \<and> follows s (snd x s) (snd y)) (command_table build args) (command_outputs build ws a)"
proof -
  have dev: "ins s = ses_devices a" using wf(2) by (simp add: same_machine_def)
  note one = prints_follows [of s, unfolded dev]
  have fixed: "follows s (cmd_help s) (Some (help_output, ses_devices a))" "follows s (cmd_clear s) (Some ([Wipe], ses_devices a))"
    "follows s (cmd_uname build s) (Some (uname_output build, ses_devices a))"
    using one [OF cmd_help_prints] one [OF prints_wipe] one [OF cmd_uname_prints] by (simp_all add: cmd_clear_def)
  have date: "follows s (cmd_date s) (case ses_devices a of
      st # sec # mi # hr # rest \<Rightarrow> Some ([Text (date_text st sec mi hr)], rest) | _ \<Rightarrow> None)"
    using cmd_date_follows [of s, unfolded dev] by (auto split: list.split)
  have echo: "follows s (cmd_echo (if args \<noteq> [] then hd args else cstr '''') s)
      (Some ([Text ([10] @ (if ws = [] then [] else hd ws) @ [10])], ses_devices a))"
    using cmd_echo_follows [of "hd args" s, unfolded dev] cmd_echo_follows [of "cstr ''''" s, unfolded dev] args
    by (cases "args = []") (simp_all add: cstring_cstr)
  show ?thesis
  proof (cases "args = []")
    case True
    then show ?thesis
      using fixed date echo cmd_ls_follows [of s, unfolded dev] number_commands_follow [OF wf] args(2)
      by (simp add: command_table_def command_outputs_def Let_def)
  next
    case False
    then have p: "terminated (hd args)" "ws \<noteq> []" "cstring (hd args) = hd ws" using args by simp_all
    show ?thesis
      using False p(2) fixed date echo cmd_ls_follows [of s, unfolded dev] number_commands_follow [OF wf]
        file_commands_follow [OF wf p(1), unfolded p(3)]
      by (simp add: command_table_def command_outputs_def Let_def)
  qed
qed

lemma dispatch_follows:
  fixes s :: "'a machine_state_scheme"
  assumes "machine_wf s" "same_machine a s" "terminated arg0"
    and "\<And>p. p \<in> set args \<Longrightarrow> terminated p" "args = [] \<longleftrightarrow> ws = []" "args \<noteq> [] \<Longrightarrow> cstring (hd args) = hd ws"
  shows "follows s (shell_dispatch build arg0 args s) (command_output build (cstring arg0 # ws) a)"
proof -
  have "rel_option (\<lambda>cmd. follows s (cmd s)) (map_of (command_table build args) (cstring arg0))
      (map_of (command_outputs build ws a) (cstring arg0))"
    by (rule map_of_list_all2, rule list_all2_mono [OF command_tables_agree [OF assms(1,2,4-6)]]) simp
  moreover have "follows s (unknown_command arg0 s) (Some (unknown_output (cstring arg0), ses_devices a))"
    using prints_follows [OF unknown_command_prints [OF assms(3), of s]] assms(2) by (simp add: same_machine_def)
  ultimately show ?thesis
    by (auto simp: shell_dispatch_table [OF assms(3)] command_output_def split: option.split)
qed

section \<open>A line\<close>

lemma kept_same_machine:
  "kept s s' \<Longrightarrow> ins s' = dev \<Longrightarrow> same_machine a s \<Longrightarrow> same_machine (a\<lparr>ses_devices := dev\<rparr>) s'"
  by (cases s; cases s'; simp add: kept_def same_machine_def vga_state.defs)

lemma follows_prompt:
  assumes "follows s m out"
  shows "follows s (bindR m shell_prompt) (map_option (\<lambda>(outs, dev). (outs @ prompt_output, dev)) out)"
  unfolding follows_def
proof (intro allI impI)
  fix outs dev t
  assume o: "map_option (\<lambda>(outs, dev). (outs @ prompt_output, dev)) out = Some (outs, dev)" and t: "shows_tty t s"
  then obtain os where os: "out = Some (os, dev)" "outs = os @ prompt_output" by auto
  with assms t have "succeeds m (\<lambda>s'. kept s s' \<and> ins s' = dev \<and> shows_tty (fold display os t) s')" by (simp add: follows_def)
  then show "succeeds (bindR m shell_prompt) (\<lambda>s'. kept s s' \<and> ins s' = dev \<and> shows_tty (fold display outs t) s')"
  proof (rule succeeds_bindR)
    fix u assume u: "kept s u \<and> ins u = dev \<and> shows_tty (fold display os t) u"
    from prints_follows [OF shell_prompt_prints, of u] u
    have "succeeds (shell_prompt u) (\<lambda>s'. kept u s' \<and> ins s' = dev \<and> shows_tty (fold display prompt_output (fold display os t)) s')"
      by (simp add: follows_def)
    then show "succeeds (shell_prompt u) (\<lambda>s'. kept s s' \<and> ins s' = dev \<and> shows_tty (fold display outs t) s')"
      by (rule succeeds_weaken) (use u os in \<open>auto intro: kept_trans\<close>)
  qed
qed

lemma shows_tty_update [simp]:
  "shows_tty t (s\<lparr>shell_history := h\<rparr>) = shows_tty t s" "shows_tty t (s\<lparr>input_buf := b\<rparr>) = shows_tty t s"
  "shows_tty t (s\<lparr>cmd_pos := n\<rparr>) = shows_tty t s"
  for s :: "'a editor_state_scheme"
  by (simp_all add: shows_tty_def)

lemma shows_tty_escape [simp]: "shows_tty t (s\<lparr>escape_sequence := e\<rparr>) = shows_tty t s"
  by (simp add: shows_tty_def)

lemma follows_returns:
  assumes "follows s m (Some (outs, dev))" "shows_tty t s"
  shows "succeeds (bindR m (\<lambda>s. Inr (b, s))) (\<lambda>(b, s'). ins s' = dev \<and> shows_tty (fold display outs t) s')"
proof (rule succeeds_bindR)
  show "succeeds m (\<lambda>s'. kept s s' \<and> ins s' = dev \<and> shows_tty (fold display outs t) s')"
    using assms by (simp add: follows_def)
qed simp

text \<open>
  Executing a line shows the command's output and the prompt; \<open>process_command_safe\<close> has
  already said what becomes of the buffer and the history.
\<close>

lemma process_command_shows:
  fixes s :: "'a editor_state_scheme"
  assumes wf: "machine_wf s" "hist_wf (shell_history s)" and buf: "terminated cmdline" "length cmdline = 256"
    and a: "same_machine a s" "command_output build (words (strip_newlines (cstring cmdline))) a = Some (outs, dev)"
    and t: "shows_tty t s"
  shows "succeeds (shell_process_command build cmdline s)
    (\<lambda>(b, s'). ins s' = dev \<and> shows_tty (fold display (outs @ prompt_output) t) s')"
  using wf(2) buf
proof (cases rule: process_command_cases [where build = build])
  case (no_words b h)
  have "outs = []" "dev = ses_devices a" "ins s = ses_devices a"
    using a no_words(1) by (simp_all add: command_output_def same_machine_def)
  then show ?thesis
    unfolding no_words(4) using follows_returns [OF prints_follows [OF shell_prompt_prints], of t "s\<lparr>shell_history := h\<rparr>" b] t
    by simp
next
  case (command b h arg0 args ws)
  let ?s = "s\<lparr>shell_history := h\<rparr>"
  have "machine_wf ?s" "same_machine a ?s" using wf(1) a(1) by (simp_all add: same_machine_def)
  from follows_prompt [OF dispatch_follows [OF this command(4-7)], of build]
  have "follows ?s (bindR (shell_dispatch build arg0 args ?s) shell_prompt) (Some (outs @ prompt_output, dev))"
    using a(2) command(1) by simp
  from follows_returns [OF this, of t b] t show ?thesis unfolding command(8) by (simp add: bindR_assoc)
qed

lemma submit_line_shows:
  fixes s :: "'a editor_state_scheme"
  assumes wf: "editor_wf s" and a: "same_machine a s" and t: "shows_tty t s"
    and out: "command_output build (words (strip_newlines (editor_line s))) a = Some (outs, dev)"
  shows "succeeds (submit_line build s) (\<lambda>s'. ins s' = dev \<and> shows_tty (fold display (outs @ prompt_output) (tty_put 10 t)) s')"
proof -
  let ?s = "s\<lparr>input_buf := (input_buf s)[nat (cmd_pos s) := 0]\<rparr>"
  note buf = submitted_buffer [OF wf]
  have "follows ?s (vga_putchar 10 ?s) (Some ([Text [10]], ins s))"
    using emit_follows [of ?s "[10]"] by (simp add: vga_putchar_emit)
  then have "succeeds (vga_putchar 10 ?s) (\<lambda>u. kept ?s u \<and> ins u = ins s \<and> shows_tty (tty_put 10 t) u)"
    using t by (simp add: follows_def)
  then have "succeeds (bindR (vga_putchar 10 ?s) (\<lambda>s. bindR (shell_process_command build (input_buf s) s)
      (\<lambda>(buf, s). Inr (s\<lparr>input_buf := buf, cmd_pos := 0\<rparr>))))
      (\<lambda>s'. ins s' = dev \<and> shows_tty (fold display (outs @ prompt_output) (tty_put 10 t)) s')"
  proof (rule succeeds_bindR)
    fix u assume u: "kept ?s u \<and> ins u = ins s \<and> shows_tty (tty_put 10 t) u"
    then have k: "input_buf u = input_buf ?s" "shell_history u = shell_history s" using kept_editor [of ?s u] by simp_all
    have m: "machine_wf u" "hist_wf (shell_history u)"
      using kept_machine_wf [of ?s u] wf u k by (simp_all add: editor_wf_def)
    have "same_machine a u" using kept_machine [of ?s u] u a by (simp add: same_machine_def)
    then have "succeeds (shell_process_command build (input_buf u) u)
      (\<lambda>(b, s'). ins s' = dev \<and> shows_tty (fold display (outs @ prompt_output) (tty_put 10 t)) s')"
      using process_command_shows [OF m, of "input_buf u" a build outs dev "tty_put 10 t"] buf out u by (simp add: k)
    then show "succeeds (bindR (shell_process_command build (input_buf u) u)
      (\<lambda>(buf, s). Inr (s\<lparr>input_buf := buf, cmd_pos := 0\<rparr>)))
      (\<lambda>s'. ins s' = dev \<and> shows_tty (fold display (outs @ prompt_output) (tty_put 10 t)) s')"
      by (rule succeeds_bindR) auto
  qed
  then show ?thesis by (simp add: submit_line_def editor_buf_write [OF wf])
qed

section \<open>Every key\<close>

text \<open>The editor's invariant with what it says of the session.\<close>

lemma in_sessionD:
  assumes "in_session a s"
  shows "editor_wf s" "shows_tty (ses_tty a) s" "editor_line s = ses_line a" "same_machine a s"
    "hist_wf (shell_history s)" "hist_entries (shell_history s) = ses_history a"
    "hist_cursor (shell_history s) = ses_recall a" "escape_sequence s = ses_escape a"
  using assms unfolding in_session_def same_machine_def editor_wf_def by blast+

lemma in_session_edited:
  assumes "in_session a s" "edited s s'"
  shows "in_session b s' \<longleftrightarrow> shows_tty (ses_tty b) s' \<and> editor_line s' = ses_line b \<and>
     hist_entries (shell_history s') = ses_history b \<and> hist_cursor (shell_history s') = ses_recall b \<and>
     ses_escape a = ses_escape b \<and> ins s' = ses_devices b \<and> ses_files a = ses_files b \<and>
     ses_ticks a = ses_ticks b \<and> ses_memory a = ses_memory b"
proof -
  have e: "editor_wf s'" "initrd s' = initrd s" "tick_count s' = tick_count s" "escape_sequence s' = escape_sequence s"
    "multiboot2_memory_lower s' = multiboot2_memory_lower s" "multiboot2_memory_upper s' = multiboot2_memory_upper s"
    using assms(2) escape_more [of s' s] by (simp_all add: edited_def)
  have d: "fs_dir (initrd s) = ses_files a" "unat (tick_count s) = ses_ticks a" "escape_sequence s = ses_escape a"
    "multiboot2_memory_lower s + multiboot2_memory_upper s = ses_memory a"
    using assms(1) by (simp_all add: in_session_def)
  show ?thesis unfolding in_session_def e(2-) d using e(1) by simp
qed

lemma in_session_escape [simp]: "in_session (a\<lparr>ses_escape := e\<rparr>) (s\<lparr>escape_sequence := e\<rparr>) \<longleftrightarrow>
    in_session (a\<lparr>ses_escape := escape_sequence s\<rparr>) s"
  by (simp add: in_session_def editor_line_def)

lemma enter_follows:
  assumes "in_session a s" "session_enter build a = Some a'"
  shows "succeeds (bindR (submit_line build s) (\<lambda>s. Inr (s\<lparr>escape_sequence := 0\<rparr>))) (in_session a')"
proof -
  note d = in_sessionD [OF assms(1)]
  obtain outs dev where o: "command_output build (words (strip_newlines (editor_line s))) a = Some (outs, dev)"
    using assms(2) d(3) by (auto simp: session_enter_def Let_def split: option.splits)
  let ?b = "a'\<lparr>ses_escape := ses_escape a\<rparr>"
  have b: "in_session ?b s'" if "edited s s'" "cmd_pos s' = 0" "ins s' = dev"
      "shows_tty (fold display (outs @ prompt_output) (tty_put 10 (ses_tty a))) s'"
      "recorded (strip_newlines (editor_line s)) (shell_history s) (shell_history s')" for s'
    using that assms(2) o d unfolding in_session_edited [OF assms(1) that(1)]
    by (auto simp: session_enter_def Let_def recorded_def editor_line_def)
  have sub: "succeeds (submit_line build s) (in_session ?b)"
    using succeeds_safe_conj [OF submit_line_shows [OF d(1,4,2) o] submit_line_safe [OF d(1), of build]]
    by (rule succeeds_weaken) (auto intro: b)
  have "in_session a' (s'\<lparr>escape_sequence := 0\<rparr>)" if "in_session ?b s'" for s'
  proof -
    have "ses_escape a' = 0" using assms(2) by (auto simp: session_enter_def Let_def split: option.splits prod.splits)
    then have "a' = ?b\<lparr>ses_escape := 0\<rparr>" by simp
    then show ?thesis using that in_sessionD(8) [OF that] by (metis in_session_escape session.surjective session.update_convs(5))
  qed
  then show ?thesis by (intro succeeds_bindR [OF sub]) simp
qed

text \<open>Output moves the session's document along.\<close>

lemma kept_in_session:
  assumes "in_session a s" "kept s s'" "ins s' = ins s" "shows_tty t s'"
  shows "in_session (a\<lparr>ses_tty := t\<rparr>) s'"
proof -
  note d = in_sessionD [OF assms(1)] and k = kept_editor [OF assms(2)]
  have "editor_line s' = ses_line a" using d(3) k by (simp add: editor_line_def)
  moreover have "ins s' = ses_devices a" using d(4) assms(3) by (simp add: same_machine_def)
  ultimately show ?thesis
    unfolding in_session_edited [OF assms(1) editedI [OF d(1) assms(2)]] using assms(4) d(6,7) k(1) by simp
qed

lemma emit_in_session:
  assumes "in_session a s"
  shows "succeeds (emit cs s) (in_session (a\<lparr>ses_tty := fold tty_put cs (ses_tty a)\<rparr>))"
proof -
  have "succeeds (emit cs s) (\<lambda>s'. kept s s' \<and> ins s' = ins s \<and> shows_tty (fold tty_put cs (ses_tty a)) s')"
    using emit_follows [of s cs] in_sessionD(2) [OF assms] by (simp add: follows_def)
  then show ?thesis
    by (rule succeeds_weaken) (use kept_in_session [OF assms] in blast)
qed

lemma erase_line_emit:
  assumes "0 \<le> cmd_pos s"
  shows "erase_line s = emit (concat (replicate (nat (cmd_pos s)) [8, 0x20, 8])) s"
proof -
  have "seqR [vga_putchar 8, vga_putchar 0x20, vga_putchar 8] u = emit [8, 0x20, 8] u" for u :: "'a editor_state_scheme"
    by (simp add: emit_def bindR_def split: sum.split)
  then show ?thesis
    using emit_loop [of "nat (cmd_pos s)" "\<lambda>i. seqR [vga_putchar 8, vga_putchar 0x20, vga_putchar 8]" "\<lambda>_. [8, 0x20, 8]" 0 s] assms
    by (simp add: erase_line_def map_replicate_const del: seqR.simps)
qed

lemma editor_line_length: "editor_wf s \<Longrightarrow> length (editor_line s) = nat (cmd_pos s)"
  by (auto simp: editor_wf_def editor_line_def)

lemma erase_line_in_session:
  assumes "in_session a s"
  shows "succeeds (erase_line s)
    (in_session (a\<lparr>ses_tty := fold tty_put (concat (replicate (length (ses_line a)) [8, 0x20, 8])) (ses_tty a)\<rparr>))"
proof -
  note d = in_sessionD [OF assms]
  have "0 \<le> cmd_pos s" "nat (cmd_pos s) = length (ses_line a)"
    using d(1) editor_line_length [OF d(1)] d(3) by (simp_all add: editor_wf_def)
  then show ?thesis using emit_in_session [OF assms] by (simp add: erase_line_emit)
qed

text \<open>Another line in the buffer.\<close>

lemma ses_update_swap: "a\<lparr>ses_tty := t, ses_line := l\<rparr> = a\<lparr>ses_line := l, ses_tty := t\<rparr>"
  by (cases a) simp

lemma in_session_line:
  assumes "in_session a s" "editor_wf (s\<lparr>input_buf := b, cmd_pos := n\<rparr>)"
    "editor_line (s\<lparr>input_buf := b, cmd_pos := n\<rparr>) = l"
  shows "in_session (a\<lparr>ses_line := l\<rparr>) (s\<lparr>input_buf := b, cmd_pos := n\<rparr>)"
  using assms by (simp add: in_session_def)

lemma replace_line_in_session:
  assumes "in_session a s" "terminated p" "length (cstring p) < 256"
  shows "succeeds (bindR (erase_line s) (load_line p)) (in_session (replace_line (cstring p) a))"
proof (rule succeeds_bindR [OF erase_line_in_session [OF assms(1)]])
  fix u
  let ?a = "a\<lparr>ses_tty := fold tty_put (concat (replicate (length (ses_line a)) [8, 0x20, 8])) (ses_tty a)\<rparr>"
  assume u: "in_session ?a u"
  obtain b where b: "load_line p u = emit (cstring p) (u\<lparr>input_buf := b, cmd_pos := int (length (cstring p))\<rparr>)"
    and w: "editor_wf (u\<lparr>input_buf := b, cmd_pos := int (length (cstring p))\<rparr>)"
      "editor_line (u\<lparr>input_buf := b, cmd_pos := int (length (cstring p))\<rparr>) = cstring p"
    using loaded_line [OF in_sessionD(1) [OF u] assms(2,3)] .
  show "succeeds (load_line p u) (in_session (replace_line (cstring p) a))"
    using emit_in_session [OF in_session_line [OF u w], of "cstring p"] by (simp add: b replace_line_def ses_update_swap)
qed

lemma in_session_history:
  assumes "in_session a s" "hist_wf h" "hist_entries h = ses_history a"
  shows "in_session (a\<lparr>ses_recall := hist_cursor h\<rparr>) (s\<lparr>shell_history := h\<rparr>)"
  using assms by (simp add: in_session_def editor_wf_history editor_line_def)

lemma recall_prev_follows:
  assumes "in_session a s"
  shows "succeeds (recall_prev s) (in_session (session_up a))"
proof -
  note d = in_sessionD [OF assms]
  obtain p h where ph: "history_prev (shell_history s) = Inr (p, h)" "hist_wf h" "hist_entries h = ses_history a"
    "terminated p" "length (cstring p) < 256" "hist_cursor h = ses_recall a - 1"
    "cstring p = (if ses_history a = [] then [] else ses_history a ! (ses_recall a - 1))"
    using hist.prev_ok [OF d(5), unfolded d(6,7)] by (auto elim!: succeedsE)
  obtain c where c: "buf_read p 0 = Inr c" "c = 0 \<longleftrightarrow> cstring p = []" using buf_read_first [OF ph(4)] by auto
  have s: "in_session (a\<lparr>ses_recall := ses_recall a - 1\<rparr>) (s\<lparr>shell_history := h\<rparr>)"
    using in_session_history [OF assms ph(2,3)] ph(6) by simp
  show ?thesis
    using replace_line_in_session [OF s ph(4,5)] s c ph(1,7)
    by (auto simp: recall_prev_def session_up_def Let_def)
qed

lemma recall_next_follows:
  assumes "in_session a s"
  shows "succeeds (recall_next s) (in_session (session_down a))"
proof -
  note d = in_sessionD [OF assms]
  let ?l = "if Suc (ses_recall a) < length (ses_history a) then ses_history a ! Suc (ses_recall a) else []"
  let ?k = "if Suc (ses_recall a) < length (ses_history a) then Suc (ses_recall a) else length (ses_history a)"
  obtain p h where ph: "history_next (shell_history s) = Inr (p, h)" "hist_wf h" "hist_entries h = ses_history a"
    "terminated p" "length (cstring p) < 256" "hist_cursor h = ?k" "cstring p = ?l"
    using hist.next_ok [OF d(5), unfolded d(6,7)] by (auto elim!: succeedsE split: if_splits)
  obtain c where c: "buf_read p 0 = Inr c" "c = 0 \<longleftrightarrow> cstring p = []" using buf_read_first [OF ph(4)] by auto
  have s: "in_session (a\<lparr>ses_recall := ?k\<rparr>) (s\<lparr>shell_history := h\<rparr>)"
    using in_session_history [OF assms ph(2,3)] ph(6) by simp
  have down: "session_down a = replace_line (cstring p) (a\<lparr>ses_recall := ?k\<rparr>)"
    using ph(7) by (simp add: session_down_def Let_def)
  show ?thesis
  proof (cases "c = 0")
    case False
    then show ?thesis
      using replace_line_in_session [OF s ph(4,5)] c(1) ph(1) by (simp add: recall_next_def down)
  next
    case True
    have "succeeds (bindR (buf_write (input_buf u) 0 0) (\<lambda>b. Inr (u\<lparr>input_buf := b, cmd_pos := 0\<rparr>)))
        (in_session (a'\<lparr>ses_line := []\<rparr>))" if "in_session a' u" for a' and u :: "'a shell_state_scheme"
      using in_session_line [OF that, where b = "(input_buf u)[0 := 0]" and n = 0 and l = "[]"] in_sessionD(1) [OF that]
      by (auto simp: buf_simps editor_wf_def editor_line_def)
    then have "succeeds (bindR (erase_line (s\<lparr>shell_history := h\<rparr>)) (\<lambda>u.
        bindR (buf_write (input_buf u) 0 0) (\<lambda>b. Inr (u\<lparr>input_buf := b, cmd_pos := 0\<rparr>)))) (in_session (session_down a))"
      using True c(2) by (intro succeeds_bindR [OF erase_line_in_session [OF s]]) (fastforce simp: down replace_line_def)
    then show ?thesis using True c(1) ph(1) by (simp add: recall_next_def)
  qed
qed

text \<open>Editing keys.\<close>

lemma edit_shows:
  assumes "in_session a s" "key \<noteq> 10" "key \<noteq> 0x1B"
  shows "succeeds (if key = 8 then erase_key s else type_key key s) (shows_tty (ses_tty (session_type key a)))"
proof -
  note d = in_sessionD [OF assms(1)]
  have len: "length (ses_line a) = nat (cmd_pos s)" "0 \<le> cmd_pos s"
    using editor_line_length [OF d(1)] d(1,3) by (simp_all add: editor_wf_def)
  show ?thesis
  proof (cases "key = 8")
    case True
    have "cmd_pos s > 0 \<longleftrightarrow> ses_line a \<noteq> []" using len(2) by (auto simp: len(1) simp flip: length_0_conv)
    moreover have "butlast (ses_line a) = ses_line a \<longleftrightarrow> ses_line a = []" by (cases "ses_line a" rule: rev_cases) auto
    ultimately show ?thesis
      using True d(2) vga_putchar_shows [of "ses_tty a" "s\<lparr>cmd_pos := cmd_pos s - 1\<rparr>" 8]
      by (auto simp: erase_key_def session_type_def edit_line_def)
  next
    case False
    have "cmd_pos s < MAX_COMMAND - 1 \<longleftrightarrow> length (ses_line a) < 255" using len by auto
    then show ?thesis
      using False d(2) editor_buf_write [OF d(1), of key]
        vga_putchar_shows [of "ses_tty a" "s\<lparr>input_buf := (input_buf s)[nat (cmd_pos s) := key], cmd_pos := cmd_pos s + 1\<rparr>" key]
      by (auto simp: type_key_def session_type_def edit_line_def is_printable_def)
  qed
qed

lemma edit_follows:
  assumes "in_session a s" "key \<noteq> 10" "key \<noteq> 0x1B"
  shows "succeeds (if key = 8 then erase_key s else type_key key s) (in_session (session_type key a))"
proof -
  note d = in_sessionD [OF assms(1)]
  let ?a = "session_type key a"
  have "succeeds (if key = 8 then erase_key s else type_key key s) (\<lambda>s'. edited s s' \<and> shell_history s' = shell_history s \<and>
      ins s' = ins s \<and> editor_line s' = edit_line key (ses_line a))"
    using erase_key_ok [OF d(1)] type_key_ok [OF d(1), of key] not_printable [of key] d(3)
    by (auto simp: edit_line_def elim!: succeeds_weaken)
  from succeeds_conj [OF this edit_shows [OF assms]] show ?thesis
  proof (rule succeeds_weaken)
    fix s'
    assume s': "(edited s s' \<and> shell_history s' = shell_history s \<and> ins s' = ins s \<and> editor_line s' = edit_line key (ses_line a)) \<and>
      shows_tty (ses_tty ?a) s'"
    then have e: "edited s s'" by simp
    show "in_session ?a s'"
      unfolding in_session_edited [OF assms(1) e] using s' d(4,6,7) by (auto simp: session_type_def same_machine_def)
  qed
qed

lemma plain_key_follows:
  assumes "in_session a s" "(if key = 0x1B then Some (a\<lparr>ses_escape := 1\<rparr>)
      else if key = 10 then session_enter build a else Some (session_type key a)) = Some a'"
  shows "succeeds (plain_key build key s) (in_session a')"
proof -
  have e: "in_session (a\<lparr>ses_escape := 1\<rparr>) (s\<lparr>escape_sequence := 1\<rparr>)" using assms(1) in_sessionD(8) [OF assms(1)] by simp
  consider "key = 0x1B" | "key = 10" | "key \<noteq> 0x1B" "key \<noteq> 10" by blast
  then show ?thesis
  proof cases
    case 1
    then show ?thesis using assms(2) e by (auto simp: plain_key_def)
  next
    case 2
    then show ?thesis using assms enter_follows [OF assms(1)] by (simp add: plain_key_def)
  next
    case 3
    then show ?thesis using assms(2) edit_follows [OF assms(1) 3(2,1)] by (auto simp: plain_key_def)
  qed
qed

lemma handle_key_follows:
  assumes "in_session a s" "session_key build key a = Some a'"
  shows "succeeds (shell_handle_key build key s) (in_session a')"
proof -
  note e = in_sessionD(8) [OF assms(1)]
  have set_escape: "in_session (a\<lparr>ses_escape := n\<rparr>) (s\<lparr>escape_sequence := n\<rparr>)" for n using assms(1) e by simp
  consider "ses_escape a = 1" "key = of_char (CHR ''['')" | "ses_escape a = 1" "key \<noteq> of_char (CHR ''['')"
    | "ses_escape a = 2" | "ses_escape a \<noteq> 1" "ses_escape a \<noteq> 2" by blast
  then show ?thesis
  proof cases
    case 1
    then show ?thesis using assms(2) e set_escape [of 2] by (simp add: session_key_def shell_handle_key_def)
  next
    case 2
    then show ?thesis using assms(2) e plain_key_follows [OF set_escape [of 0], of key build a']
      by (simp add: session_key_def shell_handle_key_def Let_def)
  next
    case 3
    then show ?thesis
      using assms(2) e set_escape [of 0] recall_prev_follows [OF set_escape [of 0]] recall_next_follows [OF set_escape [of 0]]
      by (auto simp: session_key_def shell_handle_key_def Let_def split: if_splits)
  next
    case 4
    then show ?thesis using assms(2) e plain_key_follows [OF assms(1), of key build a']
      by (simp add: session_key_def shell_handle_key_def)
  qed
qed

interpretation shell: simulation "shell_handle_key build" "session_key build" in_session for build
  by unfold_locales (rule handle_key_follows)

section \<open>From any state\<close>

text \<open>
  Every well-formed state is in a session: the document is what the screen shows.
\<close>

definition tty_of :: "'a vga_state_scheme \<Rightarrow> tty" where
  "tty_of s = \<lparr>tty_rows = map (\<lambda>i. take 80 (drop (80 * i) (vga_buffer s))) [0..<25],
     tty_row = nat (cursor_y s), tty_col = nat (cursor_x s), tty_color = current_color s\<rparr>"

definition session_of :: "'a shell_state_scheme \<Rightarrow> session" where
  "session_of s =
     \<lparr>ses_tty = tty_of s, ses_line = editor_line s, ses_history = hist_entries (shell_history s),
      ses_recall = hist_cursor (shell_history s), ses_escape = escape_sequence s, ses_devices = ins s,
      ses_files = fs_dir (initrd s), ses_ticks = unat (tick_count s),
      ses_memory = multiboot2_memory_lower s + multiboot2_memory_upper s\<rparr>"

lemma concat_pieces: "concat (map (\<lambda>i. take w (drop (w * i) xs)) [0..<n]) = take (w * n) xs"
proof (induction n)
  case (Suc n)
  have "take (w * Suc n) xs = take (w * n + w) xs" by (simp add: add.commute)
  then show ?case using Suc by (simp only: take_add) simp
qed simp

lemma shows_tty_of: "vga_wf s \<Longrightarrow> shows_tty (tty_of s) s"
  by (auto simp: shows_tty_def tty_of_def vga_wf_def concat_pieces)

lemma in_session_of: "editor_wf s \<Longrightarrow> in_session (session_of s) s"
  using shows_tty_of [OF editor_vga, of s] by (simp add: in_session_def session_of_def)

text \<open>Which lines stop the shell: the ones whose command does not return.\<close>

definition returns :: "u8 list \<Rightarrow> bool" where
  "returns line \<longleftrightarrow> (case words (strip_newlines line) of [] \<Rightarrow> True
     | name # _ \<Rightarrow> name \<noteq> map of_char ''reboot'' \<and> name \<noteq> map of_char ''date'')"

lemma command_output_defined:
  assumes "returns line"
  shows "\<exists>outs. command_output build (words (strip_newlines line)) a = Some (outs, ses_devices a)"
proof (cases "words (strip_newlines line)")
  case (Cons name args)
  have "map_of (command_outputs build args a) name \<in> insert None (range (\<lambda>outs. Some (Some (outs, ses_devices a))))"
    using assms Cons by (simp add: returns_def command_outputs_def Let_def)
  then show ?thesis using Cons by (auto simp: command_output_def)
qed (simp add: command_output_def)

lemma session_key_defined:
  assumes "key = 10 \<Longrightarrow> returns (ses_line a)"
  shows "\<exists>a'. session_key build key a = Some a' \<and> ses_devices a' = ses_devices a"
proof -
  have up: "ses_devices (session_up a') = ses_devices a'" "ses_devices (session_down a') = ses_devices a'"
    "ses_devices (session_type k a') = ses_devices a'" for k a'
    by (simp_all add: session_up_def session_down_def session_type_def replace_line_def Let_def)
  have enter: "\<exists>b. session_enter build a' = Some b \<and> ses_devices b = ses_devices a'" if "key = 10" "ses_line a' = ses_line a" for a'
    using command_output_defined [OF assms [OF that(1)], of build a'] that(2) by (auto simp: session_enter_def Let_def)
  show ?thesis using enter [of a] enter [of "a\<lparr>ses_escape := 0\<rparr>"] by (auto simp: session_key_def Let_def up)
qed

section \<open>Lines\<close>

lemma session_types:
  assumes "list_all is_printable l" "ses_escape a = 0" "length (ses_line a) + length l \<le> 255"
  shows "foldO (session_key build) l a = Some (a\<lparr>ses_line := ses_line a @ l, ses_tty := fold tty_put l (ses_tty a)\<rparr>)"
  using assms
proof (induction l arbitrary: a)
  case (Cons c l)
  have "session_key build c a = Some (a\<lparr>ses_line := ses_line a @ [c], ses_tty := tty_put c (ses_tty a)\<rparr>)"
    using Cons.prems not_printable [of c] by (simp add: session_key_def session_type_def edit_line_def)
  then show ?case using Cons.IH [of "a\<lparr>ses_line := ses_line a @ [c], ses_tty := tty_put c (ses_tty a)\<rparr>"] Cons.prems by simp
qed simp

text \<open>What a line adds to the document: the line itself, the output of its command, the prompt.\<close>

definition line_shown :: "string \<Rightarrow> session \<Rightarrow> u8 list \<Rightarrow> tty \<Rightarrow> tty" where
  "line_shown build a l t =
     fold display (Text (l @ [10]) # (case command_output build (words l) a of None \<Rightarrow> [] | Some (outs, dev) \<Rightarrow> outs)
       @ prompt_output) t"

definition remember :: "u8 list \<Rightarrow> u8 list list \<Rightarrow> u8 list list" where
  "remember l h = (if l = [] then h else last_n 20 (h @ [l]))"

definition plain_line :: "u8 list \<Rightarrow> bool" where
  "plain_line l \<longleftrightarrow> list_all is_printable l \<and> length l \<le> 255 \<and> returns l"

text \<open>Commands read only the machine's part of a session.\<close>

definition ses_machine :: "session \<Rightarrow> u8 list \<times> (u8 list \<times> u8 list) list \<times> nat \<times> u32" where
  "ses_machine a = (ses_devices a, ses_files a, ses_ticks a, ses_memory a)"

lemma command_output_machine: "ses_machine a = ses_machine b \<Longrightarrow> command_output build ws a = command_output build ws b"
  by (cases ws) (simp_all add: ses_machine_def command_output_def command_outputs_def)

lemma session_line:
  assumes "plain_line l" "ses_escape a = 0" "ses_line a = []"
  obtains a' where "foldO (session_key build) (l @ [10]) a = Some a'" "ses_tty a' = line_shown build a l (ses_tty a)"
    "ses_history a' = remember l (ses_history a)" "ses_line a' = []" "ses_escape a' = 0" "ses_machine a' = ses_machine a"
proof -
  let ?a = "a\<lparr>ses_line := l, ses_tty := fold tty_put l (ses_tty a)\<rparr>"
  have l: "strip_newlines l = l" using assms(1) by (simp add: plain_line_def strip_newlines_printable)
  obtain outs where o: "command_output build (words l) ?a = Some (outs, ses_devices a)"
    using command_output_defined [of l build ?a] assms(1) by (auto simp: plain_line_def l)
  moreover have "command_output build (words l) ?a = command_output build (words l) a"
    by (rule command_output_machine) (simp add: ses_machine_def)
  moreover have "foldO (session_key build) l a = Some ?a"
    using session_types [of l a build] assms by (simp add: plain_line_def)
  ultimately have "\<exists>a'. foldO (session_key build) (l @ [10]) a = Some a' \<and> ses_tty a' = line_shown build a l (ses_tty a) \<and>
      ses_history a' = remember l (ses_history a) \<and> ses_line a' = [] \<and> ses_escape a' = 0 \<and> ses_machine a' = ses_machine a"
    using assms(2,3)
    by (simp add: foldO_append session_key_def session_enter_def Let_def l line_shown_def remember_def ses_machine_def)
  then show thesis using that by blast
qed

lemma session_lines:
  assumes "list_all plain_line ls" "ses_escape a = 0" "ses_line a = []"
  shows "\<exists>a'. foldO (session_key build) (concat (map (\<lambda>l. l @ [10]) ls)) a = Some a' \<and>
    ses_tty a' = fold (line_shown build a) ls (ses_tty a) \<and> ses_history a' = fold remember ls (ses_history a) \<and>
    ses_line a' = [] \<and> ses_escape a' = 0 \<and> ses_machine a' = ses_machine a"
  using assms
proof (induction ls arbitrary: a)
  case (Cons l ls)
  then have l: "plain_line l" and ls: "list_all plain_line ls" by simp_all
  from l Cons.prems(2,3) obtain b where b: "foldO (session_key build) (l @ [10]) a = Some b"
    "ses_tty b = line_shown build a l (ses_tty a)" "ses_history b = remember l (ses_history a)" "ses_line b = []"
    "ses_escape b = 0" "ses_machine b = ses_machine a"
    by (rule session_line)
  have same: "line_shown build b = line_shown build a"
    using command_output_machine [OF b(6)] by (simp add: fun_eq_iff line_shown_def)
  have "concat (map (\<lambda>l. l @ [10]) (l # ls)) = (l @ [10]) @ concat (map (\<lambda>l. l @ [10]) ls)" by simp
  then show ?case
    using Cons.IH [OF ls b(5,4)] b unfolding same by (simp only: foldO_append option.simps fold_simps)
qed simp

lemma last_n_last_n: "last_n n (last_n n xs @ ys) = last_n n (xs @ ys)"
  by (cases "n \<le> length xs") (simp_all add: last_n_def add.commute)

lemma fold_remember:
  "length h \<le> 20 \<Longrightarrow> fold remember ls h = last_n 20 (h @ filter (\<lambda>l. l \<noteq> []) ls)"
proof (induction ls arbitrary: h)
  case Nil
  then show ?case by (simp add: last_n_def)
next
  case (Cons l ls)
  then show ?case
    using Cons.IH [of "remember l h"] last_n_last_n [of 20 "h @ [l]"] by (auto simp: remember_def)
qed

lemma hist_entries_length: "hist_wf h \<Longrightarrow> length (hist_entries h) \<le> 20"
  by (auto simp: hist_wf_def hist_entries_def)

section \<open>Properties\<close>

text \<open>
  C1. The shell is the terminal session it should be. Whatever keys are pressed, in any
  order (characters, backspace, the arrow keys as escape sequences, Enter on any line), the key handler of the
  shell does what the session does: from every well-formed state it returns, the
  screen shows the session's document, with the echo of the keys, the output of every command and the prompts in their
  colours, wrapped and scrolled, the line buffer holds the session's line and the
  history its last twenty lines. The session is defined except at \<open>reboot\<close>, which never
  returns, and at \<open>date\<close> without four answers of the clock.
\<close>

theorem shell_session_refines:
  assumes "editor_wf s" "foldO (session_key build) keys (session_of s) = Some a"
  shows "\<exists>s'. foldR (shell_handle_key build) keys s = Inr s' \<and> editor_wf s' \<and> shows_tty (ses_tty a) s' \<and>
    editor_line s' = ses_line a \<and> hist_entries (shell_history s') = ses_history a \<and> ins s' = ses_devices a"
  using shell.run_sim [OF in_session_of [OF assms(1)] assms(2)] by (auto simp: succeeds_iff in_session_def)

theorem shell_session_refines_witness:
  "\<exists>a s'. foldO (session_key ''now'') [0x6C, 0x73, 10, 0x1B, 0x5B, 0x41, 8] (session_of shell_example) = Some a \<and>
    foldR (shell_handle_key ''now'') [0x6C, 0x73, 10, 0x1B, 0x5B, 0x41, 8] shell_example = Inr s' \<and> editor_wf s' \<and>
    shows_tty (ses_tty a) s' \<and> editor_line s' = ses_line a \<and> hist_entries (shell_history s') = ses_history a \<and>
    ins s' = ses_devices a"
proof -
  have p: "plain_line [0x6C, 0x73]"
    by (simp add: plain_line_def is_printable_def returns_def strip_newlines_def words_char blank_def)
  obtain b where b: "foldO (session_key ''now'') ([0x6C, 0x73] @ [10]) (session_of shell_example) = Some b"
    using session_line [OF p, where a = "session_of shell_example" and build = "''now''"] shell_example_wf(2)
    by (auto simp: session_of_def shell_example_def editor_line_def)
  have key: "\<exists>b. session_key ''now'' k a = Some b" if "k \<noteq> 10" for k a using session_key_defined that by blast
  obtain c where c: "session_key ''now'' 0x1B b = Some c" using key [of "0x1B" b] by auto
  obtain d where d: "session_key ''now'' 0x5B c = Some d" using key [of "0x5B" c] by auto
  obtain e where e: "session_key ''now'' 0x41 d = Some e" using key [of "0x41" d] by auto
  obtain f where f: "session_key ''now'' 8 e = Some f" using key [of 8 e] by auto
  have "foldO (session_key ''now'') (([0x6C, 0x73] @ [10]) @ [0x1B, 0x5B, 0x41, 8]) (session_of shell_example) = Some f"
    unfolding foldO_append [of _ "[0x6C, 0x73] @ [10]"] b using c d e f by simp
  then have "foldO (session_key ''now'') [0x6C, 0x73, 10, 0x1B, 0x5B, 0x41, 8] (session_of shell_example) = Some f" by simp
  from this shell_session_refines [OF shell_example_wf(1) this] show ?thesis by blast
qed

text \<open>
  C4. A transcript. From a well-formed state with an empty line and no escape sequence pending, typing lines of printable characters, each of at most 255 and none of them a \<open>reboot\<close>
  or a \<open>date\<close>, and ending each with Enter always returns; the screen
  then shows the old document followed, line by line, by the line as it was typed, the
  output of the command it names and the prompt, and the history holds the last twenty of the non-empty lines.
\<close>

theorem shell_transcript:
  assumes "editor_wf s" "escape_sequence s = 0" "editor_line s = []" "list_all plain_line ls"
  shows "\<exists>s'. foldR (shell_handle_key build) (concat (map (\<lambda>l. l @ [10]) ls)) s = Inr s' \<and> editor_wf s' \<and>
    shows_tty (fold (line_shown build (session_of s)) ls (tty_of s)) s' \<and> editor_line s' = [] \<and>
    hist_entries (shell_history s') = last_n 20 (hist_entries (shell_history s) @ filter (\<lambda>l. l \<noteq> []) ls)"
proof -
  have "ses_escape (session_of s) = 0" "ses_line (session_of s) = []" using assms(2,3) by (simp_all add: session_of_def)
  then obtain a where a: "foldO (session_key build) (concat (map (\<lambda>l. l @ [10]) ls)) (session_of s) = Some a"
    "ses_tty a = fold (line_shown build (session_of s)) ls (tty_of s)" "ses_line a = []"
    "ses_history a = fold remember ls (hist_entries (shell_history s))"
    using session_lines [OF assms(4), of "session_of s" build] by (auto simp: session_of_def)
  have "ses_history a = last_n 20 (hist_entries (shell_history s) @ filter (\<lambda>l. l \<noteq> []) ls)"
    using a(4) fold_remember hist_entries_length assms(1) by (simp add: editor_wf_def)
  then show ?thesis
    using shell.run_sim [OF in_session_of [OF assms(1)] a(1)] a(2,3) by (auto simp: succeeds_iff in_session_def)
qed

theorem shell_transcript_witness:
  "\<exists>s'. foldR (shell_handle_key ''now'') (concat (map (\<lambda>l. l @ [10]) [map of_char ''echo hi'', []])) shell_example = Inr s' \<and>
    editor_wf s' \<and>
    shows_tty (fold (line_shown ''now'' (session_of shell_example)) [map of_char ''echo hi'', []] (tty_of shell_example)) s' \<and>
    editor_line s' = [] \<and> hist_entries (shell_history s') =
      last_n 20 (hist_entries (shell_history shell_example) @ filter (\<lambda>l. l \<noteq> []) [map of_char ''echo hi'', []])"
proof (rule shell_transcript [OF shell_example_wf])
  show "editor_line shell_example = []" by (simp add: shell_example_def editor_line_def)
  show "list_all plain_line [map of_char ''echo hi'', []]"
    by (simp add: plain_line_def is_printable_def returns_def strip_newlines_def words_char blank_def)
qed

text \<open>
  The screen and the line part at the right border: a character typed in the last column
  and erased again is gone from the line, but the console ignores a backspace in column 0
  and still shows it, with the cursor on the next row.
\<close>

theorem wrapped_char_stays:
  assumes "in_session a s" "ses_escape a = 0" "is_printable c" "length (ses_line a) < 255" "tty_col (ses_tty a) = 79"
  shows "\<exists>s'. foldR (shell_handle_key build) [c, 8] s = Inr s' \<and> editor_line s' = editor_line s \<and>
    shows_tty (tty_put c (ses_tty a)) s' \<and> cursor_x s' = 0"
proof -
  let ?t = "tty_put c (ses_tty a)"
  have col: "tty_col ?t = 0" using assms(5) not_printable [OF assms(3)] by (simp add: tty_put_def tty_down_def tty_store_def Let_def)
  then have bs: "tty_put 8 ?t = ?t" by (simp add: tty_put_def)
  have "session_key build c a = Some (a\<lparr>ses_line := ses_line a @ [c], ses_tty := ?t\<rparr>)"
    using assms(2-4) not_printable [OF assms(3)] by (simp add: session_key_def session_type_def edit_line_def)
  moreover have "session_key build 8 (a\<lparr>ses_line := ses_line a @ [c], ses_tty := ?t\<rparr>) = Some (a\<lparr>ses_line := ses_line a, ses_tty := ?t\<rparr>)"
    using assms(2) bs by (simp add: session_key_def session_type_def edit_line_def)
  ultimately have "foldO (session_key build) [c, 8] a = Some (a\<lparr>ses_line := ses_line a, ses_tty := ?t\<rparr>)" by simp
  from shell.run_sim [OF assms(1) this] show ?thesis
    using assms(1) col by (auto simp: succeeds_iff in_session_def shows_tty_def)
qed

theorem wrapped_char_stays_witness:
  "\<exists>s'. foldR (shell_handle_key ''now'') [0x61, 8] (shell_example\<lparr>cursor_x := 79\<rparr>) = Inr s' \<and>
    editor_line s' = editor_line (shell_example\<lparr>cursor_x := 79\<rparr>) \<and>
    shows_tty (tty_put 0x61 (ses_tty (session_of (shell_example\<lparr>cursor_x := 79\<rparr>)))) s' \<and> cursor_x s' = 0"
proof (rule wrapped_char_stays [OF in_session_of])
  show "editor_wf (shell_example\<lparr>cursor_x := 79\<rparr>)"
    using shell_example_wf(1) by (simp add: editor_wf_def machine_wf_def vga_wf_def editor_line_def shell_example_def)
qed (simp_all add: session_of_def shell_example_def editor_line_def is_printable_def tty_of_def)

end
