(* ===== verification/Tools.thy ===== *)
theory Tools
  imports Larch_Prelude
begin

text \<open>
  The installer of the host side, \<^verbatim>\<open>tools/installer/larch_install.rs\<close>: it runs programs of
  the host one after the other. The programs are not part of the sources: \<open>status\<close>, what
  starting one of them does to the host and answers, is a parameter.
\<close>

section \<open>The installer\<close>

record installer =
  disk :: string
  hostname :: string
  username :: string
  password :: string

text \<open>The answer of \<open>Command::status\<close>: no exit status if the program cannot be started.\<close>

type_synonym 'h status = "string \<Rightarrow> string list \<Rightarrow> 'h \<Rightarrow> int option \<times> 'h"

definition installer_new :: installer where
  "installer_new = \<lparr>disk = ''/dev/sda'', hostname = ''larchbox'', username = ''user'', password = ''larch''\<rparr>"

text \<open>One statement \<open>Command::new(program).args(args).status();\<close>: the answer is dropped.\<close>

definition run_command :: "'h status \<Rightarrow> string \<times> string list \<Rightarrow> 'h \<Rightarrow> 'h" where
  "run_command status c h = snd (status (fst c) (snd c) h)"

definition partition_disk :: "'h status \<Rightarrow> installer \<Rightarrow> 'h \<Rightarrow> 'h" where
  "partition_disk status i = fold (run_command status)
     [(''parted'', [disk i, ''mklabel'', ''gpt'']),
      (''parted'', [disk i, ''mkpart'', ''primary'', ''fat32'', ''1MiB'', ''512MiB'']),
      (''parted'', [disk i, ''set'', ''1'', ''esp'', ''on'']),
      (''parted'', [disk i, ''mkpart'', ''primary'', ''ext4'', ''512MiB'', ''100%''])]"

definition format_filesystems :: "'h status \<Rightarrow> installer \<Rightarrow> 'h \<Rightarrow> 'h" where
  "format_filesystems status i = fold (run_command status)
     [(''mkfs.fat'', [''-F32'', ''/dev/sda1'']), (''mkfs.ext4'', [''/dev/sda2''])]"

definition install_base :: "'h status \<Rightarrow> installer \<Rightarrow> 'h \<Rightarrow> 'h" where
  "install_base status i = fold (run_command status)
     [(''mount'', [''/dev/sda2'', ''/mnt'']),
      (''mkdir'', [''-p'', ''/mnt/boot'']),
      (''mount'', [''/dev/sda1'', ''/mnt/boot'']),
      (''cp'', [''-r'', ''/larch_root/*'', ''/mnt/'']),
      (''genfstab'', [''-U'', ''/mnt'', ''>>'', ''/mnt/etc/fstab''])]"

abbreviation (input) QUOTE :: char where "QUOTE \<equiv> CHR 0x27"

definition chroot_and_configure :: "'h status \<Rightarrow> installer \<Rightarrow> 'h \<Rightarrow> 'h" where
  "chroot_and_configure status i = fold (run_command status)
     [(''arch-chroot'', [''/mnt'', ''/bin/bash'', ''-c'',
         ''echo '' @ [QUOTE] @ hostname i @ [QUOTE] @ '' > /etc/hostname'']),
      (''arch-chroot'', [''/mnt'', ''/bin/bash'', ''-c'',
         ''echo '' @ [QUOTE] @ username i @ '':'' @ password i @ [QUOTE] @ '' | chpasswd''])]"

definition installer_run :: "'h status \<Rightarrow> installer \<Rightarrow> 'h \<Rightarrow> 'h" where
  "installer_run status i h =
     chroot_and_configure status i (install_base status i (format_filesystems status i (partition_disk status i h)))"

text \<open>\<open>main\<close>: the text it prints and the host it leaves.\<close>

definition install_main :: "'h status \<Rightarrow> 'h \<Rightarrow> string \<times> 'h" where
  "install_main status h = (''Larch installation complete!'' @ [CHR 0x0A], installer_run status installer_new h)"

section \<open>What the installer runs\<close>

text \<open>A host that keeps a record of the programs it was asked to start.\<close>

definition recording :: "'h status \<Rightarrow> ('h \<times> (string \<times> string list) list) status" where
  "recording status p args = (\<lambda>(h, log). let (r, h') = status p args h in (r, (h', log @ [(p, args)])))"

lemma run_recording: "run_command (recording status) c (h, log) = (run_command status c h, log @ [c])"
  by (simp add: run_command_def recording_def split: prod.split)

lemma fold_recording: "fold (run_command (recording status)) cs (h, log) = (fold (run_command status) cs h, log @ cs)"
  by (induction cs arbitrary: h log) (simp_all add: run_recording)

definition install_steps :: "installer \<Rightarrow> (string \<times> string list) list" where
  "install_steps i = snd (installer_run (recording (\<lambda>_ _ h. (None, h))) i ((), []))"

lemma installer_run_steps: "installer_run status i = fold (run_command status) (install_steps i)"
proof -
  have "installer_run status i = fold (run_command status) cs \<and> install_steps i = cs"
    if "cs = [(''parted'', [disk i, ''mklabel'', ''gpt'']),
      (''parted'', [disk i, ''mkpart'', ''primary'', ''fat32'', ''1MiB'', ''512MiB'']),
      (''parted'', [disk i, ''set'', ''1'', ''esp'', ''on'']),
      (''parted'', [disk i, ''mkpart'', ''primary'', ''ext4'', ''512MiB'', ''100%'']),
      (''mkfs.fat'', [''-F32'', ''/dev/sda1'']), (''mkfs.ext4'', [''/dev/sda2'']),
      (''mount'', [''/dev/sda2'', ''/mnt'']), (''mkdir'', [''-p'', ''/mnt/boot'']),
      (''mount'', [''/dev/sda1'', ''/mnt/boot'']), (''cp'', [''-r'', ''/larch_root/*'', ''/mnt/'']),
      (''genfstab'', [''-U'', ''/mnt'', ''>>'', ''/mnt/etc/fstab'']),
      (''arch-chroot'', [''/mnt'', ''/bin/bash'', ''-c'',
         ''echo '' @ [QUOTE] @ hostname i @ [QUOTE] @ '' > /etc/hostname'']),
      (''arch-chroot'', [''/mnt'', ''/bin/bash'', ''-c'',
         ''echo '' @ [QUOTE] @ username i @ '':'' @ password i @ [QUOTE] @ '' | chpasswd''])]" for cs
    using that
    by (simp add: fun_eq_iff install_steps_def installer_run_def partition_disk_def format_filesystems_def install_base_def
        chroot_and_configure_def run_recording)
  then show ?thesis by blast
qed

text \<open>The devices that a command line names: arguments below \<open>/dev\<close>.\<close>

definition devices_of :: "string \<times> string list \<Rightarrow> string list" where
  "devices_of c = filter (\<lambda>a. take 5 a = ''/dev/'') (snd c)"

section \<open>Properties\<close>

text \<open>
  The installer cannot fail: whatever the host's programs answer, and also when they
  cannot be started, all thirteen are run, in the same order and with the same arguments,
  and the completion message is printed.
\<close>

theorem installer_ignores_failures:
  "snd (installer_run (recording status) i (h, [])) = install_steps i \<and> length (install_steps i) = 13 \<and>
   fst (install_main status h) = ''Larch installation complete!'' @ [CHR 0x0A]"
proof -
  have "snd (installer_run (recording status) i (h, [])) = install_steps i"
    by (simp add: installer_run_steps [of "recording status"] fold_recording)
  moreover have "length (install_steps i) = 13"
    by (simp add: install_steps_def installer_run_def partition_disk_def format_filesystems_def install_base_def
        chroot_and_configure_def run_recording)
  ultimately show ?thesis by (simp add: install_main_def)
qed

text \<open>
  The installer formats and mounts partitions of \<open>/dev/sda\<close> whatever disk it was told to
  partition: all file systems are made on \<open>/dev/sda1\<close> and \<open>/dev/sda2\<close>.
\<close>

theorem installer_formats_sda:
  "concat (map devices_of (drop 4 (install_steps (i\<lparr>disk := d\<rparr>)))) =
     [''/dev/sda1'', ''/dev/sda2'', ''/dev/sda2'', ''/dev/sda1'']"
  by (simp add: install_steps_def installer_run_def partition_disk_def format_filesystems_def install_base_def
      chroot_and_configure_def run_recording devices_of_def)

end
