(* ===== verification/Spec2Isabelle.thy ===== *)
theory Spec2Isabelle
  imports Libc Cells Vga History Initramfs Kprintf Rtc Commands Shell Shell_Variants Timer Process
    Descriptors Multiboot Mouse Serial Vga_Legacy Permissions Vfs Elf
    Kernel_Main Compositor Hda Pmm Vmm Keyboard Scheduler Interrupts
    Context Heap Security Sound Boot Kernel_Events Terminal Paging Audio_Api Session
    Tools
begin

text \<open>
  \<^bold>\<open>Larch OS\<close>: a model of the kernel and of the services around it, and their correctness.

  \<^bold>\<open>The program.\<close> Larch is a small operating system for 32-bit x86: a C kernel with a few
  Rust modules and two assembly files. The boot loader enters
  \<^verbatim>\<open>kernel/larch/boot.s\<close>, which calls \<^verbatim>\<open>kernel/kernel_main.c\<close>; this prints through the text console, reads the
  boot information, loads the descriptor tables, starts memory management, the timer, the
  initial file system, the keyboard and the scheduler, starts the shell, enables interrupts and halts.
  The keyboard driver decodes scan codes into
  characters; the shell's key handler edits a line, keeps a history, splits
  the line into words and runs a command; commands print to the console and read the
  initial file system, the clock or the tick counter. Programs are loaded from ELF images
  and are to enter the kernel through interrupt 0x80. What would connect these parts is missing from the
  sources: no code sets an interrupt gate, registers a handler or calls the shell's key handler, and the interrupt table
  that the kernel loads has no present gate. The theorems about handlers are therefore about their calls, whoever makes them.

  The Makefile links \<^verbatim>\<open>boot.s\<close>, \<^verbatim>\<open>multiboot.c\<close>, \<^verbatim>\<open>gdt_full.c\<close>, \<^verbatim>\<open>idt.c\<close>, \<^verbatim>\<open>pmm.rs\<close>,
  \<^verbatim>\<open>vmm.rs\<close>, \<^verbatim>\<open>pit.c\<close>, \<^verbatim>\<open>vga_scroll.c\<close>, \<^verbatim>\<open>vga_cursor.c\<close>, \<^verbatim>\<open>rtc.c\<close>, \<^verbatim>\<open>ps2_mouse.c\<close>,
  \<^verbatim>\<open>serial.c\<close>, \<^verbatim>\<open>keyboard.rs\<close>, \<^verbatim>\<open>kprintf.c\<close>, \<^verbatim>\<open>initramfs.c\<close>, \<^verbatim>\<open>vfs.c\<close>,
  \<^verbatim>\<open>elf_loader.c\<close>, the two system call files, \<^verbatim>\<open>shell_main.c\<close> with its commands, history
  and prompt, \<^verbatim>\<open>context_switch.S\<close> and \<^verbatim>\<open>kernel_main.c\<close>. The other files of the tree
  (a second shell, a line reader, an older console, timer, descriptor table and process
  list, the C library, permissions, the Rust scheduler, interrupt table, long-mode
  paging, heaps and security services, the sound code, the terminal and the compositor) are not linked; the ones listed below are modelled all the
  same, each as it is written.

  \<^bold>\<open>Conventions\<close> (\<^theory_text>\<open>Larch_Prelude\<close>). Unsigned types and \<open>char\<close> are words of their
  width, so wrap-around is the word's; an \<open>int\<close> whose overflow is undefined is an integer
  with an explicit check. Every function returns a result: a value, or a trap that says
  why it did not return: an access outside its array, a division by zero, overflow of a
  signed integer, a null pointer, a Rust panic, waiting for a device that has not answered,
  or spinning for ever. Arrays are lists with checked accesses; byte-addressed memory, where
  aliasing matters (boot information, ELF images, page tables, the words of the screen and the buffers of the compositor, the C library's memory
  functions), is a function from addresses to bytes. Port accesses and privileged
  instructions are logged in order; values read from ports come from a list of answers that
  the theorems quantify over. \<open>succeeds\<close> says that a computation returns with a
  property; \<open>safe\<close> also allows waiting and spinning, but no other trap.

  \<^bold>\<open>Theories and sources.\<close>
    \<^item> \<open>Libc\<close>: \<^verbatim>\<open>lib/libc/string.c\<close>, \<^verbatim>\<open>lib/math/math.c\<close>. Each function against its meaning,
      \<open>memcpy\<close> with overlap.
    \<^item> \<open>Cells\<close>: the loops over an array of cells that the text drivers share. Locale
      \<open>cell_array\<close>, interpreted as \<open>screen\<close> in \<open>Vga\<close> and as \<open>term_cells\<close> in \<open>Terminal\<close>.
    \<^item> \<open>Vga\<close>: \<^verbatim>\<open>kernel/drivers/vga_scroll.c\<close>. The cell buffer with cursor and colour.
      Printing refines appending to a document whose last 25 rows are shown. Locale
      \<open>console\<close> (a character output that keeps an invariant), interpreted as \<open>vga_console\<close>.
    \<^item> \<open>History\<close>: \<^verbatim>\<open>kernel/shell/command_history.c\<close>. Twenty rows of 256 bytes as a bounded
      list of lines with a cursor. Locale \<open>recall_list\<close>, interpreted as \<open>hist\<close>; the states
      reachable by any calls, as an inductive predicate.
    \<^item> \<open>Initramfs\<close>: \<^verbatim>\<open>kernel/fs/initramfs.c\<close>. Lookup and bounded reads. Locale
      \<open>file_store\<close>, interpreted as \<open>initramfs\<close>; the read loops of the commands rest on it.
    \<^item> \<open>Kprintf\<close>, \<open>Rtc\<close>, \<open>Commands\<close>: \<^verbatim>\<open>kernel/printf/kprintf.c\<close>, \<^verbatim>\<open>kernel/drivers/rtc.c\<close>,
      \<^verbatim>\<open>kernel/shell/builtin_commands.c\<close>, \<^verbatim>\<open>cmd_cat.c\<close>, \<^verbatim>\<open>help_updated.c\<close>,
      \<^verbatim>\<open>colored_shell.c\<close>. Every command down to the characters it prints.
    \<^item> \<open>Shell\<close>: \<^verbatim>\<open>kernel/shell/shell_main.c\<close>. Word splitting, dispatch, the key handler with
      its escape sequences. The editor refines a list of typed characters, and any sequence
      of keys is safe.
    \<^item> \<open>Session\<close>: what a user of the shell sees. An abstract session (document, line, history,
      recall position, escape state) and, for every key, the step it takes, with the output
      of every command; the key handler follows it (an interpretation of the locale \<open>simulation\<close> of the prelude,
      as is the console following its document), so every
      sequence of keys is accounted for down to the cells of the screen.
    \<^item> \<open>Shell_Variants\<close>: \<^verbatim>\<open>kernel/shell/shell.c\<close>, \<^verbatim>\<open>kernel/shell/shell_keyboard.c\<close>. The two
      other editors; the interpreter of \<^verbatim>\<open>shell.c\<close> is shown equal to that of \<^verbatim>\<open>shell_main.c\<close>.
    \<^item> \<open>Keyboard\<close>: \<^verbatim>\<open>kernel/drivers/keyboard.rs\<close>. The decoder for every scan code and every state of
      the modifiers, and which control characters it can deliver.
    \<^item> \<open>Timer\<close>, \<open>Interrupts\<close>: \<^verbatim>\<open>kernel/drivers/pit.c\<close>, \<^verbatim>\<open>plit.c\<close>, \<^verbatim>\<open>vga_cursor.c\<close>, the sleep
      of \<^verbatim>\<open>kernel/syscall/syscall_implementations.c\<close>, \<^verbatim>\<open>kernel/larch/interrupts.rs\<close>.
    \<^item> \<open>Process\<close>, \<open>Scheduler\<close>, \<open>Context\<close>: \<^verbatim>\<open>kernel/sched/process.c\<close>, the system call files
      and \<^verbatim>\<open>usr/include/larch.h\<close>; \<^verbatim>\<open>kernel/sched/scheduler.rs\<close>, a fair round robin;
      \<^verbatim>\<open>kernel/sched/context_switch.S\<close>, whose instructions are modelled on registers and
      stack, and after which a suspended process continues where it was.
    \<^item> \<open>Descriptors\<close>, \<open>Multiboot\<close>, \<open>Kernel_Main\<close>: \<^verbatim>\<open>kernel/gdt/gdt_full.c\<close>,
      \<^verbatim>\<open>kernel/larch/gdt.c\<close>, \<^verbatim>\<open>kernel/tss/tss.c\<close>, \<^verbatim>\<open>kernel/larch/idt.c\<close>,
      \<^verbatim>\<open>kernel/larch/multiboot.c\<close>, \<^verbatim>\<open>kernel/kernel_main.c\<close>. The boot sequence as the
      composition of the other theories; the parser of the boot information against the bytes that a
      Multiboot2 loader writes.
    \<^item> \<open>Boot\<close>: \<^verbatim>\<open>kernel/larch/boot.s\<close>. From the registers the loader leaves, over the stack, into
      \<open>kernel_main\<close>.
    \<^item> \<open>Kernel_Events\<close>: the booted kernel under any sequence of calls of the timer handler, the shell's
      key handler and the mouse handler, on one state: an invariant that each call keeps.
    \<^item> \<open>Pmm\<close>, \<open>Vmm\<close>: \<^verbatim>\<open>kernel/mem/pmm.rs\<close>, \<^verbatim>\<open>kernel/mem/vmm.rs\<close> and the page fault handler
      of \<^verbatim>\<open>lib/libcrust/bridge.rs\<close>. Locale \<open>page_allocator\<close>, interpreted on the bitmap as
      \<open>pages\<close>; the page tables, whose pages it supplies, refine a partial function from
      pages to entries.
    \<^item> \<open>Paging\<close>: \<^verbatim>\<open>kernel/larch/paging.rs\<close>. The four-level tables as a tree of paths, in which
      mapping updates one page, provided that the free pages are zero; its tables come from \<open>pages\<close> too.
    \<^item> \<open>Heap\<close>: \<^verbatim>\<open>kernel/mem/allocator.rs\<close>, \<^verbatim>\<open>kernel/mem/slab_allocator.rs\<close>, the allocation
      wrappers of \<^verbatim>\<open>bridge.rs\<close>. Granted blocks do
      not overlap, up to the first merge of the block list and up to the request whose size wraps around.
    \<^item> \<open>Elf\<close>: \<^verbatim>\<open>kernel/userspace/elf_loader.c\<close>. Loading as writes to the flat memory that also
      holds the image.
    \<^item> \<open>Terminal\<close>: \<^verbatim>\<open>usr/bin/terminal.rs\<close>, the text driver behind the system call that writes,
      and its composition with \<open>Process\<close>.
    \<^item> \<open>Vfs\<close>, \<open>Permissions\<close>, \<open>Security\<close>: \<^verbatim>\<open>kernel/fs/vfs.c\<close>,
      \<^verbatim>\<open>security/perm/permissions.c\<close>, \<^verbatim>\<open>security/auth/auth.rs\<close>,
      \<^verbatim>\<open>security/sandbox/sandbox.rs\<close>.
    \<^item> \<open>Mouse\<close>, \<open>Serial\<close>, \<open>Vga_Legacy\<close>, \<open>Hda\<close>, \<open>Sound\<close>, \<open>Audio_Api\<close>, \<open>Compositor\<close>:
      \<^verbatim>\<open>kernel/drivers/ps2_mouse.c\<close>, \<^verbatim>\<open>serial.c\<close>, \<^verbatim>\<open>vga.c\<close>, \<^verbatim>\<open>sound/drivers/hdaudio.c\<close>,
      \<^verbatim>\<open>sound/core/mixer.rs\<close>, \<^verbatim>\<open>sound/api/audio.cs\<close>, \<^verbatim>\<open>usr/bin/de_compositor.c\<close> (\<^verbatim>\<open>de_compositor.cpp\<close> has the same text).
    \<^item> \<open>Tools\<close>: \<^verbatim>\<open>tools/installer/larch_install.rs\<close>, the sequence of host programs it runs.

  \<^bold>\<open>Parameters.\<close> Functions that the sources declare and call but define nowhere are
  parameters: in \<open>Kernel_Main\<close> the record \<open>services\<close>, with the hypothesis that they leave the
  parts of the other components alone; in \<open>Elf\<close> the page allocation and mapping calls; in
  \<open>Process\<close> the terminal (which \<open>Terminal\<close> supplies) and the heap behind the system calls;
  in \<open>Timer\<close> and \<open>Kernel_Events\<close> the scheduler that the timer handler calls, which
  \<^verbatim>\<open>kernel/sched/process.c\<close> defines (theory \<open>Process\<close>) but the Makefile does not link, and which has to leave the variables of the other components alone; in \<open>Compositor\<close> the address that operator \<open>new\<close>
  answers; in \<open>Vfs\<close> the operations of the
  mounted file systems; in \<open>Tools\<close> the programs of the host. The build date and the addresses the linker chooses are parameters
  too.

  \<^bold>\<open>Bounds.\<close> Loops whose end does not follow from their data carry a step bound, and a
  theorem says that it is enough. \<open>parse_tags\<close>: more steps than the boot information has tags
  (a tag size that rounds to zero makes the loop endless, which is proved as well).
  The read loops of \<open>cat\<close> and \<open>hexdump\<close>: one step more than the size of the file, as every
  step but the last reads a byte. The page loop of the ELF loader: \<open>2 ^ 20\<close>, the number of
  pages of the address space. The scheduler's search: the number of processes, as one
  round visits each. The block list of the heap: more steps than it has blocks. The wait for the audio device has its bound of 10000 polls in the
  source. Waiting for the serial port, for keys and for the mouse consumes the list of
  answers and is \<open>Blocked\<close> at its end.

  \<^bold>\<open>Not modelled.\<close> The configuration printer \<^verbatim>\<open>tools/cross_compiler/config.rs\<close> and the script
  \<^verbatim>\<open>tools/iso_gen/build.sh\<close>, which print fixed text and start compilers of the host; \<open>rust_print_cstr\<close> of
  \<^verbatim>\<open>lib/libcrust/bridge.rs\<close>, which turns a character into a pointer and so has no meaning in Rust. Interrupt
  handlers run to completion between the modelled operations: an interrupt in the middle of one is not interleaved,
  except for the tick counter, whose values during a sleep are arbitrary. Processor state behind the logged
  instructions (the translation buffer, the caches) is not modelled.
\<close>

end
